(* ===== verification/Prelude.thy ===== *)
theory Prelude
  imports Main "HOL-Library.Word"
begin

text \<open>
  Shared vocabulary of the development: the fixed-width integers of the C++ sources, the
  result of code that may throw, the decimal printing and reading done by \<open>std::format\<close>,
  \<open>std::to_string\<close> and \<open>std::stoi\<close>, lemmas on lists used by several components, and
  the reachability and invariance layer the event-driven components share.
\<close>

section \<open>Collections of rewrite rules\<close>

named_theorems accessors \<open>getters, setters and constructors of the value classes\<close>
named_theorems handlers \<open>definitions of the event handlers, unfolded in step proofs\<close>

section \<open>Machine integers and results\<close>

type_synonym uint16 = "16 word"
type_synonym uint32 = "32 word"
type_synonym uint64 = "64 word"
type_synonym size_t = "64 word"

text \<open>
  The exceptions the sources can raise or let through: \<open>std::out_of_range\<close> of
  \<open>vector::at\<close>, \<open>HashCollisionError\<close> of the ring (with the vnode index it reports),
  \<open>boost::system::system_error\<close> of the throwing Asio calls, \<open>YAML::Exception\<close> with its
  message, \<open>std::filesystem::filesystem_error\<close>, \<open>std::length_error\<close> of \<open>vector::reserve\<close> and
  \<open>std::invalid_argument\<close> of \<open>std::stoi\<close>.
\<close>

datatype cpp_exn =
    OutOfRange
  | HashCollisionError nat
  | SystemError
  | YamlException string
  | FilesystemError
  | LengthError
  | InvalidArgument

text \<open>\<open>Inl e\<close>: the call throws \<open>e\<close>; \<open>Inr v\<close>: it returns \<open>v\<close>.\<close>

type_synonym 'a throws = "cpp_exn + 'a"

text \<open>Sequencing of calls that may throw.\<close>

definition and_then :: "'a throws \<Rightarrow> ('a \<Rightarrow> 'b throws) \<Rightarrow> 'b throws" where
  "and_then m k = (case m of Inl e \<Rightarrow> Inl e | Inr v \<Rightarrow> k v)"

text \<open>\<open>vector::at\<close>.\<close>

definition vector_at :: "'a list \<Rightarrow> nat \<Rightarrow> 'a throws" where
  "vector_at xs i = (if i < length xs then Inr (xs ! i) else Inl OutOfRange)"

section \<open>Decimal numerals\<close>

definition digit_char :: "nat \<Rightarrow> char" where
  "digit_char d = char_of (48 + d)"

definition digit_value :: "char \<Rightarrow> nat" where
  "digit_value c = of_char c - 48"

definition is_digit :: "char \<Rightarrow> bool" where
  "is_digit c \<longleftrightarrow> 48 \<le> (of_char c :: nat) \<and> (of_char c :: nat) \<le> 57"

text \<open>What \<open>std::format("{}", n)\<close> and \<open>std::to_string(n)\<close> print for an unsigned integer.\<close>

fun to_decimal :: "nat \<Rightarrow> string" where
  "to_decimal n =
     (if n < 10 then [digit_char n] else to_decimal (n div 10) @ [digit_char (n mod 10)])"

declare to_decimal.simps [simp del]

text \<open>What \<open>std::stoi\<close> reads from a string of digits.\<close>

definition of_decimal :: "string \<Rightarrow> nat" where
  "of_decimal s = foldl (\<lambda>acc c. 10 * acc + digit_value c) 0 s"

section \<open>Text\<close>

definition newline :: string where
  "newline = [CHR 0x0A]"

text \<open>\<open>std::println\<close>.\<close>

definition println :: "string \<Rightarrow> string" where
  "println s = s @ newline"

definition quoted :: "string \<Rightarrow> string" where
  "quoted s = [CHR 0x22] @ s @ [CHR 0x22]"

section \<open>Reachable states\<close>

text \<open>
  The event-driven components are step relations \<open>step s e t\<close>: in state \<open>s\<close> the event
  \<open>e\<close> (a completion delivered by the I/O service) leads to \<open>t\<close>.
\<close>

inductive reach :: "('s \<Rightarrow> bool) \<Rightarrow> ('s \<Rightarrow> 'e \<Rightarrow> 's \<Rightarrow> bool) \<Rightarrow> 's \<Rightarrow> bool"
  for init :: "'s \<Rightarrow> bool" and step :: "'s \<Rightarrow> 'e \<Rightarrow> 's \<Rightarrow> bool" where
  reach_init: "init s \<Longrightarrow> reach init step s"
| reach_step: "reach init step s \<Longrightarrow> step s e t \<Longrightarrow> reach init step t"

text \<open>An invariant: it holds at the start and every step keeps it.\<close>

locale inductive_invariant =
  fixes init :: "'s \<Rightarrow> bool"
    and step :: "'s \<Rightarrow> 'e \<Rightarrow> 's \<Rightarrow> bool"
    and inv :: "'s \<Rightarrow> bool"
  assumes init_inv: "init s \<Longrightarrow> inv s"
    and step_inv: "inv s \<Longrightarrow> step s e t \<Longrightarrow> inv t"
begin

lemma reachable_inv: "reach init step s \<Longrightarrow> inv s"
  by (induction rule: reach.induct) (auto intro: init_inv step_inv)

end

text \<open>
  Refinement: a concrete system whose every step, seen through \<open>abs\<close>, is a step of an abstract one.
  \<open>ev\<close> gives the abstract event; \<open>good\<close> is what is known of reachable concrete states.
\<close>

locale refinement =
  fixes init :: "'s \<Rightarrow> bool" and step :: "'s \<Rightarrow> 'e \<Rightarrow> 's \<Rightarrow> bool" and good :: "'s \<Rightarrow> bool"
    and spec_init :: "'t \<Rightarrow> bool" and spec_step :: "'t \<Rightarrow> 'f \<Rightarrow> 't \<Rightarrow> bool"
    and abs :: "'s \<Rightarrow> 't" and ev :: "'s \<Rightarrow> 'e \<Rightarrow> 's \<Rightarrow> 'f"
  assumes reachable_good: "reach init step s \<Longrightarrow> good s"
    and init_sim: "init s \<Longrightarrow> spec_init (abs s)"
    and step_sim: "good s \<Longrightarrow> step s e t \<Longrightarrow> spec_step (abs s) (ev s e t) (abs t)"
begin

lemma reachable_step_sim: "reach init step s \<Longrightarrow> step s e t \<Longrightarrow> spec_step (abs s) (ev s e t) (abs t)"
  by (rule step_sim) (rule reachable_good)

lemma reach_sim: "reach init step s \<Longrightarrow> reach spec_init spec_step (abs s)"
proof (induction rule: reach.induct)
  case (reach_init s)
  then show ?case by (intro reach.reach_init init_sim)
next
  case (reach_step s e t)
  then show ?case using reachable_step_sim by (blast intro: reach.reach_step)
qed

end

section \<open>Lemmas on results and lists\<close>

lemma and_then_Inl [simp]: "and_then (Inl e) k = Inl e"
  by (simp add: and_then_def)

lemma and_then_Inr [simp]: "and_then (Inr v) k = k v"
  by (simp add: and_then_def)

lemma and_then_eq_Inr_iff: "and_then m k = Inr w \<longleftrightarrow> (\<exists>v. m = Inr v \<and> k v = Inr w)"
  by (cases m) auto

lemma vector_at_Inr [simp]: "i < length xs \<Longrightarrow> vector_at xs i = Inr (xs ! i)"
  by (simp add: vector_at_def)

lemma vector_at_Inl [simp]: "length xs \<le> i \<Longrightarrow> vector_at xs i = Inl OutOfRange"
  by (simp add: vector_at_def)

lemma vector_at_eq_Inr_iff: "vector_at xs i = Inr x \<longleftrightarrow> i < length xs \<and> x = xs ! i"
  by (auto simp: vector_at_def)

lemma find_append: "find P (xs @ ys) = (case find P xs of None \<Rightarrow> find P ys | Some x \<Rightarrow> Some x)"
  by (induction xs) auto

text \<open>In a list sorted by a strict key order, \<open>find\<close> returns the element of least key.\<close>

lemma find_sorted_least:
  assumes "sorted_wrt (\<lambda>x y. k x < (k y :: nat)) xs" and "find P xs = Some x"
  shows "x \<in> set xs \<and> P x \<and> (\<forall>y\<in>set xs. P y \<longrightarrow> y = x \<or> k x < k y)"
  using assms
proof (induction xs)
  case Nil
  then show ?case by simp
next
  case (Cons a xs)
  then show ?case by (cases "P a") auto
qed

section \<open>Lemmas on decimal numerals\<close>

lemma digit_value_char [simp]: "d < 10 \<Longrightarrow> digit_value (digit_char d) = d"
  by (simp add: digit_value_def digit_char_def)

lemma is_digit_char [simp]: "d < 10 \<Longrightarrow> is_digit (digit_char d)"
  by (simp add: is_digit_def digit_char_def)

lemma digit_char_value [simp]: "is_digit c \<Longrightarrow> digit_char (digit_value c) = c"
  by (simp add: is_digit_def digit_char_def digit_value_def)

lemma digit_value_less [simp]: "is_digit c \<Longrightarrow> digit_value c < 10"
  unfolding is_digit_def digit_value_def by linarith

lemma digit_char_0 [simp]: "digit_char 0 = CHR ''0''"
  by code_simp

lemma to_decimal_small: "n < 10 \<Longrightarrow> to_decimal n = [digit_char n]"
  by (simp add: to_decimal.simps)

lemma to_decimal_step:
  "\<not> n < 10 \<Longrightarrow> to_decimal n = to_decimal (n div 10) @ [digit_char (n mod 10)]"
  by (simp add: to_decimal.simps [of n])

lemma to_decimal_not_Nil [simp]: "to_decimal n \<noteq> []"
  by (cases "n < 10") (simp_all add: to_decimal_small to_decimal_step)

lemma of_decimal_Nil [simp]: "of_decimal [] = 0"
  by (simp add: of_decimal_def)

lemma of_decimal_snoc [simp]: "of_decimal (s @ [c]) = 10 * of_decimal s + digit_value c"
  by (simp add: of_decimal_def)

lemma of_decimal_to_decimal [simp]: "of_decimal (to_decimal n) = n"
proof (induction n rule: to_decimal.induct)
  case (1 n)
  show ?case
  proof (cases "n < 10")
    case True
    then show ?thesis
      using of_decimal_snoc [of "[]" "digit_char n"] by (simp add: to_decimal_small)
  next
    case False
    with 1 show ?thesis by (simp add: to_decimal_step)
  qed
qed

lemma to_decimal_inject [simp]: "to_decimal m = to_decimal n \<longleftrightarrow> m = n"
  by (metis of_decimal_to_decimal)

lemma to_decimal_digits: "c \<in> set (to_decimal n) \<Longrightarrow> is_digit c"
proof (induction n rule: to_decimal.induct)
  case (1 n)
  then show ?case
    by (cases "n < 10") (auto simp: to_decimal_small to_decimal_step)
qed

lemma to_decimal_hd_zero: "hd (to_decimal n) = CHR ''0'' \<Longrightarrow> n = 0"
proof (induction n rule: to_decimal.induct)
  case (1 n)
  show ?case
  proof (cases "n < 10")
    case True
    with "1.prems" have "digit_value (digit_char n) = digit_value (CHR ''0'')"
      by (simp add: to_decimal_small)
    moreover have "digit_value (CHR ''0'') = 0" by (simp add: digit_value_def)
    ultimately show ?thesis using True by simp
  next
    case False
    with "1.prems" have "hd (to_decimal (n div 10)) = CHR ''0''"
      by (simp add: to_decimal_step)
    with False "1.IH" have "n div 10 = 0" by blast
    with False show ?thesis by simp
  qed
qed

text \<open>Digit strings with no leading zero are exactly the printed numerals.\<close>

lemma of_decimal_pos:
  assumes "s \<noteq> []" and "hd s \<noteq> CHR ''0''" and "\<forall>c\<in>set s. is_digit c"
  shows "0 < of_decimal s"
  using assms
proof (induction s rule: rev_induct)
  case Nil
  then show ?case by simp
next
  case (snoc c s)
  show ?case
  proof (cases "s = []")
    case True
    have "c = CHR ''0''" if "digit_value c = 0"
      using that snoc.prems True digit_char_value [of c] by simp
    with True snoc.prems of_decimal_snoc [of "[]" c] show ?thesis by auto
  next
    case False
    with snoc show ?thesis by simp
  qed
qed

lemma to_decimal_of_decimal:
  assumes "s \<noteq> []" and "length s = 1 \<or> hd s \<noteq> CHR ''0''" and "\<forall>c\<in>set s. is_digit c"
  shows "to_decimal (of_decimal s) = s"
  using assms
proof (induction s rule: rev_induct)
  case Nil
  then show ?case by simp
next
  case (snoc c s)
  show ?case
  proof (cases "s = []")
    case True
    with snoc.prems of_decimal_snoc [of "[]" c] show ?thesis by (simp add: to_decimal_small)
  next
    case False
    with snoc.prems have hd: "hd s \<noteq> CHR ''0''" and ds: "\<forall>c\<in>set s. is_digit c" and c: "is_digit c"
      by auto
    then have "to_decimal (of_decimal s) = s" using False snoc.IH by blast
    moreover have "0 < of_decimal s" using of_decimal_pos [OF False hd ds] .
    ultimately show ?thesis
      using c by (simp add: to_decimal_step)
  qed
qed

lemma to_decimal_length_le:
  "n < 10 ^ k \<Longrightarrow> 0 < k \<Longrightarrow> length (to_decimal n) \<le> k"
proof (induction k arbitrary: n)
  case 0
  then show ?case by simp
next
  case (Suc k)
  show ?case
  proof (cases "n < 10")
    case True
    then show ?thesis by (simp add: to_decimal_small)
  next
    case False
    with Suc.prems have "0 < k" by (cases k) auto
    moreover have "n div 10 < 10 ^ k" using Suc.prems by (simp add: less_mult_imp_div_less mult.commute)
    ultimately show ?thesis using False Suc.IH [of "n div 10"] by (simp add: to_decimal_step)
  qed
qed

end
