(* ===== verification/Service_Node.thy ===== *)
theory Service_Node
  imports Prelude
begin

text \<open>
  \<open>lib/model/ServiceNode\<close>: a backend's name, address, port and weight, and the validation
  of its address. The main result characterises the strings \<open>IsValidIpv4\<close> accepts as the
  canonical dotted quads.
\<close>

section \<open>The class\<close>

record ServiceNode =
  m_name :: string
  m_ip :: string
  m_port :: uint16
  m_weight :: uint16

definition ServiceNode_default :: ServiceNode where
  "ServiceNode_default = \<lparr>m_name = [], m_ip = [], m_port = 0, m_weight = 1\<rparr>"

definition ServiceNode_new :: "string \<Rightarrow> string \<Rightarrow> uint16 \<Rightarrow> uint16 \<Rightarrow> ServiceNode" where
  "ServiceNode_new name ip port weight =
     \<lparr>m_name = name, m_ip = ip, m_port = port, m_weight = weight\<rparr>"

definition ServiceNode_GetName :: "ServiceNode \<Rightarrow> string" where
  "ServiceNode_GetName n = m_name n"

definition ServiceNode_GetIp :: "ServiceNode \<Rightarrow> string" where
  "ServiceNode_GetIp n = m_ip n"

definition ServiceNode_GetPort :: "ServiceNode \<Rightarrow> uint16" where
  "ServiceNode_GetPort n = m_port n"

definition ServiceNode_GetWeight :: "ServiceNode \<Rightarrow> uint16" where
  "ServiceNode_GetWeight n = m_weight n"

definition ServiceNode_SetName :: "string \<Rightarrow> ServiceNode \<Rightarrow> ServiceNode" where
  "ServiceNode_SetName name n = n\<lparr>m_name := name\<rparr>"

definition ServiceNode_SetIp :: "string \<Rightarrow> ServiceNode \<Rightarrow> ServiceNode" where
  "ServiceNode_SetIp ip n = n\<lparr>m_ip := ip\<rparr>"

definition ServiceNode_SetPort :: "uint16 \<Rightarrow> ServiceNode \<Rightarrow> ServiceNode" where
  "ServiceNode_SetPort port n = n\<lparr>m_port := port\<rparr>"

definition ServiceNode_SetWeight :: "uint16 \<Rightarrow> ServiceNode \<Rightarrow> ServiceNode" where
  "ServiceNode_SetWeight weight n = n\<lparr>m_weight := weight\<rparr>"

section \<open>Address validation\<close>

text \<open>
  \<open>std::getline(stream, token, '.')\<close> on the rest of the stream: it fails on an exhausted
  stream, and otherwise takes the characters up to the delimiter, which it drops.
\<close>

definition getline_dot :: "string \<Rightarrow> (string \<times> string) option" where
  "getline_dot stream =
     (if stream = [] then None
      else Some (takeWhile (\<lambda>c. c \<noteq> CHR ''.'') stream,
                 drop 1 (dropWhile (\<lambda>c. c \<noteq> CHR ''.'') stream)))"

lemma getline_dot_shorter [termination_simp]:
  "getline_dot stream = Some (token, rest) \<Longrightarrow> length rest < length stream"
  using length_dropWhile_le [of "\<lambda>c. c \<noteq> CHR ''.''" stream]
  by (cases stream) (auto simp: getline_dot_def split: if_splits)

text \<open>
  The token loop: \<open>None\<close> is \<open>return false\<close> from inside the loop, \<open>Some n\<close> the value of
  \<open>octetCount\<close> when the stream is exhausted.
\<close>

fun ipv4_token_loop :: "string \<Rightarrow> nat \<Rightarrow> nat option" where
  "ipv4_token_loop stream octetCount =
     (case getline_dot stream of
        None \<Rightarrow> Some octetCount
      | Some (token, rest) \<Rightarrow>
          if token = [] \<or> length token > 3 then None
          else if length token > 1 \<and> token ! 0 = CHR ''0'' then None
          else if list_ex (\<lambda>c. \<not> is_digit c) token then None
          else if of_decimal token > 255 then None
          else ipv4_token_loop rest (octetCount + 1))"

declare ipv4_token_loop.simps [simp del]

definition IsValidIpv4 :: "string \<Rightarrow> bool" where
  "IsValidIpv4 ip =
     (case ipv4_token_loop ip 0 of
        None \<Rightarrow> False
      | Some octetCount \<Rightarrow> octetCount = 4 \<and> last ip \<noteq> CHR ''.'')"

definition IsValid :: "ServiceNode \<Rightarrow> bool" where
  "IsValid n \<longleftrightarrow> m_name n \<noteq> [] \<and> m_ip n \<noteq> [] \<and> m_port n \<noteq> 0 \<and> IsValidIpv4 (m_ip n)"

text \<open>The specification: four decimal octets joined by dots.\<close>

definition dotted_quad :: "nat \<Rightarrow> nat \<Rightarrow> nat \<Rightarrow> nat \<Rightarrow> string" where
  "dotted_quad a b c d =
     to_decimal a @ ''.'' @ to_decimal b @ ''.'' @ to_decimal c @ ''.'' @ to_decimal d"

fun join_dots :: "string list \<Rightarrow> string" where
  "join_dots [] = []"
| "join_dots [t] = t"
| "join_dots (t # ts) = t @ CHR ''.'' # join_dots ts"

definition octet :: "string \<Rightarrow> bool" where
  "octet t \<longleftrightarrow> t \<noteq> [] \<and> length t \<le> 3 \<and> \<not> (length t > 1 \<and> t ! 0 = CHR ''0'') \<and>
     (\<forall>c\<in>set t. is_digit c) \<and> of_decimal t \<le> 255"

section \<open>Accessor laws\<close>

lemmas ServiceNode_accessors [accessors] =
  ServiceNode_default_def ServiceNode_new_def ServiceNode_GetName_def ServiceNode_GetIp_def
  ServiceNode_GetPort_def ServiceNode_GetWeight_def ServiceNode_SetName_def
  ServiceNode_SetIp_def ServiceNode_SetPort_def ServiceNode_SetWeight_def

lemma default_node_invalid: "\<not> IsValid ServiceNode_default"
  by (simp add: IsValid_def accessors)

section \<open>Correctness of the token loop\<close>

lemma dot_not_digit [simp]: "\<not> is_digit (CHR ''.'')"
  by (simp add: is_digit_def)

lemma octet_iff: "octet t \<longleftrightarrow> (\<exists>a \<le> 255. t = to_decimal a)"
proof
  assume t: "octet t"
  then have "to_decimal (of_decimal t) = t"
    by (intro to_decimal_of_decimal) (auto simp: octet_def hd_conv_nth Suc_lessI)
  with t show "\<exists>a \<le> 255. t = to_decimal a"
    by (intro exI [of _ "of_decimal t"]) (simp add: octet_def)
next
  assume "\<exists>a \<le> 255. t = to_decimal a"
  then obtain a where a: "a \<le> 255" and t: "t = to_decimal a" by blast
  from a have "length t \<le> 3" using to_decimal_length_le [of a 3] t by simp
  moreover have "\<not> (length t > 1 \<and> t ! 0 = CHR ''0'')"
    using to_decimal_hd_zero [of a] to_decimal_small [of a] t by (auto simp: hd_conv_nth)
  ultimately show "octet t"
    using a t to_decimal_digits by (auto simp: octet_def)
qed

lemma octet_no_dot: "octet t \<Longrightarrow> c \<in> set t \<Longrightarrow> c \<noteq> CHR ''.''"
  by (auto simp: octet_def)

lemma getline_dot_last:
  "t \<noteq> [] \<Longrightarrow> \<forall>c\<in>set t. c \<noteq> CHR ''.'' \<Longrightarrow> getline_dot t = Some (t, [])"
  by (simp add: getline_dot_def takeWhile_eq_all_conv [THEN iffD2] dropWhile_eq_Nil_conv [THEN iffD2])

lemma getline_dot_mid:
  "\<forall>c\<in>set t. c \<noteq> CHR ''.'' \<Longrightarrow> getline_dot (t @ CHR ''.'' # rest) = Some (t, rest)"
  by (simp add: getline_dot_def takeWhile_append dropWhile_append)

lemma getline_dot_cases:
  assumes "getline_dot s = Some (t, rest)"
  shows "s = t \<and> rest = [] \<or> s = t @ CHR ''.'' # rest"
proof -
  let ?p = "\<lambda>c. c \<noteq> CHR ''.''"
  have s: "s = takeWhile ?p s @ dropWhile ?p s" by simp
  from assms have t: "t = takeWhile ?p s" and r: "rest = drop 1 (dropWhile ?p s)"
    by (auto simp: getline_dot_def split: if_splits)
  show ?thesis
  proof (cases "dropWhile ?p s")
    case Nil
    with s t r show ?thesis by simp
  next
    case (Cons c cs)
    then have "c = CHR ''.''" using hd_dropWhile [of ?p s] by simp
    with Cons s t r show ?thesis by simp
  qed
qed

lemma token_loop_step:
  "getline_dot s = Some (t, rest) \<Longrightarrow>
   ipv4_token_loop s n = (if octet t then ipv4_token_loop rest (n + 1) else None)"
  by (subst ipv4_token_loop.simps) (auto simp: octet_def list_ex_iff)

lemma token_loop_end: "getline_dot s = None \<Longrightarrow> ipv4_token_loop s n = Some n"
  by (subst ipv4_token_loop.simps) simp

lemma token_loop_sound:
  assumes "ipv4_token_loop s n = Some m" and "s \<noteq> [] \<Longrightarrow> last s \<noteq> CHR ''.''"
  shows "\<exists>ts. (\<forall>t\<in>set ts. octet t) \<and> m = n + length ts \<and> s = join_dots ts"
  using assms
proof (induction s n rule: ipv4_token_loop.induct)
  case (1 s n)
  show ?case
  proof (cases "getline_dot s")
    case None
    then have "s = []" by (simp add: getline_dot_def split: if_splits)
    with None "1.prems"(1) show ?thesis by (intro exI [of _ "[]"]) (simp add: token_loop_end)
  next
    case (Some p)
    then obtain t rest where p: "getline_dot s = Some (t, rest)" by (cases p) auto
    with "1.prems"(1) have t: "octet t" and loop: "ipv4_token_loop rest (n + 1) = Some m"
      by (auto simp: token_loop_step split: if_splits)
    from p consider (whole) "s = t" "rest = []" | (more) "s = t @ CHR ''.'' # rest"
      using getline_dot_cases by blast
    then show ?thesis
    proof cases
      case whole
      with loop t show ?thesis
        by (intro exI [of _ "[t]"]) (simp add: token_loop_end getline_dot_def)
    next
      case more
      with "1.prems"(2) have r: "rest \<noteq> []" and l: "last rest \<noteq> CHR ''.''"
        by (auto split: if_splits)
      have "\<exists>ts. (\<forall>t\<in>set ts. octet t) \<and> m = (n + 1) + length ts \<and> rest = join_dots ts"
        using p t loop l by (intro "1.IH" [OF p refl]) (auto simp: octet_def list_ex_iff)
      then obtain ts where ts: "\<forall>t\<in>set ts. octet t" "m = (n + 1) + length ts" "rest = join_dots ts"
        by blast
      with r more t show ?thesis
        by (intro exI [of _ "t # ts"]) (cases ts; simp)
    qed
  qed
qed

lemma token_loop_complete:
  "ts \<noteq> [] \<Longrightarrow> \<forall>t\<in>set ts. octet t \<Longrightarrow> ipv4_token_loop (join_dots ts) n = Some (n + length ts)"
proof (induction ts arbitrary: n rule: join_dots.induct)
  case (2 t)
  then have "t \<noteq> []" by (simp add: octet_def)
  with 2 have "getline_dot t = Some (t, [])"
    by (intro getline_dot_last) (auto dest: octet_no_dot)
  with 2 show ?case by (simp add: token_loop_step token_loop_end getline_dot_def)
next
  case (3 t t' ts)
  then have "getline_dot (t @ CHR ''.'' # join_dots (t' # ts)) = Some (t, join_dots (t' # ts))"
    by (intro getline_dot_mid) (auto dest: octet_no_dot)
  with 3 show ?case by (simp add: token_loop_step)
qed simp

lemma join_dots_last: "octet t \<Longrightarrow> last (join_dots (ts @ [t])) = last t \<and> join_dots (ts @ [t]) \<noteq> []"
proof (induction ts)
  case Nil
  then show ?case by (simp add: octet_def)
next
  case (Cons u us)
  then show ?case by (cases "us @ [t]") auto
qed

lemma IsValidIpv4_iff_octets:
  "IsValidIpv4 ip \<longleftrightarrow> (\<exists>ts. length ts = 4 \<and> (\<forall>t\<in>set ts. octet t) \<and> ip = join_dots ts)"
proof
  assume "IsValidIpv4 ip"
  then show "\<exists>ts. length ts = 4 \<and> (\<forall>t\<in>set ts. octet t) \<and> ip = join_dots ts"
    using token_loop_sound [of ip 0] by (fastforce simp: IsValidIpv4_def split: option.splits)
next
  assume "\<exists>ts. length ts = 4 \<and> (\<forall>t\<in>set ts. octet t) \<and> ip = join_dots ts"
  then obtain ts where ts: "length ts = 4" "\<forall>t\<in>set ts. octet t" "ip = join_dots ts" by blast
  then have ne: "ts \<noteq> []" by auto
  then have "octet (last ts)" using ts by simp
  then have "last (last ts) \<noteq> CHR ''.''"
    by (metis octet_no_dot octet_def last_in_set)
  then have "last ip \<noteq> CHR ''.''"
    using join_dots_last [of "last ts" "butlast ts"] ne ts \<open>octet (last ts)\<close> by simp
  then show "IsValidIpv4 ip"
    using token_loop_complete [OF ne ts(2)] ts by (simp add: IsValidIpv4_def)
qed

lemma length_4_iff: "length ts = 4 \<longleftrightarrow> (\<exists>a b c d. ts = [a, b, c, d])"
  by (auto simp: numeral_eq_Suc length_Suc_conv)

lemma join_dots_quad:
  "join_dots [to_decimal a, to_decimal b, to_decimal c, to_decimal d] = dotted_quad a b c d"
  by (simp add: dotted_quad_def)

lemma four_octets_iff:
  "(\<exists>ts. length ts = 4 \<and> (\<forall>t\<in>set ts. octet t) \<and> ip = join_dots ts) \<longleftrightarrow>
   (\<exists>a b c d. a \<le> 255 \<and> b \<le> 255 \<and> c \<le> 255 \<and> d \<le> 255 \<and> ip = dotted_quad a b c d)"
  (is "?octets \<longleftrightarrow> ?quad")
proof
  assume ?octets
  then obtain t u v w where "octet t" "octet u" "octet v" "octet w" "ip = join_dots [t, u, v, w]"
    unfolding length_4_iff by force
  then show ?quad unfolding octet_iff using join_dots_quad by metis
next
  assume ?quad
  then obtain a b c d where q: "a \<le> 255" "b \<le> 255" "c \<le> 255" "d \<le> 255" "ip = dotted_quad a b c d"
    by blast
  let ?ts = "[to_decimal a, to_decimal b, to_decimal c, to_decimal d]"
  have "octet (to_decimal n)" if "n \<le> 255" for n
    using that octet_iff by blast
  with q have "\<forall>t\<in>set ?ts. octet t" by simp
  moreover have "ip = join_dots ?ts" using q(5) join_dots_quad by simp
  ultimately show ?octets by (intro exI [of _ ?ts]) simp
qed

section \<open>Properties\<close>

text \<open>
  C21: \<open>IsValidIpv4\<close> accepts exactly the canonical dotted quads: four numbers of at most 255
  printed in decimal without leading zeros, separated by single dots.
\<close>

theorem IsValidIpv4_iff_dotted_quad:
  "IsValidIpv4 ip \<longleftrightarrow>
     (\<exists>a b c d. a \<le> 255 \<and> b \<le> 255 \<and> c \<le> 255 \<and> d \<le> 255 \<and>
        ip = to_decimal a @ ''.'' @ to_decimal b @ ''.'' @ to_decimal c @ ''.'' @ to_decimal d)"
  by (simp add: IsValidIpv4_iff_octets four_octets_iff dotted_quad_def)

end
