(* ===== verification/Service_State.thy ===== *)
theory Service_State
  imports Service_Node
begin

text \<open>
  \<open>core/state/ServiceState\<close>: the per-backend counters and health flag. The operations are
  functions on the record, as the single event-loop thread runs them; the compare-and-swap
  loop of \<open>DecrementConnections\<close> is also modelled step by step, with other threads free to
  interleave, because the class promises it with its atomics.
\<close>

section \<open>The class\<close>

record ServiceState =
  m_node :: ServiceNode
  m_activeConnections :: size_t
  m_healthy :: bool
  m_consecutiveFailures :: size_t

definition ServiceState_new :: "ServiceNode \<Rightarrow> ServiceState" where
  "ServiceState_new node =
     \<lparr>m_node = node, m_activeConnections = 0, m_healthy = True, m_consecutiveFailures = 0\<rparr>"

text \<open>Copy and move construction and assignment: each loads the other's fields one by one.\<close>

definition ServiceState_copy :: "ServiceState \<Rightarrow> ServiceState" where
  "ServiceState_copy other =
     \<lparr>m_node = m_node other, m_activeConnections = m_activeConnections other,
      m_healthy = m_healthy other, m_consecutiveFailures = m_consecutiveFailures other\<rparr>"

definition ServiceState_assign :: "ServiceState \<Rightarrow> ServiceState \<Rightarrow> ServiceState" where
  "ServiceState_assign other this =
     this\<lparr>m_node := m_node other, m_activeConnections := m_activeConnections other,
          m_healthy := m_healthy other, m_consecutiveFailures := m_consecutiveFailures other\<rparr>"

definition GetNode :: "ServiceState \<Rightarrow> ServiceNode" where
  "GetNode s = m_node s"

definition GetActiveConnections :: "ServiceState \<Rightarrow> size_t" where
  "GetActiveConnections s = m_activeConnections s"

definition IsHealthy :: "ServiceState \<Rightarrow> bool" where
  "IsHealthy s = m_healthy s"

definition GetConsecutiveFailures :: "ServiceState \<Rightarrow> size_t" where
  "GetConsecutiveFailures s = m_consecutiveFailures s"

definition IncrementConnections :: "ServiceState \<Rightarrow> ServiceState" where
  "IncrementConnections s = s\<lparr>m_activeConnections := m_activeConnections s + 1\<rparr>"

text \<open>The loop run with no interference: one exchange, or none when the counter is 0.\<close>

definition DecrementConnections :: "ServiceState \<Rightarrow> ServiceState" where
  "DecrementConnections s =
     (let current = m_activeConnections s
      in if current > 0 then s\<lparr>m_activeConnections := current - 1\<rparr> else s)"

definition SetHealthy :: "bool \<Rightarrow> ServiceState \<Rightarrow> ServiceState" where
  "SetHealthy healthy s = s\<lparr>m_healthy := healthy\<rparr>"

definition IncrementFailures :: "ServiceState \<Rightarrow> ServiceState" where
  "IncrementFailures s = s\<lparr>m_consecutiveFailures := m_consecutiveFailures s + 1\<rparr>"

definition ResetFailures :: "ServiceState \<Rightarrow> ServiceState" where
  "ResetFailures s = s\<lparr>m_consecutiveFailures := 0\<rparr>"

section \<open>The compare-and-swap loop, step by step\<close>

text \<open>
  A thread inside \<open>DecrementConnections\<close>: before the load, at the loop head with its local
  \<open>current\<close>, or returned.
\<close>

datatype dec_pc = DecStart | DecLoop size_t | DecReturned

text \<open>
  One step of that thread on the shared counter. \<open>compare_exchange_weak\<close> succeeds only when
  the counter equals \<open>current\<close>; it may fail spuriously, and a failure reloads \<open>current\<close>.
\<close>

inductive dec_step :: "size_t \<times> dec_pc \<Rightarrow> size_t \<times> dec_pc \<Rightarrow> bool" where
  dec_load: "dec_step (c, DecStart) (c, DecLoop c)"
| dec_exit: "dec_step (c, DecLoop 0) (c, DecReturned)"
| dec_cas_ok: "current > 0 \<Longrightarrow> c = current \<Longrightarrow> dec_step (c, DecLoop current) (current - 1, DecReturned)"
| dec_cas_fail: "current > 0 \<Longrightarrow> dec_step (c, DecLoop current) (c, DecLoop c)"

inductive_cases dec_startE [elim!]: "dec_step (c, DecStart) t"
inductive_cases dec_loopE [elim!]: "dec_step (c, DecLoop current) t"
inductive_cases dec_returnedE [elim!]: "dec_step (c, DecReturned) t"

text \<open>
  Any number of threads on one counter. \<open>n_inc\<close> and \<open>n_dec\<close> are ghosts that count the
  increments and the exchanges that succeeded.
\<close>

record cas_system =
  counter :: size_t
  threads :: "nat \<Rightarrow> dec_pc"
  n_inc :: nat
  n_dec :: nat

datatype cas_event = Incr | DecMove nat | DecCall nat

inductive cas_step :: "cas_system \<Rightarrow> cas_event \<Rightarrow> cas_system \<Rightarrow> bool" where
  cas_incr: "cas_step s Incr (s\<lparr>counter := counter s + 1, n_inc := n_inc s + 1\<rparr>)"
| cas_call: "threads s i = DecReturned \<Longrightarrow>
    cas_step s (DecCall i) (s\<lparr>threads := (threads s)(i := DecStart)\<rparr>)"
| cas_move: "dec_step (counter s, threads s i) (c, pc) \<Longrightarrow>
    cas_step s (DecMove i)
      (s\<lparr>counter := c, threads := (threads s)(i := pc),
         n_dec := (if c = counter s then n_dec s else n_dec s + 1)\<rparr>)"

definition cas_init :: "size_t \<Rightarrow> cas_system \<Rightarrow> bool" where
  "cas_init c0 s \<longleftrightarrow> counter s = c0 \<and> n_inc s = 0 \<and> n_dec s = 0"

text \<open>A single thread with the counter to itself.\<close>

definition solo_init :: "size_t \<Rightarrow> size_t \<times> dec_pc \<Rightarrow> bool" where
  "solo_init c0 s \<longleftrightarrow> s = (c0, DecStart)"

definition solo_step :: "size_t \<times> dec_pc \<Rightarrow> unit \<Rightarrow> size_t \<times> dec_pc \<Rightarrow> bool" where
  "solo_step s _ t \<longleftrightarrow> dec_step s t"

section \<open>Accessor laws\<close>

lemmas ServiceState_accessors [accessors] =
  ServiceState_new_def ServiceState_copy_def ServiceState_assign_def GetNode_def
  GetActiveConnections_def IsHealthy_def GetConsecutiveFailures_def IncrementConnections_def
  SetHealthy_def IncrementFailures_def ResetFailures_def

lemma ServiceState_copy_id [simp]: "ServiceState_copy s = s"
  by (cases s) (simp add: accessors)

lemma ServiceState_assign_other [simp]:
  fixes this other :: ServiceState
  shows "ServiceState_assign other this = other"
  by (cases this, cases other) (simp add: accessors)

lemma DecrementConnections_IncrementConnections:
  "m_activeConnections s \<noteq> - 1 \<Longrightarrow> DecrementConnections (IncrementConnections s) = s"
  using unat_eq_zero [of "m_activeConnections s + 1"]
  by (auto simp: DecrementConnections_def accessors Let_def word_neq_0_conv [symmetric]
      eq_neg_iff_add_eq_0)

lemma unat_DecrementConnections:
  "unat (m_activeConnections (DecrementConnections s)) = unat (m_activeConnections s) - 1"
  by (auto simp: DecrementConnections_def Let_def word_gt_0 unat_minus_one)

section \<open>The loop under interleaving\<close>

lemma dec_step_counter:
  "dec_step (c, pc) (c', pc') \<Longrightarrow> c' \<noteq> c \<Longrightarrow> 0 < c \<and> c' = c - 1"
  by (cases pc) auto

definition cas_inv :: "size_t \<Rightarrow> cas_system \<Rightarrow> bool" where
  "cas_inv c0 s \<longleftrightarrow> (unat c0 + n_inc s < 2 ^ 64 \<longrightarrow> unat (counter s) + n_dec s = unat c0 + n_inc s)"

lemma cas_init_inv: "cas_init c0 s \<Longrightarrow> cas_inv c0 s"
  by (simp add: cas_init_def cas_inv_def)

lemma unat_Suc_bounded:
  fixes x :: "64 word"
  assumes "unat x + 1 < 2 ^ 64"
  shows "unat (x + 1) = unat x + 1"
  using assms by (simp add: unat_word_ariths)

lemma cas_step_inv:
  assumes inv: "cas_inv c0 s" and step: "cas_step s e t"
  shows "cas_inv c0 t"
  using step
proof (cases rule: cas_step.cases)
  case cas_incr
  have "unat (counter s + 1) = unat (counter s) + 1" if "unat c0 + n_inc t < 2 ^ 64"
    using inv that cas_incr by (intro unat_Suc_bounded) (simp add: cas_inv_def)
  with inv cas_incr show ?thesis by (simp add: cas_inv_def)
next
  case (cas_call i)
  with inv show ?thesis by (simp add: cas_inv_def)
next
  case (cas_move i c pc)
  show ?thesis
  proof (cases "c = counter s")
    case True
    with inv cas_move show ?thesis by (simp add: cas_inv_def)
  next
    case False
    with dec_step_counter [OF cas_move(3)] have "0 < counter s" and "c = counter s - 1" by auto
    then have "unat c + 1 = unat (counter s)"
      by (simp add: word_gt_0 unat_minus_one unat_gt_0 Suc_leI)
    with inv cas_move False show ?thesis unfolding cas_inv_def by simp linarith
  qed
qed

interpretation cas: inductive_invariant "cas_init c0" cas_step "cas_inv c0" for c0
  by unfold_locales (auto intro: cas_init_inv cas_step_inv)

definition solo_inv :: "size_t \<Rightarrow> size_t \<times> dec_pc \<Rightarrow> bool" where
  "solo_inv c0 s \<longleftrightarrow>
     (case s of
        (c, DecStart) \<Rightarrow> c = c0
      | (c, DecLoop current) \<Rightarrow> c = c0 \<and> current = c0
      | (c, DecReturned) \<Rightarrow> c = (if c0 > 0 then c0 - 1 else c0))"

lemma solo_step_inv: "solo_inv c0 s \<Longrightarrow> solo_step s e t \<Longrightarrow> solo_inv c0 t"
  by (auto simp: solo_step_def solo_inv_def elim!: dec_step.cases)

interpretation solo: inductive_invariant "solo_init c0" solo_step "solo_inv c0" for c0
  by unfold_locales (simp add: solo_init_def solo_inv_def, rule solo_step_inv)

lemma solo_reach_load: "reach (solo_init c0) solo_step (c0, DecLoop c0)"
  using reach_step [OF reach_init, of "solo_init c0" "(c0, DecStart)" solo_step "()"]
  by (simp add: solo_init_def solo_step_def dec_load)

section \<open>Properties\<close>

text \<open>
  C23: under every interleaving of threads calling \<open>IncrementConnections\<close> and
  \<open>DecrementConnections\<close> on one counter, as long as the total number of increments fits in
  64 bits, the counter is exactly the increments minus the decrements that took effect, so
  it never wraps below zero.
\<close>

theorem connection_counter_never_underflows:
  assumes "reach (cas_init c0) cas_step s" and "unat c0 + n_inc s < 2 ^ 64"
  shows "n_dec s \<le> unat c0 + n_inc s \<and> unat (counter s) = unat c0 + n_inc s - n_dec s"
  using cas.reachable_inv [OF assms(1)] assms(2) by (auto simp: cas_inv_def)

theorem connection_counter_never_underflows_witness:
  "let s = \<lparr>counter = 1, threads = \<lambda>_. DecReturned, n_inc = 1, n_dec = 0\<rparr>
   in reach (cas_init 0) cas_step s \<and> n_dec s \<le> unat (0 :: size_t) + n_inc s \<and>
      unat (counter s) = unat (0 :: size_t) + n_inc s - n_dec s"
proof -
  let ?i = "\<lparr>counter = 0, threads = \<lambda>_. DecReturned, n_inc = 0, n_dec = 0\<rparr>"
  let ?s = "\<lparr>counter = 1, threads = \<lambda>_. DecReturned, n_inc = 1, n_dec = 0\<rparr>"
  have "reach (cas_init 0) cas_step ?i" by (rule reach_init) (simp add: cas_init_def)
  moreover have "cas_step ?i Incr ?s" using cas_incr [of ?i] by simp
  ultimately have r: "reach (cas_init 0) cas_step ?s" by (rule reach_step)
  have "unat (0 :: size_t) + n_inc ?s < 2 ^ 64" by simp
  from r connection_counter_never_underflows [OF r this] show ?thesis by (simp only: Let_def simp_thms)
qed

text \<open>
  A run of the compare-and-swap loop that no other thread disturbs, however often the
  weak exchange fails spuriously, leaves the counter where the sequential
  \<open>DecrementConnections\<close> puts it.
\<close>

lemma decrement_loop_refines_sequential:
  assumes "reach (solo_init (m_activeConnections st)) solo_step (c, DecReturned)"
  shows "c = m_activeConnections (DecrementConnections st)"
  using solo.reachable_inv [OF assms] by (simp add: solo_inv_def DecrementConnections_def Let_def)

lemma decrement_loop_refines_sequential_witness:
  "(1 :: size_t) = m_activeConnections (DecrementConnections
      \<lparr>m_node = ServiceNode_default, m_activeConnections = 2, m_healthy = True,
       m_consecutiveFailures = 0\<rparr>)"
proof -
  let ?st = "\<lparr>m_node = ServiceNode_default, m_activeConnections = 2, m_healthy = True,
       m_consecutiveFailures = 0\<rparr>"
  have "dec_step (2, DecLoop 2) (2 - 1, DecReturned)" by (rule dec_cas_ok) simp_all
  then have "solo_step (2, DecLoop 2) () (1, DecReturned)" by (simp add: solo_step_def)
  then have "reach (solo_init (m_activeConnections ?st)) solo_step (1, DecReturned)"
    using reach_step [OF solo_reach_load [of 2]] by simp
  then show ?thesis by (rule decrement_loop_refines_sequential)
qed

end
