(* ===== verification/Service_Pool.thy ===== *)
theory Service_Pool
  imports Service_State
begin

text \<open>
  \<open>core/state/ServicePool\<close>: the fixed vector of backends that the proxy, the routing
  strategies and the health checker share by reference. A mutation through the reference that
  \<open>GetService\<close> returns is \<open>ServicePool_update\<close>. The locale \<open>service_store\<close> is the contract
  the clients rely on.
\<close>

section \<open>The class\<close>

record ServicePool =
  m_services :: "ServiceState list"

definition ServicePool_new :: "ServiceNode list \<Rightarrow> ServicePool" where
  "ServicePool_new nodes = \<lparr>m_services = map ServiceState_new nodes\<rparr>"

definition GetSize :: "ServicePool \<Rightarrow> nat" where
  "GetSize pool = length (m_services pool)"

definition GetService :: "ServicePool \<Rightarrow> nat \<Rightarrow> ServiceState throws" where
  "GetService pool index = vector_at (m_services pool) index"

text \<open>
  \<open>f\<close> applied to the object behind \<open>GetService(index)\<close>: throws where the lookup throws, and
  otherwise changes that element in place.
\<close>

definition ServicePool_update ::
    "ServicePool \<Rightarrow> nat \<Rightarrow> (ServiceState \<Rightarrow> ServiceState) \<Rightarrow> ServicePool throws" where
  "ServicePool_update pool index f =
     (case GetService pool index of
        Inl e \<Rightarrow> Inl e
      | Inr s \<Rightarrow> Inr (pool\<lparr>m_services := (m_services pool)[index := f s]\<rparr>))"

text \<open>The counting loop of \<open>GetHealthyCount\<close>.\<close>

fun healthy_count_loop :: "ServiceState list \<Rightarrow> nat \<Rightarrow> nat" where
  "healthy_count_loop [] count = count"
| "healthy_count_loop (service # rest) count =
     healthy_count_loop rest (if IsHealthy service then count + 1 else count)"

definition GetHealthyCount :: "ServicePool \<Rightarrow> nat" where
  "GetHealthyCount pool = healthy_count_loop (m_services pool) 0"

text \<open>Whether index \<open>i\<close> names a healthy service.\<close>

definition healthy_at :: "ServicePool \<Rightarrow> nat \<Rightarrow> bool" where
  "healthy_at pool i \<longleftrightarrow> i < GetSize pool \<and> IsHealthy (m_services pool ! i)"

section \<open>The contract of the pool\<close>

locale service_store =
  fixes size_of :: "'p \<Rightarrow> nat"
    and service :: "'p \<Rightarrow> nat \<Rightarrow> ServiceState throws"
    and update :: "'p \<Rightarrow> nat \<Rightarrow> (ServiceState \<Rightarrow> ServiceState) \<Rightarrow> 'p throws"
  assumes service_ok: "i < size_of p \<Longrightarrow> \<exists>s. service p i = Inr s"
    and service_out: "size_of p \<le> i \<Longrightarrow> service p i = Inl OutOfRange"
    and update_out: "size_of p \<le> i \<Longrightarrow> update p i f = Inl OutOfRange"
    and update_ok: "i < size_of p \<Longrightarrow> \<exists>p'. update p i f = Inr p'"
    and update_size: "update p i f = Inr p' \<Longrightarrow> size_of p' = size_of p"
    and update_same: "update p i f = Inr p' \<Longrightarrow> service p i = Inr s \<Longrightarrow> service p' i = Inr (f s)"
    and update_other: "update p i f = Inr p' \<Longrightarrow> j \<noteq> i \<Longrightarrow> service p' j = service p j"
begin

lemma update_throws_iff: "(\<exists>e. update p i f = Inl e) \<longleftrightarrow> size_of p \<le> i"
  using update_out [of p i f] update_ok [of i p f] by (cases "i < size_of p") auto

lemma service_throws_iff: "(\<exists>e. service p i = Inl e) \<longleftrightarrow> size_of p \<le> i"
  using service_out [of p i] service_ok [of i p] by (cases "i < size_of p") auto

text \<open>Two updates in a row at one index compose; the second cannot fail if the first did not.\<close>

lemma update_twice:
  assumes "update p i f = Inr p'"
  shows "\<exists>p''. update p' i g = Inr p'' \<and>
           (\<forall>s. service p i = Inr s \<longrightarrow> service p'' i = Inr (g (f s))) \<and>
           (\<forall>j. j \<noteq> i \<longrightarrow> service p'' j = service p j)"
proof -
  have "i < size_of p" using assms update_out [of p i f] by (cases "i < size_of p") auto
  then obtain p'' where p'': "update p' i g = Inr p''"
    using update_ok [of i p' g] update_size [OF assms] by auto
  with assms show ?thesis
    by (auto simp: update_other intro!: exI [of _ p''] intro: update_same)
qed

end

section \<open>Lemmas\<close>

lemma GetSize_new [simp]: "GetSize (ServicePool_new nodes) = length nodes"
  by (simp add: GetSize_def ServicePool_new_def)

lemma GetService_Inr [simp]: "i < GetSize pool \<Longrightarrow> GetService pool i = Inr (m_services pool ! i)"
  by (simp add: GetService_def GetSize_def)

lemma GetService_Inl [simp]: "GetSize pool \<le> i \<Longrightarrow> GetService pool i = Inl OutOfRange"
  by (simp add: GetService_def GetSize_def)

lemma ServicePool_update_Inr:
  "ServicePool_update pool i f = Inr pool' \<longleftrightarrow>
     i < GetSize pool \<and> pool' = pool\<lparr>m_services := (m_services pool)[i := f (m_services pool ! i)]\<rparr>"
  by (auto simp: ServicePool_update_def GetService_def GetSize_def vector_at_def)

lemma ServicePool_update_Inl [simp]:
  "GetSize pool \<le> i \<Longrightarrow> ServicePool_update pool i f = Inl OutOfRange"
  by (simp add: ServicePool_update_def)

lemma ServicePool_update_eq:
  "i < GetSize pool \<Longrightarrow>
   ServicePool_update pool i f = Inr (pool\<lparr>m_services := (m_services pool)[i := f (m_services pool ! i)]\<rparr>)"
  by (simp add: ServicePool_update_Inr)

interpretation pool: service_store GetSize GetService ServicePool_update
proof
  fix p p' :: ServicePool and i j :: nat and f :: "ServiceState \<Rightarrow> ServiceState" and s
  show "i < GetSize p \<Longrightarrow> \<exists>s. GetService p i = Inr s" by simp
  show "GetSize p \<le> i \<Longrightarrow> GetService p i = Inl OutOfRange" by simp
  show "GetSize p \<le> i \<Longrightarrow> ServicePool_update p i f = Inl OutOfRange" by simp
  show "i < GetSize p \<Longrightarrow> \<exists>p'. ServicePool_update p i f = Inr p'" by (simp add: ServicePool_update_eq)
  show "ServicePool_update p i f = Inr p' \<Longrightarrow> GetSize p' = GetSize p"
    by (auto simp: ServicePool_update_Inr GetSize_def)
  show "ServicePool_update p i f = Inr p' \<Longrightarrow> GetService p i = Inr s \<Longrightarrow> GetService p' i = Inr (f s)"
    by (auto simp: ServicePool_update_Inr GetSize_def GetService_def vector_at_def)
  show "ServicePool_update p i f = Inr p' \<Longrightarrow> j \<noteq> i \<Longrightarrow> GetService p' j = GetService p j"
    by (auto simp: ServicePool_update_Inr GetSize_def GetService_def vector_at_def)
qed

lemma healthy_count_loop_eq: "healthy_count_loop ss n = n + length (filter IsHealthy ss)"
  by (induction ss arbitrary: n) auto

lemma GetHealthyCount_eq: "GetHealthyCount pool = length (filter IsHealthy (m_services pool))"
  by (simp add: GetHealthyCount_def healthy_count_loop_eq)

lemma GetHealthyCount_card: "GetHealthyCount pool = card {i. healthy_at pool i}"
  by (simp add: GetHealthyCount_eq length_filter_conv_card healthy_at_def GetSize_def)

lemma GetHealthyCount_0_iff: "GetHealthyCount pool = 0 \<longleftrightarrow> (\<forall>i. \<not> healthy_at pool i)"
  by (auto simp: GetHealthyCount_eq filter_empty_conv healthy_at_def GetSize_def all_set_conv_all_nth)

lemma new_pool_healthy: "i < length nodes \<Longrightarrow> healthy_at (ServicePool_new nodes) i"
  by (simp add: healthy_at_def ServicePool_new_def GetSize_def ServiceState_new_def IsHealthy_def)

section \<open>Properties\<close>

text \<open>
  \<open>GetHealthyCount\<close> is the number of indices at which \<open>GetService\<close> returns a healthy
  service, and a fresh pool counts every configured service as healthy and idle.
\<close>

lemma healthy_count_correct:
  "GetHealthyCount pool = card {i. \<exists>s. GetService pool i = Inr s \<and> IsHealthy s} \<and>
   GetHealthyCount (ServicePool_new nodes) = length nodes"
proof -
  have "{i. \<exists>s. GetService pool i = Inr s \<and> IsHealthy s} = {i. healthy_at pool i}"
    by (auto simp: healthy_at_def GetService_def GetSize_def vector_at_eq_Inr_iff)
  moreover have "GetHealthyCount (ServicePool_new nodes) = length nodes"
    by (simp add: GetHealthyCount_eq ServicePool_new_def filter_map comp_def IsHealthy_def ServiceState_new_def)
  ultimately show ?thesis by (simp add: GetHealthyCount_card)
qed

end
