(* ===== verification/Routing.thy ===== *)
theory Routing
  imports Service_Pool
begin

text \<open>
  \<open>core/routing/IRoutingStrategy.hpp\<close> and \<open>RoutingError.hpp\<close>: the interface of the routing
  strategies. A strategy object has a state of its own (the generator of P2C, the ring of the
  consistent hash); \<open>SelectService\<close> may fail to return (\<open>None\<close>), may throw (\<open>Inl\<close>), or
  returns the \<open>std::expected\<close> value with the object's next state.
\<close>

datatype RoutingError = NoHealthyServices | PoolEmpty

type_synonym 'st selection = "((RoutingError + nat) throws \<times> 'st) option"

text \<open>
  The contract of the virtual call, for objects in a state that fits the pool (\<open>ready\<close>): the
  call returns, a returned index is in range and names a healthy service, and each error has
  exactly its documented cause.
\<close>

locale routing_strategy =
  fixes select :: "'st \<Rightarrow> ServicePool \<Rightarrow> string \<Rightarrow> 'st selection"
    and ready :: "'st \<Rightarrow> ServicePool \<Rightarrow> bool"
  assumes select_returns: "ready st p \<Longrightarrow> \<exists>r st'. select st p key = Some (Inr r, st')"
    and select_ready: "ready st p \<Longrightarrow> select st p key = Some (Inr r, st') \<Longrightarrow> ready st' p"
    and select_healthy: "ready st p \<Longrightarrow> select st p key = Some (Inr (Inr i), st') \<Longrightarrow> healthy_at p i"
    and select_empty: "ready st p \<Longrightarrow> select st p key = Some (Inr (Inl PoolEmpty), st') \<Longrightarrow> GetSize p = 0"
    and select_none: "ready st p \<Longrightarrow> select st p key = Some (Inr (Inl NoHealthyServices), st') \<Longrightarrow>
          0 < GetSize p \<and> GetHealthyCount p = 0"
    and ready_resize: "ready st p \<Longrightarrow> GetSize p' = GetSize p \<Longrightarrow> ready st p'"
begin

text \<open>A ready strategy finds a service exactly when one is healthy.\<close>

lemma select_service_iff:
  assumes "ready st p" and sel: "select st p key = Some (Inr r, st')"
  shows "(\<exists>i. r = Inr i) \<longleftrightarrow> 0 < GetHealthyCount p"
proof
  assume "\<exists>i. r = Inr i"
  with select_healthy assms have "\<exists>i. healthy_at p i" by blast
  then show "0 < GetHealthyCount p" using GetHealthyCount_0_iff [of p] by auto
next
  assume pos: "0 < GetHealthyCount p"
  then obtain i where "healthy_at p i" using GetHealthyCount_0_iff [of p] by auto
  then have "GetSize p \<noteq> 0" by (auto simp: healthy_at_def)
  show "\<exists>i. r = Inr i"
  proof (cases r)
    case (Inl e)
    have "e = PoolEmpty \<Longrightarrow> GetSize p = 0" and "e = NoHealthyServices \<Longrightarrow> GetHealthyCount p = 0"
      using select_empty [OF assms(1)] select_none [OF assms(1)] sel Inl by auto
    with pos \<open>GetSize p \<noteq> 0\<close> show ?thesis by (cases e) auto
  qed simp
qed

text \<open>Routing after the pool's counters and flags have changed.\<close>

lemma ready_update:
  "ready st p \<Longrightarrow> ServicePool_update p i f = Inr p' \<Longrightarrow> ready st p'"
  using ready_resize pool.update_size by blast

end

end
