(* ===== verification/Fnv_Hash.thy ===== *)
theory Fnv_Hash
  imports Prelude
begin

unbundle bit_operations_syntax

text \<open>
  \<open>core/routing/FnvHash.hpp\<close>: the 64-bit FNV-1a hash that places vnodes and routing keys
  on the ring. Each step is a bijection of the running hash and injective in the byte, so
  strings that differ in a single byte never collide.
\<close>

definition FNV_OFFSET_BASIS :: uint64 where
  "FNV_OFFSET_BASIS = 14695981039346656037"

definition FNV_PRIME :: uint64 where
  "FNV_PRIME = 1099511628211"

text \<open>The loop body; the conversion to \<open>unsigned char\<close> makes the byte non-negative.\<close>

definition fnv_step :: "uint64 \<Rightarrow> char \<Rightarrow> uint64" where
  "fnv_step hash c = (hash XOR of_char c) * FNV_PRIME"

definition Hash64 :: "string \<Rightarrow> uint64" where
  "Hash64 data = foldl fnv_step FNV_OFFSET_BASIS data"

section \<open>Lemmas\<close>

text \<open>\<open>FNV_PRIME\<close> is odd, so multiplying by it is invertible modulo \<open>2 ^ 64\<close>.\<close>

lemma FNV_PRIME_inverse: "FNV_PRIME * 14886173955864302971 = 1"
  by (simp add: FNV_PRIME_def)

lemma word_mult_right_inj:
  fixes p q :: "'a::len word"
  assumes "p * q = 1"
  shows "x * p = y * p \<longleftrightarrow> x = y"
  using assms by (metis mult.assoc mult.right_neutral)

lemma word_xor_left_inj [simp]: "(h XOR x = h XOR y) \<longleftrightarrow> x = (y :: 'a::len word)"
  by (metis xor.assoc xor_self_eq xor.left_neutral)

lemma word_xor_right_inj [simp]: "(x XOR h = y XOR h) \<longleftrightarrow> x = (y :: 'a::len word)"
  by (metis xor.commute word_xor_left_inj)

lemma unat_of_char: "unat (of_char c :: uint64) = of_char c"
proof -
  have "(of_char c :: nat) < 256" by simp
  then have "(of_char c :: nat) < 2 ^ 64" by (rule order_less_le_trans) simp
  then have "(of_char c :: nat) mod 2 ^ 64 = of_char c" by (rule mod_less)
  then have "unat (of_nat (of_char c) :: uint64) = of_char c"
    by (simp add: unat_of_nat)
  then show ?thesis by (simp only: of_nat_of_char)
qed

lemma of_char_uint64_inj [simp]: "(of_char c :: uint64) = of_char d \<longleftrightarrow> c = d"
  by (metis unat_of_char of_char_eq_iff)

lemma fnv_step_inj_hash [simp]: "fnv_step g c = fnv_step h c \<longleftrightarrow> g = h"
  by (simp add: fnv_step_def word_mult_right_inj [OF FNV_PRIME_inverse])

lemma fnv_step_inj_byte [simp]: "fnv_step h c = fnv_step h d \<longleftrightarrow> c = d"
  by (simp add: fnv_step_def word_mult_right_inj [OF FNV_PRIME_inverse])

lemma foldl_fnv_step_inj: "foldl fnv_step g s = foldl fnv_step h s \<longleftrightarrow> g = h"
  by (induction s arbitrary: g h) simp_all

lemma Hash64_append: "Hash64 (s @ t) = foldl fnv_step (Hash64 s) t"
  by (simp add: Hash64_def)

lemma Hash64_same_suffix: "Hash64 (s @ t) = Hash64 (s' @ t) \<longleftrightarrow> Hash64 s = Hash64 s'"
  by (simp add: Hash64_append foldl_fnv_step_inj)

text \<open>
  The low four bits, where ASCII digits differ: the rest of a word is unchanged by an xor with
  a four-bit value.
\<close>

lemma xor_low_nibble:
  fixes g w :: uint64
  assumes w: "take_bit 4 w = w"
  shows "g XOR w = (g AND NOT (mask 4)) + take_bit 4 (g XOR w)"
proof -
  have low: "bit w n \<Longrightarrow> n < 4" for n
    using w bit_take_bit_iff [of 4 w n] by auto
  let ?a = "g AND NOT (mask 4)" and ?b = "take_bit 4 (g XOR w)"
  have "?a AND ?b = 0"
    by (rule bit_word_eqI) (auto simp only: bit_and_iff bit_not_iff bit_mask_iff bit_take_bit_iff bit_0_eq bot_bool_def bot_fun_def)
  moreover have "?a OR ?b = g XOR w"
  proof (rule bit_word_eqI)
    fix n
    assume "n < LENGTH(64)"
    then show "bit (?a OR ?b) n = bit (g XOR w) n"
      unfolding bit_or_iff bit_and_iff bit_not_iff bit_mask_iff bit_take_bit_iff bit_xor_iff
      using low [of n] by (auto simp: possible_bit_word)
  qed
  ultimately show ?thesis using word_plus_and_or [of ?a ?b] by (metis add.left_neutral)
qed

lemma unat_take_bit_4: "unat (take_bit 4 (x :: uint64)) < 16"
  using take_bit_nat_less_exp [of 4 "unat x"] by (simp add: unsigned_take_bit_eq)

lemma is_digit_xor:
  assumes "is_digit c"
  shows "\<exists>w :: uint64. take_bit 4 w = w \<and> of_char c = 48 XOR w"
proof (intro exI conjI)
  let ?w = "of_char c XOR (48 :: uint64)"
  show "of_char c = 48 XOR ?w" by (metis xor.assoc xor.commute xor_self_eq xor.left_neutral)
  have "of_char c \<in> {48 :: nat, 49, 50, 51, 52, 53, 54, 55, 56, 57}"
    using assms unfolding is_digit_def by auto presburger
  then have "of_nat (of_char c :: nat) \<in> {48 :: uint64, 49, 50, 51, 52, 53, 54, 55, 56, 57}"
    by (auto simp del: of_nat_of_char)
  then have "of_char c \<in> {48 :: uint64, 49, 50, 51, 52, 53, 54, 55, 56, 57}"
    by (simp only: of_nat_of_char)
  then show "take_bit 4 ?w = ?w" by (elim insertE) simp_all
qed

lemma word_diff_small:
  fixes x y :: uint64
  assumes "unat x < 16" and "unat y < 16"
  shows "\<exists>k<16. x = y + of_nat k \<or> y = x + of_nat k"
proof (cases "y \<le> x")
  case True
  then have "x = y + of_nat (unat (x - y))" by simp
  moreover have "unat (x - y) < 16" using True assms by (simp add: unat_sub)
  ultimately show ?thesis by blast
next
  case False
  then have le: "x \<le> y" by simp
  then have "y = x + of_nat (unat (y - x))" by simp
  moreover have "unat (y - x) < 16" using le assms by (simp add: unat_sub)
  ultimately show ?thesis by blast
qed

section \<open>Properties\<close>

text \<open>
  Two strings that differ in exactly one byte, at the same position, never have the same
  hash; in particular vnode labels that differ in one digit cannot collide.
\<close>

lemma Hash64_single_byte: "Hash64 (u @ c # v) = Hash64 (u @ d # v) \<longleftrightarrow> c = d"
proof -
  have "Hash64 (u @ x # v) = foldl fnv_step (fnv_step (Hash64 u) x) v" for x
    by (simp add: Hash64_append)
  then show ?thesis by (simp add: foldl_fnv_step_inj)
qed

text \<open>
  The published FNV-1a test vectors: the hashes of the empty string, of \<open>a\<close> and of
  \<open>foobar\<close>.
\<close>

lemma Hash64_test_vectors:
  "Hash64 [] = 0xcbf29ce484222325 \<and> Hash64 ''a'' = 0xaf63dc4c8601ec8c \<and>
   Hash64 ''foobar'' = 0x85944171f73967e8"
  by (simp add: Hash64_def fnv_step_def FNV_OFFSET_BASIS_def FNV_PRIME_def of_char_def)

text \<open>
  Two strings that differ only in a final decimal digit hash to points at most fifteen
  multiples of \<open>FNV_PRIME\<close> (less than a millionth of the circle) apart, so the vnodes
  \<open>name#10\<close> to \<open>name#19\<close> of a service, or the clients 10.0.0.1 to 10.0.0.9, sit side by side
  on the ring.
\<close>

lemma Hash64_last_digit_close:
  assumes "is_digit c" and "is_digit d"
  shows "\<exists>k<16. Hash64 (s @ [c]) = Hash64 (s @ [d]) + of_nat k * FNV_PRIME \<or>
    Hash64 (s @ [d]) = Hash64 (s @ [c]) + of_nat k * FNV_PRIME"
proof -
  let ?g = "Hash64 s XOR 48"
  obtain v w :: uint64 where v: "take_bit 4 v = v" "of_char c = 48 XOR v" and w: "take_bit 4 w = w" "of_char d = 48 XOR w"
    using is_digit_xor assms by metis
  let ?a = "?g AND NOT (mask 4)" and ?x = "take_bit 4 (?g XOR v)" and ?y = "take_bit 4 (?g XOR w)"
  have step: "Hash64 (s @ [e]) = (?a + take_bit 4 (?g XOR u)) * FNV_PRIME"
    if "take_bit 4 u = u" and "of_char e = 48 XOR u" for e and u :: uint64
  proof -
    have "Hash64 (s @ [e]) = (?g XOR u) * FNV_PRIME"
      using that(2) by (simp add: Hash64_append fnv_step_def xor.assoc)
    then show ?thesis by (subst (asm) xor_low_nibble [OF that(1)])
  qed
  note c = step [OF v] and d = step [OF w]
  obtain k where "k < 16" "?x = ?y + of_nat k \<or> ?y = ?x + of_nat k"
    using word_diff_small [OF unat_take_bit_4 unat_take_bit_4] by blast
  then show ?thesis unfolding c d by (intro exI [of _ k]) (auto simp: algebra_simps)
qed

lemma Hash64_last_digit_close_witness:
  "\<exists>k<16. Hash64 (''10.0.0.'' @ ''1'') = Hash64 (''10.0.0.'' @ ''9'') + of_nat k * FNV_PRIME \<or>
    Hash64 (''10.0.0.'' @ ''9'') = Hash64 (''10.0.0.'' @ ''1'') + of_nat k * FNV_PRIME"
  by (rule Hash64_last_digit_close) (simp_all add: is_digit_def)

end
