(* ===== verification/Xoshiro.thy ===== *)
theory Xoshiro
  imports Fnv_Hash
begin

unbundle bit_operations_syntax

text \<open>
  \<open>core/routing/Xoshiro256\<close>: the xoshiro256** generator behind power-of-two-choices routing
  and its SplitMix64 seeding. The all-zero state is the generator's one fixed point; the
  lemmas show that no seed produces it, that no call reaches it and that the state transition
  loses no information.
\<close>

section \<open>The generator\<close>

record Xoshiro256 =
  state0 :: uint64
  state1 :: uint64
  state2 :: uint64
  state3 :: uint64

definition RotateLeft :: "uint64 \<Rightarrow> nat \<Rightarrow> uint64" where
  "RotateLeft x k = push_bit k x OR drop_bit (64 - k) x"

definition splitmix_gamma :: uint64 where
  "splitmix_gamma = 0x9e3779b97f4a7c15"

text \<open>The mixing of the advanced state: the three lines that compute \<open>z\<close>.\<close>

definition splitmix_mix :: "uint64 \<Rightarrow> uint64" where
  "splitmix_mix z0 =
     (let z1 = (z0 XOR drop_bit 30 z0) * 0xbf58476d1ce4e5b9;
          z2 = (z1 XOR drop_bit 27 z1) * 0x94d049bb133111eb
      in z2 XOR drop_bit 31 z2)"

text \<open>\<open>SplitMix64(uint64_t &state)\<close>: the result and the updated state.\<close>

definition SplitMix64 :: "uint64 \<Rightarrow> uint64 \<times> uint64" where
  "SplitMix64 st = (let st' = st + splitmix_gamma in (splitmix_mix st', st'))"

definition Xoshiro256_seed :: "uint64 \<Rightarrow> Xoshiro256" where
  "Xoshiro256_seed seed =
     (let (r0, seed) = SplitMix64 seed;
          (r1, seed) = SplitMix64 seed;
          (r2, seed) = SplitMix64 seed;
          (r3, seed) = SplitMix64 seed
      in \<lparr>state0 = r0, state1 = r1, state2 = r2, state3 = r3\<rparr>)"

definition Xoshiro256_min :: uint64 where
  "Xoshiro256_min = 0"

definition Xoshiro256_max :: uint64 where
  "Xoshiro256_max = - 1"

text \<open>\<open>operator()\<close>, the updates in the order the code makes them.\<close>

definition Xoshiro256_call :: "Xoshiro256 \<Rightarrow> uint64 \<times> Xoshiro256" where
  "Xoshiro256_call g =
     (let result = RotateLeft (state1 g * 5) 7 * 9;
          t = push_bit 17 (state1 g);
          g = g\<lparr>state2 := state2 g XOR state0 g\<rparr>;
          g = g\<lparr>state3 := state3 g XOR state1 g\<rparr>;
          g = g\<lparr>state1 := state1 g XOR state2 g\<rparr>;
          g = g\<lparr>state0 := state0 g XOR state3 g\<rparr>;
          g = g\<lparr>state2 := state2 g XOR t\<rparr>;
          g = g\<lparr>state3 := RotateLeft (state3 g) 45\<rparr>
      in (result, g))"

definition Xoshiro256_zero :: "Xoshiro256 \<Rightarrow> bool" where
  "Xoshiro256_zero g \<longleftrightarrow> state0 g = 0 \<and> state1 g = 0 \<and> state2 g = 0 \<and> state3 g = 0"

section \<open>Shift-xor and rotation are injective\<close>

lemma xor_push_bit_inj:
  fixes x y :: "'a::len word"
  assumes "0 < k" and eq: "x XOR push_bit k x = y XOR push_bit k y"
  shows "x = y"
proof (rule bit_word_eqI)
  fix n
  assume "n < LENGTH('a)"
  then show "bit x n = bit y n"
  proof (induction n rule: less_induct)
    case (less n)
    have "bit (x XOR push_bit k x) n = bit (y XOR push_bit k y) n" using eq by simp
    moreover have "bit (push_bit k x) n = bit (push_bit k y) n"
      using less assms(1) by (auto simp: bit_push_bit_iff)
    ultimately show ?case by (auto simp: bit_xor_iff)
  qed
qed

lemma xor_drop_bit_inj:
  fixes x y :: "'a::len word"
  assumes "0 < k" and eq: "x XOR drop_bit k x = y XOR drop_bit k y"
  shows "x = y"
proof (rule bit_word_eqI)
  fix n
  assume "n < LENGTH('a)"
  then show "bit x n = bit y n"
  proof (induction "LENGTH('a) - n" arbitrary: n rule: less_induct)
    case less
    have "bit (x XOR drop_bit k x) n = bit (y XOR drop_bit k y) n" using eq by simp
    moreover have "bit (drop_bit k x) n = bit (drop_bit k y) n"
    proof (cases "n + k < LENGTH('a)")
      case True
      then have "bit x (n + k) = bit y (n + k)" using assms(1) by (intro less.hyps) auto
      then show ?thesis by (simp add: bit_drop_bit_eq add.commute)
    next
      case False
      then show ?thesis using bit_imp_le_length [of x "n + k"] bit_imp_le_length [of y "n + k"]
        by (auto simp: bit_drop_bit_eq add.commute)
    qed
    ultimately show ?case by (auto simp: bit_xor_iff)
  qed
qed

lemma xor_common_cancel:
  fixes a b :: "'a::len word"
  assumes e1: "x XOR a = y XOR b" and e2: "a XOR p = b XOR q"
  shows "x XOR p = y XOR q"
proof (rule bit_word_eqI)
  fix n
  have "bit (x XOR a) n = bit (y XOR b) n" and "bit (a XOR p) n = bit (b XOR q) n"
    using e1 e2 by simp_all
  then show "bit (x XOR p) n = bit (y XOR q) n" by (auto simp: bit_xor_iff)
qed

lemma bit_RotateLeft:
  assumes "0 < k" and "k < 64"
  shows "bit (RotateLeft x k) n \<longleftrightarrow> n < 64 \<and> bit x (if k \<le> n then n - k else n + (64 - k))"
proof (cases "n < 64")
  case True
  then show ?thesis using assms bit_imp_le_length [of x "64 - k + n"]
    by (auto simp: RotateLeft_def bit_or_iff bit_push_bit_iff bit_drop_bit_eq add.commute)
next
  case False
  then show ?thesis using bit_imp_le_length [of "RotateLeft x k" n] by auto
qed

lemma RotateLeft_back:
  assumes "0 < k" and "k < 64"
  shows "RotateLeft (RotateLeft x k) (64 - k) = x"
proof (rule bit_word_eqI)
  fix n
  assume "n < LENGTH(64)"
  then show "bit (RotateLeft (RotateLeft x k) (64 - k)) n = bit x n"
    using assms by (auto simp: bit_RotateLeft)
qed

lemma RotateLeft_inj: "0 < k \<Longrightarrow> k < 64 \<Longrightarrow> RotateLeft x k = RotateLeft y k \<longleftrightarrow> x = y"
  by (metis RotateLeft_back)

lemma RotateLeft_0 [simp]: "RotateLeft 0 k = 0"
  by (simp add: RotateLeft_def)

section \<open>Seeding\<close>

lemma splitmix_mult_1_inj:
  "x * (0xbf58476d1ce4e5b9 :: uint64) = y * 0xbf58476d1ce4e5b9 \<longleftrightarrow> x = y"
  by (rule word_mult_right_inj [where q = 10871156337175269513]) simp

lemma splitmix_mult_2_inj:
  "x * (0x94d049bb133111eb :: uint64) = y * 0x94d049bb133111eb \<longleftrightarrow> x = y"
  by (rule word_mult_right_inj [where q = 3573116690164977347]) simp

lemma splitmix_mix_inj: "splitmix_mix x = splitmix_mix y \<longleftrightarrow> x = y"
proof
  let ?m1 = "0xbf58476d1ce4e5b9 :: uint64" and ?m2 = "0x94d049bb133111eb :: uint64"
  let ?x1 = "(x XOR drop_bit 30 x) * ?m1" and ?y1 = "(y XOR drop_bit 30 y) * ?m1"
  let ?x2 = "(?x1 XOR drop_bit 27 ?x1) * ?m2" and ?y2 = "(?y1 XOR drop_bit 27 ?y1) * ?m2"
  assume "splitmix_mix x = splitmix_mix y"
  then have "?x2 XOR drop_bit 31 ?x2 = ?y2 XOR drop_bit 31 ?y2"
    unfolding splitmix_mix_def Let_def .
  then have "?x2 = ?y2" by (rule xor_drop_bit_inj [rotated]) simp
  then have "?x1 XOR drop_bit 27 ?x1 = ?y1 XOR drop_bit 27 ?y1"
    unfolding splitmix_mult_2_inj .
  then have "?x1 = ?y1" by (rule xor_drop_bit_inj [rotated]) simp
  then have "x XOR drop_bit 30 x = y XOR drop_bit 30 y"
    unfolding splitmix_mult_1_inj .
  then show "x = y" by (rule xor_drop_bit_inj [rotated]) simp
qed simp

lemma SplitMix64_outputs:
  "Xoshiro256_seed seed =
     \<lparr>state0 = splitmix_mix (seed + splitmix_gamma),
      state1 = splitmix_mix (seed + splitmix_gamma + splitmix_gamma),
      state2 = splitmix_mix (seed + splitmix_gamma + splitmix_gamma + splitmix_gamma),
      state3 = splitmix_mix (seed + splitmix_gamma + splitmix_gamma + splitmix_gamma + splitmix_gamma)\<rparr>"
  by (simp add: Xoshiro256_seed_def SplitMix64_def Let_def)

lemma seed_words_distinct: "state0 (Xoshiro256_seed seed) \<noteq> state1 (Xoshiro256_seed seed)"
  by (simp add: SplitMix64_outputs splitmix_mix_inj splitmix_gamma_def)

section \<open>The transition\<close>

lemma Xoshiro256_call_state:
  "snd (Xoshiro256_call g) =
     g\<lparr>state0 := state0 g XOR (state3 g XOR state1 g),
       state1 := state1 g XOR (state2 g XOR state0 g),
       state2 := (state2 g XOR state0 g) XOR push_bit 17 (state1 g),
       state3 := RotateLeft (state3 g XOR state1 g) 45\<rparr>"
  by (simp add: Xoshiro256_call_def Let_def)

lemma Xoshiro256_call_inj:
  assumes eq: "snd (Xoshiro256_call g) = snd (Xoshiro256_call h)"
  shows "g = (h :: Xoshiro256)"
proof -
  note eqs = arg_cong [where f = state0, OF eq] arg_cong [where f = state1, OF eq]
    arg_cong [where f = state2, OF eq] arg_cong [where f = state3, OF eq]
  have e31: "state3 g XOR state1 g = state3 h XOR state1 h"
    using eqs(4) by (simp add: Xoshiro256_call_state RotateLeft_inj)
  then have e0: "state0 g = state0 h" using eqs(1) by (simp add: Xoshiro256_call_state)
  let ?a = "\<lambda>g :: Xoshiro256. state2 g XOR state0 g"
  have e1: "state1 g XOR ?a g = state1 h XOR ?a h" using eqs(2) by (simp add: Xoshiro256_call_state)
  moreover have e2: "?a g XOR push_bit 17 (state1 g) = ?a h XOR push_bit 17 (state1 h)"
    using eqs(3) by (simp add: Xoshiro256_call_state)
  ultimately have "state1 g XOR push_bit 17 (state1 g) = state1 h XOR push_bit 17 (state1 h)"
    by (rule xor_common_cancel)
  then have s1: "state1 g = state1 h" by (rule xor_push_bit_inj [rotated]) simp
  with e1 e0 have s2: "state2 g = state2 h" by simp
  from s1 e31 have "state3 g = state3 h" by simp
  with e0 s1 s2 show ?thesis by (cases g, cases h) simp
qed

lemma Xoshiro256_call_zero: "Xoshiro256_zero g \<Longrightarrow> snd (Xoshiro256_call g) = g"
  by (cases g) (simp add: Xoshiro256_zero_def Xoshiro256_call_state)

text \<open>The states a generator passes through: the seeded state and its successors.\<close>

fun Xoshiro256_iterate :: "nat \<Rightarrow> Xoshiro256 \<Rightarrow> Xoshiro256" where
  "Xoshiro256_iterate 0 g = g"
| "Xoshiro256_iterate (Suc n) g = Xoshiro256_iterate n (snd (Xoshiro256_call g))"

lemma Xoshiro256_call_nonzero:
  assumes "\<not> Xoshiro256_zero g"
  shows "\<not> Xoshiro256_zero (snd (Xoshiro256_call g))"
proof
  let ?z = "\<lparr>state0 = 0, state1 = 0, state2 = 0, state3 = 0\<rparr> :: Xoshiro256"
  assume "Xoshiro256_zero (snd (Xoshiro256_call g))"
  then have "snd (Xoshiro256_call g) = ?z"
    by (cases "snd (Xoshiro256_call g)") (simp add: Xoshiro256_zero_def)
  also have "\<dots> = snd (Xoshiro256_call ?z)"
    by (rule Xoshiro256_call_zero [symmetric]) (simp add: Xoshiro256_zero_def)
  finally have "g = ?z" by (rule Xoshiro256_call_inj)
  with assms show False by (simp add: Xoshiro256_zero_def)
qed

lemma Xoshiro256_iterate_nonzero:
  "\<not> Xoshiro256_zero g \<Longrightarrow> \<not> Xoshiro256_zero (Xoshiro256_iterate n g)"
  by (induction n arbitrary: g) (simp_all add: Xoshiro256_call_nonzero)

lemma Xoshiro256_seed_nonzero: "\<not> Xoshiro256_zero (Xoshiro256_seed seed)"
  using seed_words_distinct [of seed] by (auto simp: Xoshiro256_zero_def)

section \<open>Properties\<close>

text \<open>
  No seed and no number of calls puts the generator into the all-zero state, where it
  would return 0 for ever.
\<close>

lemma Xoshiro256_never_zero: "\<not> Xoshiro256_zero (Xoshiro256_iterate n (Xoshiro256_seed seed))"
  by (intro Xoshiro256_iterate_nonzero Xoshiro256_seed_nonzero)

text \<open>The state transition of \<open>operator()\<close> is injective, so no two states merge.\<close>

lemma Xoshiro256_transition_injective:
  "snd (Xoshiro256_call g) = snd (Xoshiro256_call h) \<longleftrightarrow> g = (h :: Xoshiro256)"
  using Xoshiro256_call_inj by blast

end
