(* ===== verification/P2C_Strategy.thy ===== *)
theory P2C_Strategy
  imports Routing Xoshiro
begin

text \<open>
  \<open>core/routing/P2CStrategy\<close>: power-of-two-choices routing. Which numbers
  \<open>std::uniform_int_distribution\<close> draws from the generator is left to the standard library's
  implementation, so the distribution is a parameter; \<open>dist_ok\<close> states what the standard
  promises of it and what the rejection loop needs.
\<close>

section \<open>The strategy\<close>

text \<open>\<open>dist lo hi g\<close>: one call of \<open>uniform_int_distribution<size_t>(lo, hi)\<close> on generator \<open>g\<close>.\<close>

type_synonym distribution = "nat \<Rightarrow> nat \<Rightarrow> Xoshiro256 \<Rightarrow> nat \<times> Xoshiro256"

record P2CStrategy =
  m_rng :: Xoshiro256

definition P2CStrategy_seed :: "uint64 \<Rightarrow> P2CStrategy" where
  "P2CStrategy_seed seed = \<lparr>m_rng = Xoshiro256_seed seed\<rparr>"

text \<open>The default constructor seeds from one \<open>std::random_device\<close> value, an \<open>unsigned int\<close>.\<close>

definition P2CStrategy_new :: "uint32 \<Rightarrow> P2CStrategy" where
  "P2CStrategy_new random_device = P2CStrategy_seed (ucast random_device)"

text \<open>Copying draws a fresh seed instead of duplicating the generator; moving takes it over.\<close>

definition P2CStrategy_copy :: "P2CStrategy \<Rightarrow> uint32 \<Rightarrow> P2CStrategy" where
  "P2CStrategy_copy other random_device = P2CStrategy_new random_device"

definition P2CStrategy_move :: "P2CStrategy \<Rightarrow> P2CStrategy" where
  "P2CStrategy_move other = \<lparr>m_rng = m_rng other\<rparr>"

definition P2CStrategy_assign :: "P2CStrategy \<Rightarrow> uint32 \<Rightarrow> P2CStrategy \<Rightarrow> P2CStrategy" where
  "P2CStrategy_assign other random_device this =
     this\<lparr>m_rng := Xoshiro256_seed (ucast random_device)\<rparr>"

definition P2CStrategy_move_assign :: "P2CStrategy \<Rightarrow> P2CStrategy \<Rightarrow> P2CStrategy" where
  "P2CStrategy_move_assign other this = this\<lparr>m_rng := m_rng other\<rparr>"

text \<open>The loop that collects the indices of the healthy services.\<close>

function p2c_collect :: "ServicePool \<Rightarrow> nat \<Rightarrow> nat list \<Rightarrow> nat list throws" where
  "p2c_collect pool i healthy =
     (if i < GetSize pool
      then (case GetService pool i of
              Inl e \<Rightarrow> Inl e
            | Inr s \<Rightarrow> p2c_collect pool (i + 1) (if IsHealthy s then healthy @ [i] else healthy))
      else Inr healthy)"
  by pat_completeness auto
termination by (relation "measure (\<lambda>(pool, i, healthy). GetSize pool - i)") auto

declare p2c_collect.simps [simp del]

text \<open>
  \<open>while (b == a) b = dist(m_rng)\<close>: \<open>None\<close> when the loop never draws anything but \<open>a\<close>.
\<close>

partial_function (option) p2c_redraw ::
    "distribution \<Rightarrow> nat \<Rightarrow> nat \<Rightarrow> nat \<Rightarrow> Xoshiro256 \<Rightarrow> (nat \<times> Xoshiro256) option" where
  "p2c_redraw dist hi a b g =
     (if b = a then p2c_redraw dist hi a (fst (dist 0 hi g)) (snd (dist 0 hi g))
      else Some (b, g))"

text \<open>The comparison of the two candidates, with the bounds checks of \<open>at\<close>.\<close>

definition p2c_pick :: "ServicePool \<Rightarrow> nat list \<Rightarrow> nat \<Rightarrow> nat \<Rightarrow> (RoutingError + nat) throws" where
  "p2c_pick pool healthy a b =
     and_then (vector_at healthy a) (\<lambda>ia.
     and_then (GetService pool ia) (\<lambda>sa.
     and_then (vector_at healthy b) (\<lambda>ib.
     and_then (GetService pool ib) (\<lambda>sb.
       Inr (Inr (if GetActiveConnections sa \<le> GetActiveConnections sb then ia else ib))))))"

definition P2C_SelectService ::
    "distribution \<Rightarrow> P2CStrategy \<Rightarrow> ServicePool \<Rightarrow> string \<Rightarrow> P2CStrategy selection" where
  "P2C_SelectService dist st pool routingKey =
     (if GetSize pool = 0 then Some (Inr (Inl PoolEmpty), st)
      else
        (case p2c_collect pool 0 [] of
           Inl e \<Rightarrow> Some (Inl e, st)
         | Inr healthy \<Rightarrow>
             if healthy = [] then Some (Inr (Inl NoHealthyServices), st)
             else if length healthy = 1
             then Some (and_then (vector_at healthy 0) (\<lambda>i. Inr (Inr i)), st)
             else
               (let hi = length healthy - 1;
                    (a, g) = dist 0 hi (m_rng st);
                    (b, g) = dist 0 hi g
                in case p2c_redraw dist hi a b g of
                     None \<Rightarrow> None
                   | Some (b, g) \<Rightarrow> Some (p2c_pick pool healthy a b, st\<lparr>m_rng := g\<rparr>))))"

section \<open>What the distribution promises\<close>

fun nth_draw :: "distribution \<Rightarrow> nat \<Rightarrow> nat \<Rightarrow> nat \<Rightarrow> Xoshiro256 \<Rightarrow> nat" where
  "nth_draw dist lo hi 0 g = fst (dist lo hi g)"
| "nth_draw dist lo hi (Suc n) g = nth_draw dist lo hi n (snd (dist lo hi g))"

text \<open>
  On any generator state but the all-zero one, which no seeded generator reaches: every draw is in
  the requested range and does nothing to the generator but call it, and a distribution over more
  than one value does not draw one value for ever.
\<close>

definition dist_ok :: "distribution \<Rightarrow> bool" where
  "dist_ok dist \<longleftrightarrow>
     (\<forall>lo hi g. \<not> Xoshiro256_zero g \<longrightarrow> lo \<le> hi \<longrightarrow>
        lo \<le> fst (dist lo hi g) \<and> fst (dist lo hi g) \<le> hi \<and>
        (\<exists>k. snd (dist lo hi g) = Xoshiro256_iterate k g)) \<and>
     (\<forall>lo hi g a. \<not> Xoshiro256_zero g \<longrightarrow> lo < hi \<longrightarrow> (\<exists>n. nth_draw dist lo hi n g \<noteq> a))"

text \<open>
  A distribution that satisfies it, for concrete instances: it calls the generator once and
  tells whether the state went up or down.
\<close>

definition state_number :: "Xoshiro256 \<Rightarrow> nat" where
  "state_number g = unat (state0 g) + 2 ^ 64 * (unat (state1 g) + 2 ^ 64 * (unat (state2 g) + 2 ^ 64 * unat (state3 g)))"

definition updown_dist :: distribution where
  "updown_dist lo hi g =
     (let g' = snd (Xoshiro256_call g) in (if state_number g < state_number g' then lo else hi, g'))"

section \<open>Lemmas\<close>

lemma state_number_step:
  fixes a b c d :: nat
  assumes "a < n" and "c < n" and "a + n * b = c + n * d"
  shows "a = c \<and> b = d"
proof -
  from assms have "(a + n * b) mod n = (c + n * d) mod n" by simp
  with assms(1,2) have "a = c" by simp
  with assms show ?thesis by simp
qed

lemma state_number_inj: "state_number g = state_number h \<Longrightarrow> g = (h :: Xoshiro256)"
proof -
  assume eq: "state_number g = state_number h"
  have lt: "unat x < 2 ^ 64" for x :: uint64 using unsigned_less [of x, where 'a = nat] by simp
  note one = state_number_step [OF lt lt eq [unfolded state_number_def]]
  note two = state_number_step [OF lt lt conjunct2 [OF one]]
  note three = state_number_step [OF lt lt conjunct2 [OF two]]
  have "state0 g = state0 h" by (rule unsigned_word_eqI [OF conjunct1 [OF one]])
  moreover have "state1 g = state1 h" by (rule unsigned_word_eqI [OF conjunct1 [OF two]])
  moreover have "state2 g = state2 h" by (rule unsigned_word_eqI [OF conjunct1 [OF three]])
  moreover have "state3 g = state3 h" by (rule unsigned_word_eqI [OF conjunct2 [OF three]])
  ultimately show "g = h" by (cases g, cases h) simp
qed

lemma state_number_less: "state_number g < 2 ^ 256"
proof -
  have le: "unat x \<le> 2 ^ 64 - 1" for x :: uint64 using unsigned_less [of x, where 'a = nat] by simp
  show ?thesis
    using le [of "state0 g"] le [of "state1 g"] le [of "state2 g"] le [of "state3 g"]
    unfolding state_number_def by simp
qed

lemma Xoshiro256_call_moves: "\<not> Xoshiro256_zero g \<Longrightarrow> snd (Xoshiro256_call g) \<noteq> g"
proof
  assume nz: "\<not> Xoshiro256_zero g" and fix_g: "snd (Xoshiro256_call g) = g"
  note fields = fix_g [THEN arg_cong [where f = state0]] fix_g [THEN arg_cong [where f = state1]]
    fix_g [THEN arg_cong [where f = state2]] fix_g [THEN arg_cong [where f = state3]]
  have eq: "state0 g XOR (state3 g XOR state1 g) = state0 g"
    using fields(1) unfolding Xoshiro256_call_state by simp
  have eq1: "state1 g XOR (state2 g XOR state0 g) = state1 g"
    using fields(2) unfolding Xoshiro256_call_state by simp
  have eq2: "(state2 g XOR state0 g) XOR push_bit 17 (state1 g) = state2 g"
    using fields(3) unfolding Xoshiro256_call_state by simp
  have eq3: "RotateLeft (state3 g XOR state1 g) 45 = state3 g"
    using fields(4) unfolding Xoshiro256_call_state by simp
  have cancel: "y = 0" if "x XOR y = x" for x y :: uint64
  proof -
    have "x XOR (x XOR y) = x XOR x" using that by simp
    then show ?thesis by (simp only: xor.assoc [symmetric] xor_self_eq xor.left_neutral)
  qed
  from cancel [OF eq] have s31: "state3 g XOR state1 g = 0" .
  with eq3 have s3: "state3 g = 0" by simp
  with s31 have s1: "state1 g = 0" by simp
  from cancel [OF eq1] have s20: "state2 g XOR state0 g = 0" .
  with eq2 s1 have s2: "state2 g = 0" by simp
  with s20 have "state0 g = 0" by simp
  with s1 s2 s3 nz show False by (simp add: Xoshiro256_zero_def)
qed

lemma nth_draw_updown: "nth_draw updown_dist lo hi n g = fst (updown_dist lo hi (Xoshiro256_iterate n g))"
  by (induction n arbitrary: g) (simp_all add: updown_dist_def Let_def)

lemma iterate_Suc: "Xoshiro256_iterate (Suc n) g = snd (Xoshiro256_call (Xoshiro256_iterate n g))"
  by (induction n arbitrary: g) simp_all

lemma updown_varies:
  assumes "\<not> Xoshiro256_zero g" and "lo < hi"
  shows "\<exists>n. nth_draw updown_dist lo hi n g \<noteq> a"
proof (rule ccontr)
  assume "\<not> ?thesis"
  then have const: "fst (updown_dist lo hi (Xoshiro256_iterate n g)) = a" for n
    by (simp add: nth_draw_updown)
  let ?s = "\<lambda>n. state_number (Xoshiro256_iterate n g)"
  have draw: "fst (updown_dist lo hi (Xoshiro256_iterate n g)) = (if ?s n < ?s (Suc n) then lo else hi)" for n
    by (simp add: updown_dist_def Let_def iterate_Suc del: Xoshiro256_iterate.simps)
  have ne: "?s (Suc n) \<noteq> ?s n" for n
    using Xoshiro256_call_moves [OF Xoshiro256_iterate_nonzero [OF assms(1), of n]] state_number_inj
    unfolding iterate_Suc by blast
  show False
  proof (cases "a = lo")
    case True
    then have "?s n < ?s (Suc n)" for n using const [of n] draw [of n] assms(2) by (simp split: if_splits)
    then have "n \<le> ?s n" for n by (induction n) (auto simp: less_eq_Suc_le intro: order_trans simp del: Xoshiro256_iterate.simps)
    then show False using state_number_less [of "Xoshiro256_iterate (2 ^ 256) g"] by (simp add: not_less [symmetric])
  next
    case False
    then have "?s (Suc n) < ?s n" for n
      using const [of n] draw [of n] ne [of n] assms(2) by (simp split: if_splits add: less_le)
    then have "?s n + n \<le> ?s 0" for n
      by (induction n) (auto simp: less_eq_Suc_le intro: order_trans [rotated] simp del: Xoshiro256_iterate.simps)
    from this [of "Suc (?s 0)"] show False by simp
  qed
qed

lemma updown_dist_ok: "dist_ok updown_dist"
proof -
  have "snd (updown_dist lo hi g) = Xoshiro256_iterate 1 g" for lo hi g
    by (simp add: updown_dist_def Let_def)
  then have "\<exists>k. snd (updown_dist lo hi g) = Xoshiro256_iterate k g" for lo hi g by blast
  then show ?thesis
    using updown_varies unfolding dist_ok_def by (auto simp: updown_dist_def Let_def)
qed

definition healthy_list :: "ServicePool \<Rightarrow> nat list" where
  "healthy_list pool = filter (healthy_at pool) [0..<GetSize pool]"

lemma p2c_collect_eq:
  "i \<le> GetSize pool \<Longrightarrow>
   p2c_collect pool i acc = Inr (acc @ filter (healthy_at pool) [i..<GetSize pool])"
proof (induction pool i acc rule: p2c_collect.induct)
  case (1 pool i acc)
  show ?case
  proof (cases "i < GetSize pool")
    case True
    then have "filter (healthy_at pool) [i..<GetSize pool] =
        (if IsHealthy (m_services pool ! i) then [i] else []) @ filter (healthy_at pool) [Suc i..<GetSize pool]"
      by (simp add: upt_conv_Cons healthy_at_def)
    with True "1.IH" [OF True GetService_Inr [OF True]] show ?thesis
      by (simp add: p2c_collect.simps [of pool i acc])
  next
    case False
    then show ?thesis by (simp add: p2c_collect.simps [of pool i acc])
  qed
qed

lemma p2c_collect_healthy_list [simp]: "p2c_collect pool 0 [] = Inr (healthy_list pool)"
  by (simp add: p2c_collect_eq healthy_list_def)

lemma set_healthy_list [simp]: "set (healthy_list pool) = {i. healthy_at pool i}"
  by (auto simp: healthy_list_def healthy_at_def)

lemma distinct_healthy_list [simp]: "distinct (healthy_list pool)"
  by (simp add: healthy_list_def)

lemma length_healthy_list: "length (healthy_list pool) = GetHealthyCount pool"
  using distinct_card [OF distinct_healthy_list [of pool]] by (simp add: GetHealthyCount_card)

lemma dist_ok_le: "dist_ok dist \<Longrightarrow> \<not> Xoshiro256_zero g \<Longrightarrow> fst (dist 0 hi g) \<le> hi"
  by (simp add: dist_ok_def)

lemma dist_ok_nonzero: "dist_ok dist \<Longrightarrow> \<not> Xoshiro256_zero g \<Longrightarrow> \<not> Xoshiro256_zero (snd (dist 0 hi g))"
  unfolding dist_ok_def using Xoshiro256_iterate_nonzero by (metis zero_le)

lemma dist_ok_varies:
  "dist_ok dist \<Longrightarrow> \<not> Xoshiro256_zero g \<Longrightarrow> 0 < hi \<Longrightarrow> \<exists>n. nth_draw dist 0 hi n g \<noteq> a"
  by (simp add: dist_ok_def)

lemma p2c_redraw_done: "b \<noteq> a \<Longrightarrow> p2c_redraw dist hi a b g = Some (b, g)"
  by (simp add: p2c_redraw.simps)

lemma p2c_redraw_draw:
  assumes "nth_draw dist 0 hi n g \<noteq> a"
  shows "\<exists>b' g'. p2c_redraw dist hi a b g = Some (b', g')"
  using assms
proof (induction n arbitrary: b g)
  case 0
  then show ?case by (cases "b = a") (simp_all add: p2c_redraw.simps)
next
  case (Suc n)
  then show ?case
    by (cases "b = a") (simp_all add: p2c_redraw.simps [of dist hi a b] p2c_redraw.simps [of dist hi a a])
qed

text \<open>What the loop keeps of the draws and of the generator.\<close>

definition dist_keeps :: "distribution \<Rightarrow> bool" where
  "dist_keeps dist \<longleftrightarrow> (\<forall>hi g. \<not> Xoshiro256_zero g \<longrightarrow>
     fst (dist 0 hi g) \<le> hi \<and> \<not> Xoshiro256_zero (snd (dist 0 hi g)))"

lemma dist_ok_keeps: "dist_ok dist \<Longrightarrow> dist_keeps dist"
  by (simp add: dist_keeps_def dist_ok_le dist_ok_nonzero)

lemma p2c_redraw_result:
  assumes ret: "p2c_redraw dist hi a b g = Some (b', g')" and "dist_ok dist" and "\<not> Xoshiro256_zero g" and "b \<le> hi"
  shows "b' \<noteq> a \<and> b' \<le> hi \<and> \<not> Xoshiro256_zero g'"
proof -
  let ?P = "\<lambda>dist hi a b g r. dist_keeps dist \<longrightarrow> \<not> Xoshiro256_zero g \<longrightarrow> b \<le> hi \<longrightarrow>
      fst r \<noteq> a \<and> fst r \<le> hi \<and> \<not> Xoshiro256_zero (snd r)"
  have "?P dist hi a b g (b', g')"
  proof (rule p2c_redraw.raw_induct [where P = ?P, OF _ ret])
    fix f :: "distribution \<Rightarrow> nat \<Rightarrow> nat \<Rightarrow> nat \<Rightarrow> Xoshiro256 \<Rightarrow> (nat \<times> Xoshiro256) option"
      and dist hi a b g r
    assume IH: "\<And>dist hi a b g r. f dist hi a b g = Some r \<Longrightarrow> ?P dist hi a b g r"
      and eq: "(if b = a then f dist hi a (fst (dist 0 hi g)) (snd (dist 0 hi g)) else Some (b, g)) = Some r"
    show "?P dist hi a b g r"
      using eq IH [of dist hi a "fst (dist 0 hi g)" "snd (dist 0 hi g)" r]
      by (cases "b = a") (auto simp: dist_keeps_def)
  qed
  with assms(2-4) show ?thesis by (simp add: dist_ok_keeps)
qed

text \<open>With at least two healthy services the call returns the lighter of two distinct ones.\<close>

lemma p2c_two_choices:
  assumes "dist_ok dist" and nz: "\<not> Xoshiro256_zero (m_rng st)" and two: "2 \<le> GetHealthyCount pool"
  obtains i j g where "\<not> Xoshiro256_zero g" "healthy_at pool i" "healthy_at pool j" "i \<noteq> j"
    "m_activeConnections (m_services pool ! i) \<le> m_activeConnections (m_services pool ! j)"
    "P2C_SelectService dist st pool key = Some (Inr (Inr i), st\<lparr>m_rng := g\<rparr>)"
proof -
  let ?h = "healthy_list pool" and ?hi = "length (healthy_list pool) - 1"
  let ?a = "fst (dist 0 ?hi (m_rng st))" and ?g1 = "snd (dist 0 ?hi (m_rng st))"
  let ?b = "fst (dist 0 ?hi ?g1)" and ?g2 = "snd (dist 0 ?hi ?g1)"
  have len: "2 \<le> length ?h" using two by (simp add: length_healthy_list)
  have nz1: "\<not> Xoshiro256_zero ?g1" using dist_ok_nonzero [OF assms(1) nz] .
  have nz2: "\<not> Xoshiro256_zero ?g2" using dist_ok_nonzero [OF assms(1) nz1] .
  obtain n where "nth_draw dist 0 ?hi n ?g2 \<noteq> ?a"
    using dist_ok_varies [OF assms(1) nz2, of ?hi] len by auto
  then obtain b g where bg: "p2c_redraw dist ?hi ?a ?b ?g2 = Some (b, g)"
    using p2c_redraw_draw by blast
  have a: "?a < length ?h" and b0: "?b \<le> ?hi"
    using dist_ok_le [OF assms(1) nz, of ?hi] dist_ok_le [OF assms(1) nz1, of ?hi] len by auto
  have b: "b \<noteq> ?a" "b < length ?h" and nzg: "\<not> Xoshiro256_zero g"
    using p2c_redraw_result [OF bg assms(1) nz2 b0] len by auto
  let ?ia = "?h ! ?a" and ?ib = "?h ! b"
  have ia: "healthy_at pool ?ia" and ib: "healthy_at pool ?ib"
    using nth_mem [OF a] nth_mem [OF b(2)] by simp_all
  have ne: "?ia \<noteq> ?ib" using a b by (simp add: nth_eq_iff_index_eq)
  have sel: "P2C_SelectService dist st pool key =
      Some (Inr (Inr (if m_activeConnections (m_services pool ! ?ia) \<le> m_activeConnections (m_services pool ! ?ib)
                      then ?ia else ?ib)), st\<lparr>m_rng := g\<rparr>)"
    using len a b ia ib bg
    by (auto simp: P2C_SelectService_def p2c_pick_def healthy_at_def Let_def case_prod_unfold
        GetActiveConnections_def)
  show thesis
  proof (cases "m_activeConnections (m_services pool ! ?ia) \<le> m_activeConnections (m_services pool ! ?ib)")
    case True
    with sel ia ib ne nzg show thesis by (intro that [of g ?ia ?ib]) auto
  next
    case False
    with sel ia ib ne nzg show thesis by (intro that [of g ?ib ?ia]) auto
  qed
qed

lemma p2c_one_choice:
  assumes "GetHealthyCount pool = 1"
  obtains i where "healthy_at pool i" "\<forall>j. healthy_at pool j \<longrightarrow> j = i"
    "P2C_SelectService dist st pool key = Some (Inr (Inr i), st)"
proof -
  have "length (healthy_list pool) = 1" using assms by (simp add: length_healthy_list)
  then obtain i where h: "healthy_list pool = [i]" by (auto simp: length_Suc_conv)
  have i: "healthy_at pool j \<longleftrightarrow> j \<in> set (healthy_list pool)" for j by simp
  have hi: "healthy_at pool i" and only: "\<forall>j. healthy_at pool j \<longrightarrow> j = i"
    unfolding i h by simp_all
  then have "GetSize pool \<noteq> 0" by (auto simp: healthy_at_def)
  then have "P2C_SelectService dist st pool key = Some (Inr (Inr i), st)"
    by (simp add: P2C_SelectService_def h)
  with hi only show thesis by (rule that)
qed

lemma p2c_no_choice:
  assumes "GetHealthyCount pool = 0"
  shows "P2C_SelectService dist st pool key =
    Some (Inr (Inl (if GetSize pool = 0 then PoolEmpty else NoHealthyServices)), st)"
proof -
  have "healthy_list pool = []" using assms length_healthy_list [of pool] by simp
  then show ?thesis by (simp add: P2C_SelectService_def)
qed

section \<open>The interface\<close>

text \<open>The strategy object seen through \<open>IRoutingStrategy\<close>, with the library's distribution.\<close>

definition p2c_object_select ::
    "distribution \<times> P2CStrategy \<Rightarrow> ServicePool \<Rightarrow> string \<Rightarrow> (distribution \<times> P2CStrategy) selection" where
  "p2c_object_select obj pool key =
     map_option (map_prod id (Pair (fst obj))) (P2C_SelectService (fst obj) (snd obj) pool key)"

definition p2c_object_ready :: "distribution \<times> P2CStrategy \<Rightarrow> ServicePool \<Rightarrow> bool" where
  "p2c_object_ready obj pool \<longleftrightarrow> dist_ok (fst obj) \<and> \<not> Xoshiro256_zero (m_rng (snd obj))"

text \<open>A constructed strategy never has the all-zero generator.\<close>

lemma P2CStrategy_new_nonzero: "\<not> Xoshiro256_zero (m_rng (P2CStrategy_new random_device))"
  by (simp add: P2CStrategy_new_def P2CStrategy_seed_def Xoshiro256_seed_nonzero)

text \<open>Every outcome of a call, by the number of healthy services.\<close>

lemma p2c_outcomes:
  assumes "dist_ok dist" and "\<not> Xoshiro256_zero (m_rng st)"
  shows "\<exists>r st'. P2C_SelectService dist st pool key = Some (Inr r, st') \<and> \<not> Xoshiro256_zero (m_rng st') \<and>
    (case r of
       Inl PoolEmpty \<Rightarrow> GetSize pool = 0
     | Inl NoHealthyServices \<Rightarrow> 0 < GetSize pool \<and> GetHealthyCount pool = 0
     | Inr i \<Rightarrow> healthy_at pool i \<and>
         (2 \<le> GetHealthyCount pool \<longrightarrow> (\<exists>j. healthy_at pool j \<and> j \<noteq> i \<and>
            m_activeConnections (m_services pool ! i) \<le> m_activeConnections (m_services pool ! j))))"
proof -
  consider "GetHealthyCount pool = 0" | "GetHealthyCount pool = 1" | "2 \<le> GetHealthyCount pool"
    by linarith
  then show ?thesis
  proof cases
    case 1
    with assms(2) show ?thesis by (simp add: p2c_no_choice)
  next
    case 2
    obtain i where "healthy_at pool i" "P2C_SelectService dist st pool key = Some (Inr (Inr i), st)"
      using p2c_one_choice [OF 2] by metis
    with 2 assms(2) show ?thesis by simp
  next
    case 3
    obtain i j g where "\<not> Xoshiro256_zero g" "healthy_at pool i" "healthy_at pool j" "i \<noteq> j"
      "m_activeConnections (m_services pool ! i) \<le> m_activeConnections (m_services pool ! j)"
      "P2C_SelectService dist st pool key = Some (Inr (Inr i), st\<lparr>m_rng := g\<rparr>)"
      using p2c_two_choices [OF assms 3] by metis
    then show ?thesis by auto
  qed
qed

interpretation p2c: routing_strategy p2c_object_select p2c_object_ready
proof
  fix obj obj' :: "distribution \<times> P2CStrategy" and p p' :: ServicePool and key r i
  let ?sel = "P2C_SelectService (fst obj) (snd obj) p key"
  assume ready: "p2c_object_ready obj p"
  then obtain r0 st0 where out: "?sel = Some (Inr r0, st0)" "\<not> Xoshiro256_zero (m_rng st0)"
      "case r0 of Inl PoolEmpty \<Rightarrow> GetSize p = 0
       | Inl NoHealthyServices \<Rightarrow> 0 < GetSize p \<and> GetHealthyCount p = 0
       | Inr i \<Rightarrow> healthy_at p i \<and> (2 \<le> GetHealthyCount p \<longrightarrow> (\<exists>j. healthy_at p j \<and> j \<noteq> i \<and>
            m_activeConnections (m_services p ! i) \<le> m_activeConnections (m_services p ! j)))"
    using p2c_outcomes [of "fst obj" "snd obj" p key] by (auto simp: p2c_object_ready_def)
  show "\<exists>r st'. p2c_object_select obj p key = Some (Inr r, st')"
    using out(1) by (simp add: p2c_object_select_def)
  show "p2c_object_select obj p key = Some (Inr r, obj') \<Longrightarrow> p2c_object_ready obj' p"
    using ready out(1,2) by (auto simp: p2c_object_select_def p2c_object_ready_def)
  show "p2c_object_select obj p key = Some (Inr (Inr i), obj') \<Longrightarrow> healthy_at p i"
    using out by (auto simp: p2c_object_select_def)
  show "p2c_object_select obj p key = Some (Inr (Inl PoolEmpty), obj') \<Longrightarrow> GetSize p = 0"
    using out by (auto simp: p2c_object_select_def)
  show "p2c_object_select obj p key = Some (Inr (Inl NoHealthyServices), obj') \<Longrightarrow>
      0 < GetSize p \<and> GetHealthyCount p = 0"
    using out by (auto simp: p2c_object_select_def)
  show "GetSize p' = GetSize p \<Longrightarrow> p2c_object_ready obj p'"
    using ready by (simp add: p2c_object_ready_def)
qed

section \<open>Properties\<close>

text \<open>
  C18: with a conforming distribution \<open>SelectService\<close> always returns, never throws, and finds
  a service exactly when one is healthy: the returned index is in range and healthy, and the
  two errors are reported exactly for an empty pool and for a pool with no healthy service. The
  generator, which must not start in the all-zero state, does not get there either.
\<close>

theorem p2c_select_correct:
  assumes "dist_ok dist" and "\<not> Xoshiro256_zero (m_rng st)"
  shows "\<exists>r st'. P2C_SelectService dist st pool key = Some (Inr r, st') \<and> \<not> Xoshiro256_zero (m_rng st') \<and>
    (case r of
       Inl PoolEmpty \<Rightarrow> GetSize pool = 0
     | Inl NoHealthyServices \<Rightarrow> GetSize pool \<noteq> 0 \<and> GetHealthyCount pool = 0
     | Inr i \<Rightarrow> GetHealthyCount pool > 0 \<and> healthy_at pool i)"
proof -
  obtain r st' where "P2C_SelectService dist st pool key = Some (Inr r, st')" "\<not> Xoshiro256_zero (m_rng st')"
    "case r of Inl PoolEmpty \<Rightarrow> GetSize pool = 0
     | Inl NoHealthyServices \<Rightarrow> 0 < GetSize pool \<and> GetHealthyCount pool = 0
     | Inr i \<Rightarrow> healthy_at pool i \<and> (2 \<le> GetHealthyCount pool \<longrightarrow> (\<exists>j. healthy_at pool j \<and> j \<noteq> i \<and>
            m_activeConnections (m_services pool ! i) \<le> m_activeConnections (m_services pool ! j)))"
    using p2c_outcomes [OF assms] by blast
  then show ?thesis
    using GetHealthyCount_0_iff [of pool]
    by (auto split: sum.splits RoutingError.splits)
qed

theorem p2c_select_correct_witness:
  "\<exists>st'. P2C_SelectService updown_dist (P2CStrategy_new 42)
     (ServicePool_new [ServiceNode_default]) [] = Some (Inr (Inr 0), st')"
proof -
  let ?p = "ServicePool_new [ServiceNode_default]"
  have h: "GetHealthyCount ?p = 1" by (simp add: GetHealthyCount_eq ServicePool_new_def accessors)
  obtain r st' where sel: "P2C_SelectService updown_dist (P2CStrategy_new 42) ?p [] = Some (Inr r, st')"
    and r: "case r of Inl PoolEmpty \<Rightarrow> GetSize ?p = 0
       | Inl NoHealthyServices \<Rightarrow> GetSize ?p \<noteq> 0 \<and> GetHealthyCount ?p = 0
       | Inr i \<Rightarrow> GetHealthyCount ?p > 0 \<and> healthy_at ?p i"
    using p2c_select_correct [OF updown_dist_ok P2CStrategy_new_nonzero] by blast
  from r h have "r = Inr 0" by (auto simp: healthy_at_def split: sum.splits RoutingError.splits)
  with sel show ?thesis by blast
qed

text \<open>
  C19: with two or more healthy services, a service with strictly more active connections than
  every other healthy one is never chosen.
\<close>

theorem p2c_avoids_most_loaded:
  assumes "dist_ok dist" and "\<not> Xoshiro256_zero (m_rng st)" and "2 \<le> GetHealthyCount pool"
    and "P2C_SelectService dist st pool key = Some (Inr (Inr i), st')"
  shows "\<exists>j. healthy_at pool j \<and> j \<noteq> i \<and>
    m_activeConnections (m_services pool ! i) \<le> m_activeConnections (m_services pool ! j)"
  using p2c_outcomes [OF assms(1,2), of pool key] assms(3,4) by auto

theorem p2c_avoids_most_loaded_witness:
  "let s = ServiceState_new ServiceNode_default;
       pool = \<lparr>m_services = [s\<lparr>m_activeConnections := 3\<rparr>, s\<lparr>m_activeConnections := 1\<rparr>]\<rparr>
   in \<exists>st'. P2C_SelectService updown_dist (P2CStrategy_new 42) pool [] = Some (Inr (Inr 1), st')"
proof -
  let ?s = "ServiceState_new ServiceNode_default"
  let ?pool = "\<lparr>m_services = [?s\<lparr>m_activeConnections := 3\<rparr>, ?s\<lparr>m_activeConnections := 1\<rparr>]\<rparr>"
  have two: "2 \<le> GetHealthyCount ?pool" by (simp add: GetHealthyCount_eq accessors)
  obtain i st' where i: "healthy_at ?pool i"
    "P2C_SelectService updown_dist (P2CStrategy_new 42) ?pool [] = Some (Inr (Inr i), st')"
    using p2c_two_choices [OF updown_dist_ok P2CStrategy_new_nonzero two] by metis
  obtain j where "healthy_at ?pool j" "j \<noteq> i"
    "m_activeConnections (m_services ?pool ! i) \<le> m_activeConnections (m_services ?pool ! j)"
    using p2c_avoids_most_loaded [OF updown_dist_ok P2CStrategy_new_nonzero two i(2)] by blast
  with i(1) have "i = 1"
    by (auto simp: healthy_at_def GetSize_def less_Suc_eq word_le_nat_alt)
  with i(2) show ?thesis unfolding Let_def by blast
qed

text \<open>
  The rejection loop that draws the second index returns, for a conforming distribution
  over at least two indices, an index in range and different from the first.
\<close>

lemma p2c_rejection_loop_returns:
  assumes "dist_ok dist" and "\<not> Xoshiro256_zero g" and "0 < hi" and "b \<le> hi"
  shows "\<exists>b' g'. p2c_redraw dist hi a b g = Some (b', g') \<and> b' \<noteq> a \<and> b' \<le> hi"
proof -
  obtain n where "nth_draw dist 0 hi n g \<noteq> a" using dist_ok_varies [OF assms(1-3)] by blast
  then obtain b' g' where r: "p2c_redraw dist hi a b g = Some (b', g')"
    using p2c_redraw_draw by blast
  with p2c_redraw_result [OF r assms(1,2,4)] show ?thesis by blast
qed

lemma p2c_rejection_loop_returns_witness:
  "\<exists>b' g'. p2c_redraw updown_dist 3 0 0 (Xoshiro256_seed 7) = Some (b', g') \<and> b' \<noteq> 0 \<and> b' \<le> 3"
  by (rule p2c_rejection_loop_returns [OF updown_dist_ok Xoshiro256_seed_nonzero]) simp_all

text \<open>
  The distribution's variation is needed: with one that draws the first index for ever,
  the rejection loop does not return.
\<close>

lemma p2c_rejection_loop_diverges: "p2c_redraw (\<lambda>lo hi g. (a, g)) hi a a g = None"
proof (rule ccontr)
  assume "p2c_redraw (\<lambda>lo hi g. (a, g)) hi a a g \<noteq> None"
  then obtain r where ret: "p2c_redraw (\<lambda>lo hi g. (a, g)) hi a a g = Some r" by blast
  let ?stuck = "\<lambda>lo hi g. (a, g)"
  have "(?stuck :: distribution) = ?stuck \<longrightarrow> a = a \<longrightarrow> False"
    by (rule p2c_redraw.raw_induct [where P = "\<lambda>dist hi a b g r.
          dist = (\<lambda>lo hi g. (a, g)) \<longrightarrow> b = a \<longrightarrow> False", OF _ ret]) (fastforce split: if_splits)
  then show False by simp
qed

end
