(* ===== verification/Consistent_Hash.thy ===== *)
theory Consistent_Hash
  imports Routing Fnv_Hash "HOL-Library.Multiset"
begin

text \<open>
  \<open>core/routing/ConsistentHashStrategy\<close>: the hash ring with 150 virtual nodes per service.
  The constructor's contract (a strictly sorted ring or a collision error) and the meaning of
  \<open>SelectService\<close> (the nearest healthy vnode clockwise from the key's hash) are the main
  results, and with them the stability of the routing when services fail or recover.
\<close>

section \<open>Building the ring\<close>

type_synonym vnode = "uint64 \<times> nat"

record ConsistentHashStrategy =
  m_ring :: "vnode list"

definition VNODES_PER_SERVICE :: nat where
  "VNODES_PER_SERVICE = 150"

text \<open>\<open>std::format("{}#{}", name, v)\<close>.\<close>

definition vnode_label :: "string \<Rightarrow> nat \<Rightarrow> string" where
  "vnode_label name v = name @ ''#'' @ to_decimal v"

text \<open>The inner loop: the vnodes of one service, appended to the ring.\<close>

function ring_add_vnodes :: "string \<Rightarrow> nat \<Rightarrow> nat \<Rightarrow> vnode list \<Rightarrow> vnode list" where
  "ring_add_vnodes name i v ring =
     (if v < VNODES_PER_SERVICE
      then ring_add_vnodes name i (v + 1) (ring @ [(Hash64 (vnode_label name v), i)])
      else ring)"
  by pat_completeness auto
termination by (relation "measure (\<lambda>(name, i, v, ring). VNODES_PER_SERVICE - v)") auto

text \<open>The outer loop over the services.\<close>

function ring_add_services :: "ServicePool \<Rightarrow> nat \<Rightarrow> vnode list \<Rightarrow> vnode list throws" where
  "ring_add_services pool i ring =
     (if i < GetSize pool
      then (case GetService pool i of
              Inl e \<Rightarrow> Inl e
            | Inr s \<Rightarrow> ring_add_services pool (i + 1)
                          (ring_add_vnodes (ServiceNode_GetName (GetNode s)) i 0 ring))
      else Inr ring)"
  by pat_completeness auto
termination by (relation "measure (\<lambda>(pool, i, ring). GetSize pool - i)") auto

text \<open>The collision check over neighbours of the sorted ring, from index \<open>i\<close>.\<close>

function collision_check :: "vnode list \<Rightarrow> nat \<Rightarrow> unit throws" where
  "collision_check ring i =
     (if i < length ring
      then if fst (ring ! i) = fst (ring ! (i - 1)) then Inl (HashCollisionError i)
           else collision_check ring (i + 1)
      else Inr ())"
  by pat_completeness auto
termination by (relation "measure (\<lambda>(ring, i). length ring - i)") auto

declare ring_add_vnodes.simps [simp del] ring_add_services.simps [simp del] collision_check.simps [simp del]

definition ConsistentHashStrategy_new :: "ServicePool \<Rightarrow> ConsistentHashStrategy throws" where
  "ConsistentHashStrategy_new pool =
     and_then (ring_add_services pool 0 []) (\<lambda>points.
       let ring = sort_key fst points
       in and_then (collision_check ring 1) (\<lambda>_. Inr \<lparr>m_ring = ring\<rparr>))"

section \<open>Selecting a service\<close>

text \<open>
  \<open>std::ranges::lower_bound\<close> on the sorted ring: the number of vnodes with a smaller hash.
\<close>

definition ring_lower_bound :: "vnode list \<Rightarrow> uint64 \<Rightarrow> nat" where
  "ring_lower_bound ring hash = length (takeWhile (\<lambda>p. fst p < hash) ring)"

text \<open>The walk around the ring, \<open>walked\<close> vnodes after \<open>startIdx\<close>.\<close>

function ring_walk :: "ServicePool \<Rightarrow> vnode list \<Rightarrow> nat \<Rightarrow> nat \<Rightarrow> (RoutingError + nat) throws" where
  "ring_walk pool ring startIdx walked =
     (if walked < length ring
      then let idx = (startIdx + walked) mod length ring in
           (case vector_at ring idx of
              Inl e \<Rightarrow> Inl e
            | Inr p \<Rightarrow>
                (case GetService pool (snd p) of
                   Inl e \<Rightarrow> Inl e
                 | Inr s \<Rightarrow> if IsHealthy s then Inr (Inr (snd p))
                            else ring_walk pool ring startIdx (walked + 1)))
      else Inr (Inl NoHealthyServices))"
  by pat_completeness auto
termination by (relation "measure (\<lambda>(pool, ring, startIdx, walked). length ring - walked)") auto

declare ring_walk.simps [simp del]

definition CH_SelectService ::
    "ConsistentHashStrategy \<Rightarrow> ServicePool \<Rightarrow> string \<Rightarrow> ConsistentHashStrategy selection" where
  "CH_SelectService st pool routingKey =
     (if GetSize pool = 0 \<or> m_ring st = [] then Some (Inr (Inl PoolEmpty), st)
      else
        let hash = Hash64 routingKey;
            startIdx = ring_lower_bound (m_ring st) hash
        in Some (ring_walk pool (m_ring st) startIdx 0, st))"

section \<open>Specification\<close>

text \<open>The points the loops generate, service by service.\<close>

definition service_vnodes :: "string \<Rightarrow> nat \<Rightarrow> vnode list" where
  "service_vnodes name i = map (\<lambda>v. (Hash64 (vnode_label name v), i)) [0..<VNODES_PER_SERVICE]"

definition service_name :: "ServicePool \<Rightarrow> nat \<Rightarrow> string" where
  "service_name pool i = m_name (m_node (m_services pool ! i))"

definition ring_points :: "ServicePool \<Rightarrow> vnode list" where
  "ring_points pool = concat (map (\<lambda>i. service_vnodes (service_name pool i) i) [0..<GetSize pool])"

text \<open>How far clockwise a vnode lies from a hash, around the 64-bit circle.\<close>

definition cw_distance :: "uint64 \<Rightarrow> vnode \<Rightarrow> nat" where
  "cw_distance hash p = unat (fst p - hash)"

text \<open>The vnodes are strictly sorted and belong to exactly the services of the pool.\<close>

definition ring_ready :: "ConsistentHashStrategy \<Rightarrow> ServicePool \<Rightarrow> bool" where
  "ring_ready st pool \<longleftrightarrow>
     sorted_wrt (\<lambda>p q. fst p < fst q) (m_ring st) \<and> snd ` set (m_ring st) = {0..<GetSize pool}"

text \<open>The nearest healthy vnode clockwise of the key belongs to service \<open>i\<close>.\<close>

definition nearest_healthy :: "ConsistentHashStrategy \<Rightarrow> ServicePool \<Rightarrow> string \<Rightarrow> nat \<Rightarrow> bool" where
  "nearest_healthy st pool key i \<longleftrightarrow>
     (\<exists>p\<in>set (m_ring st). snd p = i \<and> healthy_at pool i \<and>
        (\<forall>q\<in>set (m_ring st). healthy_at pool (snd q) \<longrightarrow>
           q = p \<or> cw_distance (Hash64 key) p < cw_distance (Hash64 key) q))"

section \<open>The constructor\<close>

lemma ring_add_vnodes_eq:
  "v \<le> VNODES_PER_SERVICE \<Longrightarrow>
   ring_add_vnodes name i v ring = ring @ map (\<lambda>v. (Hash64 (vnode_label name v), i)) [v..<VNODES_PER_SERVICE]"
proof (induction name i v ring rule: ring_add_vnodes.induct)
  case (1 name i v ring)
  then show ?case
    by (cases "v < VNODES_PER_SERVICE")
      (simp_all add: ring_add_vnodes.simps [of name i v] ring_add_vnodes.simps [of name i VNODES_PER_SERVICE]
        upt_conv_Cons)
qed

lemma ring_add_services_eq:
  "i \<le> GetSize pool \<Longrightarrow>
   ring_add_services pool i ring =
     Inr (ring @ concat (map (\<lambda>i. service_vnodes (service_name pool i) i) [i..<GetSize pool]))"
proof (induction pool i ring rule: ring_add_services.induct)
  case (1 pool i ring)
  show ?case
  proof (cases "i < GetSize pool")
    case True
    have "ring_add_services pool (i + 1) (ring @ service_vnodes (service_name pool i) i) =
        Inr ((ring @ service_vnodes (service_name pool i) i) @
          concat (map (\<lambda>i. service_vnodes (service_name pool i) i) [i + 1..<GetSize pool]))"
      using "1.IH" [OF True GetService_Inr [OF True]] True
      by (simp add: ring_add_vnodes_eq service_vnodes_def service_name_def accessors)
    with True show ?thesis
      by (simp add: ring_add_services.simps [of pool i] upt_conv_Cons ring_add_vnodes_eq
          service_vnodes_def service_name_def accessors)
  next
    case False
    then show ?thesis by (simp add: ring_add_services.simps [of pool i])
  qed
qed

lemma ring_add_services_points [simp]: "ring_add_services pool 0 [] = Inr (ring_points pool)"
  by (simp add: ring_add_services_eq ring_points_def)

lemma collision_check_cases:
  "1 \<le> i \<Longrightarrow>
   (case collision_check ring i of
      Inl e \<Rightarrow> \<exists>k. e = HashCollisionError k \<and> i \<le> k \<and> k < length ring \<and> fst (ring ! k) = fst (ring ! (k - 1))
    | Inr _ \<Rightarrow> \<forall>k. i \<le> k \<and> k < length ring \<longrightarrow> fst (ring ! k) \<noteq> fst (ring ! (k - 1)))"
proof (induction ring i rule: collision_check.induct)
  case (1 ring i)
  show ?case
  proof (cases "i < length ring \<and> fst (ring ! i) \<noteq> fst (ring ! (i - 1))")
    case True
    with 1 show ?thesis
      by (auto simp: collision_check.simps [of ring i] split: sum.splits dest: Suc_leD)
        (metis Suc_leI le_neq_implies_less)
  next
    case False
    with "1.prems" show ?thesis by (auto simp: collision_check.simps [of ring i])
  qed
qed

lemma sorted_neighbours_strict:
  assumes "sorted (map f xs)" and "\<forall>k. 1 \<le> k \<and> k < length xs \<longrightarrow> f (xs ! k) \<noteq> f (xs ! (k - 1))"
  shows "sorted_wrt (\<lambda>x y. f x < (f y :: 'b::linorder)) xs"
proof -
  have "f (xs ! k) < f (xs ! Suc k)" if "Suc k < length xs" for k
  proof -
    have "f (xs ! k) \<le> f (xs ! Suc k)" using assms(1) that by (simp add: sorted_iff_nth_Suc)
    moreover have "f (xs ! Suc k) \<noteq> f (xs ! k)" using assms(2) that by (metis One_nat_def diff_Suc_1 le_add1 plus_1_eq_Suc)
    ultimately show ?thesis by simp
  qed
  then have "sorted_wrt (<) (map f xs)" by (simp add: sorted_wrt_iff_nth_Suc_transp)
  then show ?thesis by (simp add: sorted_wrt_map)
qed

lemma strict_sorted_distinct: "sorted_wrt (\<lambda>x y. f x < (f y :: 'b::linorder)) xs \<Longrightarrow> distinct (map f xs)"
  using strict_sorted_iff [of "map f xs"] by (simp add: sorted_wrt_map)

lemma collision_check_distinct:
  assumes "sorted (map fst ring)"
  shows "collision_check ring 1 = Inr () \<longleftrightarrow> distinct (map fst ring)"
proof
  assume "collision_check ring 1 = Inr ()"
  then have "\<forall>k. 1 \<le> k \<and> k < length ring \<longrightarrow> fst (ring ! k) \<noteq> fst (ring ! (k - 1))"
    using collision_check_cases [of 1 ring] by simp
  with assms show "distinct (map fst ring)"
    by (intro strict_sorted_distinct sorted_neighbours_strict)
next
  assume d: "distinct (map fst ring)"
  have "fst (ring ! k) \<noteq> fst (ring ! (k - 1))" if "1 \<le> k" "k < length ring" for k
    using d that nth_eq_iff_index_eq [OF d, of k "k - 1"] by simp
  then show "collision_check ring 1 = Inr ()"
    using collision_check_cases [of 1 ring] by (auto split: sum.splits)
qed

lemma sort_key_points_distinct:
  "distinct (map fst (sort_key fst (ring_points pool))) \<longleftrightarrow> distinct (map fst (ring_points pool))"
  by (rule mset_eq_imp_distinct_iff) (simp add: mset_map)

lemma length_service_vnodes [simp]: "length (service_vnodes name i) = VNODES_PER_SERVICE"
  by (simp add: service_vnodes_def)

lemma length_ring_points: "length (ring_points pool) = VNODES_PER_SERVICE * GetSize pool"
  by (simp add: ring_points_def length_concat comp_def sum_list_triv)

lemma set_ring_points:
  "(h, i) \<in> set (ring_points pool) \<longleftrightarrow>
     i < GetSize pool \<and> (\<exists>v < VNODES_PER_SERVICE. h = Hash64 (vnode_label (service_name pool i) v))"
  by (auto simp: ring_points_def service_vnodes_def intro!: bexI [of _ i])

lemma snd_ring_points: "snd ` set (ring_points pool) = {0..<GetSize pool}"
proof
  show "snd ` set (ring_points pool) \<subseteq> {0..<GetSize pool}" by (auto simp: set_ring_points)
  have "(Hash64 (vnode_label (service_name pool i) 0), i) \<in> set (ring_points pool)" if "i < GetSize pool" for i
    using that by (auto simp: set_ring_points VNODES_PER_SERVICE_def intro!: exI [of _ 0])
  then show "{0..<GetSize pool} \<subseteq> snd ` set (ring_points pool)" by (force simp: image_iff)
qed

lemma new_ring_Inr_iff:
  "ConsistentHashStrategy_new pool = Inr st \<longleftrightarrow>
     distinct (map fst (ring_points pool)) \<and> st = \<lparr>m_ring = sort_key fst (ring_points pool)\<rparr>"
  using collision_check_distinct [of "sort_key fst (ring_points pool)"]
  by (cases "collision_check (sort_key fst (ring_points pool)) 1")
    (auto simp: ConsistentHashStrategy_new_def sort_key_points_distinct)

lemma new_ring_Inl:
  assumes "ConsistentHashStrategy_new pool = Inl e"
  shows "\<exists>k. e = HashCollisionError k \<and> 1 \<le> k \<and> k < VNODES_PER_SERVICE * GetSize pool"
  using assms collision_check_cases [of 1 "sort_key fst (ring_points pool)"]
  by (cases "collision_check (sort_key fst (ring_points pool)) 1")
    (auto simp: ConsistentHashStrategy_new_def length_ring_points)

lemma new_ring_ready:
  assumes "ConsistentHashStrategy_new pool = Inr st"
  shows "ring_ready st pool"
proof -
  let ?ring = "sort_key fst (ring_points pool)"
  have st: "st = \<lparr>m_ring = ?ring\<rparr>" and d: "distinct (map fst ?ring)"
    using assms by (simp_all add: new_ring_Inr_iff sort_key_points_distinct)
  have "sorted_wrt (<) (map fst ?ring)" using d by (simp add: strict_sorted_iff)
  with st show ?thesis by (simp add: ring_ready_def sorted_wrt_map snd_ring_points)
qed

lemma duplicate_names_not_distinct:
  assumes "i < j" and "j < GetSize pool" and "service_name pool i = service_name pool j"
  shows "\<not> distinct (map fst (ring_points pool))"
proof
  let ?h = "Hash64 (vnode_label (service_name pool i) 0)"
  assume "distinct (map fst (ring_points pool))"
  then have inj: "inj_on fst (set (ring_points pool))" by (simp add: distinct_map)
  have "(?h, i) \<in> set (ring_points pool)" and "(?h, j) \<in> set (ring_points pool)"
    using assms by (auto simp: set_ring_points VNODES_PER_SERVICE_def intro!: exI [of _ 0])
  with inj have "(?h, i) = (?h, j)" by (intro inj_onD [OF inj]) simp_all
  with assms(1) show False by simp
qed

section \<open>The clockwise walk\<close>

lemma ring_walk_find:
  assumes "\<forall>p\<in>set ring. snd p < GetSize pool"
  shows "ring_walk pool ring k w =
    (case find (\<lambda>p. healthy_at pool (snd p)) (drop w (rotate k ring)) of
       None \<Rightarrow> Inr (Inl NoHealthyServices) | Some p \<Rightarrow> Inr (Inr (snd p)))"
  using assms
proof (induction pool ring k w rule: ring_walk.induct)
  case (1 pool ring k w)
  show ?case
  proof (cases "w < length ring")
    case True
    let ?idx = "(k + w) mod length ring"
    have idx: "?idx < length ring" using True by (intro mod_less_divisor) auto
    then have size: "snd (ring ! ?idx) < GetSize pool" using "1.prems" by simp
    have "rotate k ring ! w = ring ! ?idx" using True by (simp add: nth_rotate add.commute)
    then have dr: "drop w (rotate k ring) = ring ! ?idx # drop (Suc w) (rotate k ring)"
      using True by (metis Cons_nth_drop_Suc length_rotate)
    show ?thesis
      using True idx size "1.prems" dr
        "1.IH" [OF True refl vector_at_Inr [OF idx] GetService_Inr [OF size]]
      by (simp add: ring_walk.simps [of pool ring k w] healthy_at_def)
  next
    case False
    then show ?thesis by (simp add: ring_walk.simps [of pool ring k w])
  qed
qed

lemma cw_less_same_side:
  fixes x y h :: uint64
  assumes "x < y" and "h \<le> x \<or> y < h"
  shows "unat (x - h) < unat (y - h)"
  using assms unsigned_less [of x, where 'a = nat] unsigned_less [of y, where 'a = nat]
    unsigned_less [of h, where 'a = nat]
  by (auto simp: unat_sub_if_size word_size word_less_nat_alt word_le_nat_alt)

lemma cw_less_across:
  fixes x y h :: uint64
  assumes "h \<le> x" and "y < h"
  shows "unat (x - h) < unat (y - h)"
  using assms unsigned_less [of x, where 'a = nat] unsigned_less [of y, where 'a = nat]
    unsigned_less [of h, where 'a = nat]
  by (auto simp: unat_sub_if_size word_size word_less_nat_alt word_le_nat_alt)

lemma rotated_ring_sorted:
  assumes sorted: "sorted_wrt (\<lambda>p q. fst p < fst q) ring"
  shows "sorted_wrt (\<lambda>p q. cw_distance h p < cw_distance h q) (rotate (ring_lower_bound ring h) ring)"
proof -
  let ?A = "takeWhile (\<lambda>p. fst p < h) ring" and ?B = "dropWhile (\<lambda>p. fst p < h) ring"
  have ring: "ring = ?A @ ?B" by simp
  have A: "\<forall>p\<in>set ?A. fst p < h" by (auto dest: set_takeWhileD)
  have split: "sorted_wrt (\<lambda>p q. fst p < fst q) ?A" "sorted_wrt (\<lambda>p q. fst p < fst q) ?B"
    using sorted sorted_wrt_append [of "\<lambda>p q. fst p < fst q" ?A ?B] unfolding takeWhile_dropWhile_id by blast+
  have B: "\<forall>p\<in>set ?B. h \<le> fst p"
  proof (cases ?B)
    case (Cons q qs)
    then have "\<not> fst q < h" using hd_dropWhile [of "\<lambda>p. fst p < h" ring] by simp
    moreover have "\<forall>p\<in>set qs. fst q < fst p" using split(2) Cons by simp
    ultimately show ?thesis using Cons by (auto simp: not_less intro: order.trans less_imp_le)
  next
    case Nil
    then show ?thesis by (simp only: list.set(1)) simp
  qed
  have "rotate (ring_lower_bound ring h) ring = ?B @ ?A"
    using rotate_append [of ?A ?B] ring by (simp add: ring_lower_bound_def)
  moreover have "sorted_wrt (\<lambda>p q. cw_distance h p < cw_distance h q) ?B"
    by (rule sorted_wrt_mono_rel [OF _ split(2)]) (use B in \<open>auto simp: cw_distance_def intro: cw_less_same_side\<close>)
  moreover have "sorted_wrt (\<lambda>p q. cw_distance h p < cw_distance h q) ?A"
    by (rule sorted_wrt_mono_rel [OF _ split(1)]) (use A in \<open>auto simp: cw_distance_def intro: cw_less_same_side\<close>)
  ultimately show ?thesis
    using A B by (auto simp: sorted_wrt_append cw_distance_def intro: cw_less_across)
qed

lemma ring_ready_bounds: "ring_ready st pool \<Longrightarrow> \<forall>p\<in>set (m_ring st). snd p < GetSize pool"
  by (metis atLeastLessThan_iff imageI ring_ready_def)

lemma ring_ready_empty: "ring_ready st pool \<Longrightarrow> m_ring st = [] \<longleftrightarrow> GetSize pool = 0"
  by (auto simp: ring_ready_def)

text \<open>The call returns the nearest healthy vnode's service, or the error of an idle ring.\<close>

lemma CH_select_find:
  assumes "ring_ready st pool" and "GetSize pool \<noteq> 0"
  shows "CH_SelectService st pool key =
    Some (Inr (case find (\<lambda>p. healthy_at pool (snd p))
                 (rotate (ring_lower_bound (m_ring st) (Hash64 key)) (m_ring st)) of
            None \<Rightarrow> Inl NoHealthyServices | Some p \<Rightarrow> Inr (snd p)), st)"
  using ring_walk_find [OF ring_ready_bounds [OF assms(1)]] ring_ready_empty [OF assms(1)] assms(2)
  by (simp add: CH_SelectService_def Let_def split: option.splits)

lemma CH_select_nearest:
  assumes ready: "ring_ready st pool"
    and sel: "CH_SelectService st pool key = Some (Inr (Inr i), st')"
  shows "nearest_healthy st pool key i"
proof -
  let ?rot = "rotate (ring_lower_bound (m_ring st) (Hash64 key)) (m_ring st)"
  have size: "GetSize pool \<noteq> 0" using sel by (cases "GetSize pool = 0") (simp_all add: CH_SelectService_def)
  obtain p where p: "find (\<lambda>p. healthy_at pool (snd p)) ?rot = Some p" and i: "snd p = i"
    using sel CH_select_find [OF ready size, of key] by (auto split: option.splits)
  have "sorted_wrt (\<lambda>p q. cw_distance (Hash64 key) p < cw_distance (Hash64 key) q) ?rot"
    using ready by (intro rotated_ring_sorted) (simp add: ring_ready_def)
  from find_sorted_least [OF this p] i show ?thesis by (auto simp: nearest_healthy_def)
qed

lemma CH_select_cases:
  assumes ready: "ring_ready st pool"
  shows "\<exists>r. CH_SelectService st pool key = Some (Inr r, st) \<and>
    (case r of
       Inl PoolEmpty \<Rightarrow> GetSize pool = 0
     | Inl NoHealthyServices \<Rightarrow> 0 < GetSize pool \<and> GetHealthyCount pool = 0
     | Inr i \<Rightarrow> nearest_healthy st pool key i)"
proof (cases "GetSize pool = 0")
  case True
  then show ?thesis by (simp add: CH_SelectService_def)
next
  case False
  let ?rot = "rotate (ring_lower_bound (m_ring st) (Hash64 key)) (m_ring st)"
  show ?thesis
  proof (cases "find (\<lambda>p. healthy_at pool (snd p)) ?rot")
    case None
    then have none: "\<forall>p\<in>set (m_ring st). \<not> healthy_at pool (snd p)" by (auto simp: find_None_iff)
    have "GetHealthyCount pool = 0"
    proof (subst GetHealthyCount_0_iff, rule allI, rule notI)
      fix i
      assume h: "healthy_at pool i"
      then have "i \<in> snd ` set (m_ring st)" using ready by (simp add: ring_ready_def healthy_at_def)
      with none h show False by auto
    qed
    with None False show ?thesis by (simp add: CH_select_find [OF ready])
  next
    case (Some p)
    then have "CH_SelectService st pool key = Some (Inr (Inr (snd p)), st)"
      by (simp add: CH_select_find [OF ready False])
    with CH_select_nearest [OF ready this] show ?thesis by simp
  qed
qed

lemma nearest_healthy_unique:
  "nearest_healthy st pool key i \<Longrightarrow> nearest_healthy st pool key j \<Longrightarrow> i = j"
  unfolding nearest_healthy_def by (metis less_asym')

lemma nearest_healthy_iff:
  assumes "ring_ready st pool"
  shows "CH_SelectService st pool key = Some (Inr (Inr i), st) \<longleftrightarrow> nearest_healthy st pool key i"
proof
  assume near: "nearest_healthy st pool key i"
  then have "GetSize pool \<noteq> 0" and "GetHealthyCount pool \<noteq> 0"
    using GetHealthyCount_0_iff [of pool] by (auto simp: nearest_healthy_def healthy_at_def)
  moreover obtain r where "CH_SelectService st pool key = Some (Inr r, st)"
    "case r of Inl PoolEmpty \<Rightarrow> GetSize pool = 0
     | Inl NoHealthyServices \<Rightarrow> 0 < GetSize pool \<and> GetHealthyCount pool = 0
     | Inr i \<Rightarrow> nearest_healthy st pool key i"
    using CH_select_cases [OF assms] by blast
  ultimately show "CH_SelectService st pool key = Some (Inr (Inr i), st)"
    using near nearest_healthy_unique by (auto split: sum.splits RoutingError.splits)
qed (rule CH_select_nearest [OF assms])

interpretation ch: routing_strategy CH_SelectService ring_ready
proof
  fix st st' :: ConsistentHashStrategy and p p' :: ServicePool and key r i
  assume ready: "ring_ready st p"
  obtain r0 where out: "CH_SelectService st p key = Some (Inr r0, st)"
    "case r0 of Inl PoolEmpty \<Rightarrow> GetSize p = 0
     | Inl NoHealthyServices \<Rightarrow> 0 < GetSize p \<and> GetHealthyCount p = 0
     | Inr i \<Rightarrow> nearest_healthy st p key i"
    using CH_select_cases [OF ready] by blast
  show "\<exists>r st'. CH_SelectService st p key = Some (Inr r, st')" using out(1) by blast
  show "CH_SelectService st p key = Some (Inr r, st') \<Longrightarrow> ring_ready st' p" using out(1) ready by simp
  show "CH_SelectService st p key = Some (Inr (Inr i), st') \<Longrightarrow> healthy_at p i"
    using out by (auto simp: nearest_healthy_def)
  show "CH_SelectService st p key = Some (Inr (Inl PoolEmpty), st') \<Longrightarrow> GetSize p = 0"
    using out by auto
  show "CH_SelectService st p key = Some (Inr (Inl NoHealthyServices), st') \<Longrightarrow>
      0 < GetSize p \<and> GetHealthyCount p = 0"
    using out by auto
  show "GetSize p' = GetSize p \<Longrightarrow> ring_ready st p'" using ready by (simp add: ring_ready_def)
qed

text \<open>
  A vnode that is nearest among many healthy ones stays nearest among fewer, as long as its own
  service stays healthy.
\<close>

lemma nearest_healthy_shrink:
  assumes "nearest_healthy st pool key i" and "healthy_at pool' i"
    and "\<And>j. healthy_at pool' j \<Longrightarrow> healthy_at pool j"
  shows "nearest_healthy st pool' key i"
  using assms unfolding nearest_healthy_def by blast

text \<open>A two-service pool and a small ring for concrete instances.\<close>

definition example_ring :: ConsistentHashStrategy where
  "example_ring = \<lparr>m_ring = [(100, 0), (200, 1)]\<rparr>"

definition example_pool :: "bool \<Rightarrow> bool \<Rightarrow> ServicePool" where
  "example_pool h0 h1 = \<lparr>m_services =
     [(ServiceState_new ServiceNode_default)\<lparr>m_healthy := h0\<rparr>,
      (ServiceState_new ServiceNode_default)\<lparr>m_healthy := h1\<rparr>]\<rparr>"

lemma example_pool_size [simp]: "GetSize (example_pool h0 h1) = 2"
  by (simp add: example_pool_def GetSize_def)

lemma example_pool_healthy: "healthy_at (example_pool h0 h1) i \<longleftrightarrow> i = 0 \<and> h0 \<or> i = 1 \<and> h1"
  by (cases i) (auto simp: healthy_at_def example_pool_def GetSize_def accessors nth_Cons split: nat.splits)

lemma example_ring_ready: "ring_ready example_ring (example_pool h0 h1)"
proof -
  have "{0..<2} = {0, 1 :: nat}" by auto
  moreover have "(100 :: uint64) < 200" by simp
  ultimately show ?thesis by (auto simp: ring_ready_def example_ring_def)
qed

section \<open>Properties\<close>

text \<open>
  C25: the constructor succeeds exactly when all vnode hashes are distinct, and then the ring is
  strictly sorted by hash and holds exactly the 150 vnodes of every service; otherwise it
  throws a \<open>HashCollisionError\<close> that names a position inside the ring.
\<close>

theorem ring_constructor_correct:
  "case ConsistentHashStrategy_new pool of
     Inr st \<Rightarrow> distinct (map fst (ring_points pool)) \<and> ring_ready st pool \<and>
       sorted_wrt (\<lambda>p q. fst p < fst q) (m_ring st) \<and>
       mset (m_ring st) = mset (ring_points pool) \<and> length (m_ring st) = 150 * GetSize pool
   | Inl e \<Rightarrow> \<not> distinct (map fst (ring_points pool)) \<and>
       (\<exists>k. e = HashCollisionError k \<and> 1 \<le> k \<and> k < 150 * GetSize pool)"
proof (cases "ConsistentHashStrategy_new pool")
  case (Inl e)
  then have "\<not> distinct (map fst (ring_points pool))"
    using new_ring_Inr_iff [of pool "\<lparr>m_ring = sort_key fst (ring_points pool)\<rparr>"] by auto
  with Inl new_ring_Inl [OF Inl] show ?thesis by (simp add: VNODES_PER_SERVICE_def)
next
  case (Inr st)
  have st: "distinct (map fst (ring_points pool))" "m_ring st = sort_key fst (ring_points pool)"
    using Inr by (simp_all add: new_ring_Inr_iff)
  moreover have "sorted_wrt (\<lambda>p q. fst p < fst q) (m_ring st)"
    using new_ring_ready [OF Inr] by (simp add: ring_ready_def)
  ultimately show ?thesis
    using Inr new_ring_ready [OF Inr] by (simp add: length_ring_points VNODES_PER_SERVICE_def)
qed

text \<open>
  Two services with the same name make the ring collide: the constructor throws, so a
  consistent-hash balancer cannot start on such a configuration.
\<close>

lemma duplicate_names_collide:
  assumes "i < j" and "j < GetSize pool" and "service_name pool i = service_name pool j"
  shows "\<exists>k. ConsistentHashStrategy_new pool = Inl (HashCollisionError k)"
proof (cases "ConsistentHashStrategy_new pool")
  case (Inl e)
  with new_ring_Inl [OF Inl] show ?thesis by auto
next
  case (Inr st)
  with duplicate_names_not_distinct [OF assms] show ?thesis by (simp add: new_ring_Inr_iff)
qed

lemma duplicate_names_collide_witness:
  "\<exists>k. ConsistentHashStrategy_new (example_pool True True) = Inl (HashCollisionError k)"
proof (rule duplicate_names_collide [of 0 1])
  show "service_name (example_pool True True) 0 = service_name (example_pool True True) 1"
    by (simp add: service_name_def example_pool_def)
qed simp_all

text \<open>
  C10: on a ring built for the pool, \<open>SelectService\<close> returns, without an exception and without
  changing the ring, the service of the healthy vnode nearest clockwise to the key's hash on
  the 64-bit circle; it reports \<open>PoolEmpty\<close> only for an empty pool and
  \<open>NoHealthyServices\<close> only when no service is healthy.
\<close>

theorem consistent_hash_selects_nearest:
  assumes "ring_ready st pool"
  shows "\<exists>r. CH_SelectService st pool key = Some (Inr r, st) \<and>
    (case r of
       Inl PoolEmpty \<Rightarrow> GetSize pool = 0
     | Inl NoHealthyServices \<Rightarrow> 0 < GetSize pool \<and> GetHealthyCount pool = 0
     | Inr i \<Rightarrow> nearest_healthy st pool key i)"
  by (rule CH_select_cases [OF assms])

theorem consistent_hash_selects_nearest_witness:
  "\<exists>r. CH_SelectService example_ring (example_pool True False) ''10.0.0.1'' = Some (Inr r, example_ring) \<and>
    (case r of
       Inl PoolEmpty \<Rightarrow> GetSize (example_pool True False) = 0
     | Inl NoHealthyServices \<Rightarrow> 0 < GetSize (example_pool True False) \<and> GetHealthyCount (example_pool True False) = 0
     | Inr i \<Rightarrow> nearest_healthy example_ring (example_pool True False) ''10.0.0.1'' i)"
  by (rule consistent_hash_selects_nearest [OF example_ring_ready])

text \<open>
  C9: minimal disruption. When the set of healthy services shrinks, a key keeps its service as
  long as that service stays healthy; only the keys of failed services move.
\<close>

theorem consistent_hash_minimal_disruption:
  assumes "ring_ready st pool" and "GetSize pool' = GetSize pool"
    and "CH_SelectService st pool key = Some (Inr (Inr i), st)"
    and "\<And>j. healthy_at pool' j \<Longrightarrow> healthy_at pool j" and "healthy_at pool' i"
  shows "CH_SelectService st pool' key = Some (Inr (Inr i), st)"
proof -
  have ready': "ring_ready st pool'" using assms(1,2) by (rule ch.ready_resize)
  have "nearest_healthy st pool key i" using CH_select_nearest [OF assms(1,3)] .
  then have "nearest_healthy st pool' key i" using assms(5,4) by (rule nearest_healthy_shrink)
  then show ?thesis using nearest_healthy_iff [OF ready'] by blast
qed

theorem consistent_hash_minimal_disruption_witness:
  "CH_SelectService example_ring (example_pool True False) ''10.0.0.1'' = Some (Inr (Inr 0), example_ring)"
proof -
  have "CH_SelectService example_ring (example_pool True True) ''10.0.0.1'' = Some (Inr (Inr 0), example_ring)"
    by code_simp
  moreover have "healthy_at (example_pool True False) j \<Longrightarrow> healthy_at (example_pool True True) j" for j
    unfolding example_pool_healthy by blast
  moreover have "healthy_at (example_pool True False) 0" unfolding example_pool_healthy by simp
  moreover have "GetSize (example_pool True False) = GetSize (example_pool True True)" by simp
  ultimately show ?thesis
    using consistent_hash_minimal_disruption [OF example_ring_ready] by blast
qed

end
