(* ===== verification/Async_Io.thy ===== *)
theory Async_Io
  imports Prelude
begin

text \<open>
  The vocabulary of the asynchronous components. Boost.Asio itself is not modelled: a handler
  is a function that runs when its operation completes, the outstanding operations of a
  component are kept in its state (each stands for a lambda the I/O service holds), and which
  of them completes next, and with which error code, is left to the environment. The only
  facts used of the library are that a handler runs once per initiated operation, and, where a
  theorem says so, that an operation started on a closed socket fails.
\<close>

datatype error_code = success | operation_aborted | io_error nat

text \<open>\<open>if (ec)\<close>.\<close>

definition is_error :: "error_code \<Rightarrow> bool" where
  "is_error ec \<longleftrightarrow> ec \<noteq> success"

lemma is_error_simps [simp]:
  "\<not> is_error success" "is_error operation_aborted" "is_error (io_error n)"
  by (simp_all add: is_error_def)

text \<open>
  \<open>asio::ip::make_address\<close>, which throws on text it cannot parse (\<open>None\<close>); the type of
  addresses stays abstract.
\<close>

type_synonym 'a address_parser = "string \<Rightarrow> 'a option"

lemma length_remove1_less: "x \<in> set xs \<Longrightarrow> length (remove1 x xs) < length xs"
  by (metis length_pos_if_in_set length_remove1 One_nat_def diff_less zero_less_one)

end
