(* ===== verification/Session.thy ===== *)
theory Session
  imports Service_Pool Async_Io
begin

text \<open>
  \<open>core/proxy/Session\<close>: one proxied connection. The two sockets and timers belong to the I/O
  service; what the session keeps of them is whether \<open>Shutdown\<close> has closed them, and the
  handlers that hold a \<open>shared_ptr\<close> to it. Four ghost fields log the bytes that crossed each
  socket; no definition reads them.
\<close>

section \<open>The class\<close>

definition BUFFER_SIZE :: nat where
  "BUFFER_SIZE = 8192"

text \<open>
  The lambdas: the two timers', the connection's (with the endpoint), those of the two reads,
  and those of the two writes, which send the first \<open>n\<close> bytes of the session's buffer.
\<close>

datatype 'a session_op =
    ConnectTimer
  | IdleTimer
  | Connect 'a uint16
  | ClientRead
  | BackendRead
  | BackendWrite nat
  | ClientWrite nat

text \<open>
  \<open>m_backend\<close> is the index of the referenced pool element. An entry of \<open>s_pending\<close> records
  whether the operation's socket was open when it was started or, for the wait on a timer, that it
  has not been cancelled.
\<close>

record 'a Session =
  m_backend :: nat
  m_connectTimeoutMs :: uint32
  m_idleTimeoutMs :: uint32
  m_clientBuf :: string
  m_backendBuf :: string
  m_shuttingDown :: bool
  s_clientOpen :: bool
  s_backendOpen :: bool
  s_pending :: "('a session_op \<times> bool) list"
  s_fromClient :: string
  s_toBackend :: string
  s_fromBackend :: string
  s_toClient :: string

definition Session_new :: "nat \<Rightarrow> uint32 \<Rightarrow> uint32 \<Rightarrow> 'a Session" where
  "Session_new backend connectTimeoutMs idleTimeoutMs =
     \<lparr>m_backend = backend, m_connectTimeoutMs = connectTimeoutMs, m_idleTimeoutMs = idleTimeoutMs,
      m_clientBuf = replicate BUFFER_SIZE (CHR 0x00), m_backendBuf = replicate BUFFER_SIZE (CHR 0x00),
      m_shuttingDown = False, s_clientOpen = True, s_backendOpen = False, s_pending = [],
      s_fromClient = [], s_toBackend = [], s_fromBackend = [], s_toClient = []\<rparr>"

text \<open>The destructor, on the referenced backend.\<close>

definition Session_destroy :: "'a Session \<Rightarrow> ServicePool \<Rightarrow> ServicePool throws" where
  "Session_destroy s pool = ServicePool_update pool (m_backend s) DecrementConnections"

text \<open>Starting an asynchronous operation, on a socket that is open or not.\<close>

definition initiate :: "'a session_op \<Rightarrow> bool \<Rightarrow> 'a Session \<Rightarrow> 'a Session" where
  "initiate h opened s = s\<lparr>s_pending := s_pending s @ [(h, opened)]\<rparr>"

text \<open>
  \<open>cancel\<close> of a timer, and \<open>expires_after\<close> (which cancels too) followed by \<open>async_wait\<close>.
\<close>

definition cancel_in :: "'a session_op \<Rightarrow> ('a session_op \<times> bool) list \<Rightarrow> ('a session_op \<times> bool) list" where
  "cancel_in h xs = map (\<lambda>(h', live). (h', live \<and> h' \<noteq> h)) xs"

definition cancel :: "'a session_op \<Rightarrow> 'a Session \<Rightarrow> 'a Session" where
  "cancel h s = s\<lparr>s_pending := cancel_in h (s_pending s)\<rparr>"

definition arm :: "'a session_op \<Rightarrow> 'a Session \<Rightarrow> 'a Session" where
  "arm h s = initiate h True (cancel h s)"

definition Shutdown :: "'a Session \<Rightarrow> 'a Session" where
  "Shutdown s =
     (if m_shuttingDown s then s
      else (cancel IdleTimer (cancel ConnectTimer (s\<lparr>m_shuttingDown := True\<rparr>)))
             \<lparr>s_clientOpen := False, s_backendOpen := False\<rparr>)"

text \<open>\<open>async_connect\<close> opens the backend socket.\<close>

definition ConnectToBackend ::
    "'a address_parser \<Rightarrow> ServiceState \<Rightarrow> 'a Session \<Rightarrow> 'a Session throws" where
  "ConnectToBackend make_address backend s =
     (let node = GetNode backend
      in case make_address (ServiceNode_GetIp node) of
           None \<Rightarrow> Inl SystemError
         | Some a \<Rightarrow>
             (let s = arm ConnectTimer s;
                  s = s\<lparr>s_backendOpen := True\<rparr>
              in Inr (initiate (Connect a (ServiceNode_GetPort node)) (s_backendOpen s) s)))"

definition Session_Start ::
    "'a address_parser \<Rightarrow> ServiceState \<Rightarrow> 'a Session \<Rightarrow> 'a Session throws" where
  "Session_Start make_address backend s = ConnectToBackend make_address backend s"

definition ReadFromClient :: "'a Session \<Rightarrow> 'a Session" where
  "ReadFromClient s =
     (let s = (if m_idleTimeoutMs s > 0 then arm IdleTimer s else s)
      in initiate ClientRead (s_clientOpen s) s)"

definition ReadFromBackend :: "'a Session \<Rightarrow> 'a Session" where
  "ReadFromBackend s = initiate BackendRead (s_backendOpen s) s"

definition OnConnected :: "error_code \<Rightarrow> 'a Session \<Rightarrow> 'a Session" where
  "OnConnected ec s =
     (let s = cancel ConnectTimer s
      in if is_error ec then Shutdown s else ReadFromBackend (ReadFromClient s))"

text \<open>The lambdas of the two timers, the two reads and the two writes.\<close>

definition on_timer :: "error_code \<Rightarrow> 'a Session \<Rightarrow> 'a Session" where
  "on_timer ec s = (if \<not> is_error ec then Shutdown s else s)"

definition on_client_read :: "error_code \<Rightarrow> nat \<Rightarrow> 'a Session \<Rightarrow> 'a Session" where
  "on_client_read ec bytes s =
     (if is_error ec then Shutdown s else initiate (BackendWrite bytes) (s_backendOpen s) s)"

definition on_backend_write :: "error_code \<Rightarrow> 'a Session \<Rightarrow> 'a Session" where
  "on_backend_write writeEc s = (if is_error writeEc then Shutdown s else ReadFromClient s)"

definition on_backend_read :: "error_code \<Rightarrow> nat \<Rightarrow> 'a Session \<Rightarrow> 'a Session" where
  "on_backend_read ec bytes s =
     (if is_error ec then Shutdown s else initiate (ClientWrite bytes) (s_clientOpen s) s)"

definition on_client_write :: "error_code \<Rightarrow> 'a Session \<Rightarrow> 'a Session" where
  "on_client_write writeEc s = (if is_error writeEc then Shutdown s else ReadFromBackend s)"

section \<open>Completions\<close>

text \<open>
  The I/O service completes a pending operation with an error code and the bytes it moved: a
  read has put them at the front of the buffer, a write has sent them. Then it calls the handler.
\<close>

definition session_complete ::
    "'a session_op \<times> bool \<Rightarrow> error_code \<Rightarrow> string \<Rightarrow> 'a Session \<Rightarrow> 'a Session" where
  "session_complete p ec bs s =
     (let s = s\<lparr>s_pending := remove1 p (s_pending s)\<rparr> in
      case fst p of
        ConnectTimer \<Rightarrow> on_timer ec s
      | IdleTimer \<Rightarrow> on_timer ec s
      | Connect a port \<Rightarrow> OnConnected ec s
      | ClientRead \<Rightarrow> on_client_read ec (length bs)
          (s\<lparr>m_clientBuf := bs @ drop (length bs) (m_clientBuf s), s_fromClient := s_fromClient s @ bs\<rparr>)
      | BackendRead \<Rightarrow> on_backend_read ec (length bs)
          (s\<lparr>m_backendBuf := bs @ drop (length bs) (m_backendBuf s), s_fromBackend := s_fromBackend s @ bs\<rparr>)
      | BackendWrite n \<Rightarrow> on_backend_write ec (s\<lparr>s_toBackend := s_toBackend s @ bs\<rparr>)
      | ClientWrite n \<Rightarrow> on_client_write ec (s\<lparr>s_toClient := s_toClient s @ bs\<rparr>))"

text \<open>
  What the service may report. A successful read delivers at least one byte and at most a
  buffer; a failed one delivers none. A write sends a prefix of the first \<open>n\<close> bytes of its
  buffer, all of them when it succeeds. An operation started on a closed socket fails. A wait that
  was not cancelled ends when its timer expires, without an error; a cancelled one may have expired
  before.
\<close>

fun is_wait :: "'a session_op \<Rightarrow> bool" where
  "is_wait ConnectTimer = True"
| "is_wait IdleTimer = True"
| "is_wait _ = False"

definition completion_ok ::
    "'a session_op \<times> bool \<Rightarrow> error_code \<Rightarrow> string \<Rightarrow> 'a Session \<Rightarrow> bool" where
  "completion_ok p ec bs s \<longleftrightarrow>
     (if is_wait (fst p) then snd p \<longrightarrow> \<not> is_error ec else \<not> snd p \<longrightarrow> is_error ec) \<and>
     (case fst p of
        ClientRead \<Rightarrow> (if is_error ec then bs = [] else bs \<noteq> [] \<and> length bs \<le> BUFFER_SIZE)
      | BackendRead \<Rightarrow> (if is_error ec then bs = [] else bs \<noteq> [] \<and> length bs \<le> BUFFER_SIZE)
      | BackendWrite n \<Rightarrow>
          (\<exists>k\<le>n. bs = take k (m_clientBuf s)) \<and> (\<not> is_error ec \<longrightarrow> bs = take n (m_clientBuf s))
      | ClientWrite n \<Rightarrow>
          (\<exists>k\<le>n. bs = take k (m_backendBuf s)) \<and> (\<not> is_error ec \<longrightarrow> bs = take n (m_backendBuf s))
      | _ \<Rightarrow> bs = [])"

type_synonym 'a session_event = "('a session_op \<times> bool) \<times> error_code \<times> string"

inductive session_step :: "'a Session \<Rightarrow> 'a session_event \<Rightarrow> 'a Session \<Rightarrow> bool" where
  session_stepI: "p \<in> set (s_pending s) \<Longrightarrow> completion_ok p ec bs s \<Longrightarrow>
     session_step s (p, ec, bs) (session_complete p ec bs s)"

inductive_cases session_stepE [elim!]: "session_step s e t"

text \<open>The state after the constructor and a \<open>Start\<close> that did not throw.\<close>

definition session_init :: "'a address_parser \<Rightarrow> 'a Session \<Rightarrow> bool" where
  "session_init make_address s \<longleftrightarrow>
     (\<exists>i ct it backend. Session_Start make_address backend (Session_new i ct it) = Inr s)"

lemmas session_handlers [handlers] =
  initiate_def cancel_def arm_def Shutdown_def ConnectToBackend_def Session_Start_def ReadFromClient_def
  ReadFromBackend_def OnConnected_def on_timer_def on_client_read_def on_backend_write_def
  on_backend_read_def on_client_write_def session_complete_def

section \<open>The relay invariant\<close>

text \<open>
  The operations of each direction, and, for a write, how much of the buffer it sends. The
  connection belongs to both directions.
\<close>

fun client_op :: "'a session_op \<Rightarrow> bool" where
  "client_op (Connect a port) = True"
| "client_op ClientRead = True"
| "client_op (BackendWrite n) = True"
| "client_op h = False"

fun backend_op :: "'a session_op \<Rightarrow> bool" where
  "backend_op (Connect a port) = True"
| "backend_op BackendRead = True"
| "backend_op (ClientWrite n) = True"
| "backend_op h = False"

fun writes_backend :: "'a session_op \<Rightarrow> nat option" where
  "writes_backend (BackendWrite n) = Some n"
| "writes_backend h = None"

fun writes_client :: "'a session_op \<Rightarrow> nat option" where
  "writes_client (ClientWrite n) = Some n"
| "writes_client h = None"

definition ops_of :: "('a session_op \<Rightarrow> bool) \<Rightarrow> ('a session_op \<times> bool) list \<Rightarrow> 'a session_op list" where
  "ops_of P xs = filter P (map fst xs)"

definition client_ops :: "'a Session \<Rightarrow> 'a session_op list" where
  "client_ops s = ops_of client_op (s_pending s)"

definition backend_ops :: "'a Session \<Rightarrow> 'a session_op list" where
  "backend_ops s = ops_of backend_op (s_pending s)"

text \<open>
  One direction: at most one operation is outstanding. While a write is, its part of the buffer
  is what has been read and not yet sent; while anything else is, everything read was sent; and
  once the direction has ended, at most one buffer of what was read is lost.
\<close>

definition direction_inv ::
    "('a session_op \<Rightarrow> nat option) \<Rightarrow> 'a session_op list \<Rightarrow> string \<Rightarrow> string \<Rightarrow> string \<Rightarrow> bool" where
  "direction_inv w ops received sent buf \<longleftrightarrow>
     (case ops of
        [] \<Rightarrow> \<exists>rest. received = sent @ rest \<and> length rest \<le> BUFFER_SIZE
      | [h] \<Rightarrow> (case w h of
                 Some n \<Rightarrow> n \<le> BUFFER_SIZE \<and> received = sent @ take n buf
               | None \<Rightarrow> received = sent)
      | _ \<Rightarrow> False)"

definition session_inv :: "'a Session \<Rightarrow> bool" where
  "session_inv s \<longleftrightarrow>
     length (m_clientBuf s) = BUFFER_SIZE \<and> length (m_backendBuf s) = BUFFER_SIZE \<and>
     s_clientOpen s = (\<not> m_shuttingDown s) \<and> s_backendOpen s = (\<not> m_shuttingDown s) \<and>
     (m_shuttingDown s \<or> length (client_ops s) = 1 \<and> length (backend_ops s) = 1) \<and>
     direction_inv writes_backend (client_ops s) (s_fromClient s) (s_toBackend s) (m_clientBuf s) \<and>
     direction_inv writes_client (backend_ops s) (s_fromBackend s) (s_toClient s) (m_backendBuf s)"

lemma direction_inv_length: "direction_inv w ops received sent buf \<Longrightarrow> length ops \<le> 1"
  by (auto simp: direction_inv_def split: list.splits)

lemma direction_inv_Nil [simp]:
  "direction_inv w [] received sent buf \<longleftrightarrow> (\<exists>rest. received = sent @ rest \<and> length rest \<le> BUFFER_SIZE)"
  by (simp add: direction_inv_def)

lemma direction_inv_single [simp]:
  "direction_inv w [h] received sent buf \<longleftrightarrow>
     (case w h of Some n \<Rightarrow> n \<le> BUFFER_SIZE \<and> received = sent @ take n buf | None \<Rightarrow> received = sent)"
  by (simp add: direction_inv_def)

lemma ops_of_simps [simp]:
  "ops_of P [] = []"
  "ops_of P (x # xs) = (if P (fst x) then fst x # ops_of P xs else ops_of P xs)"
  "ops_of P (xs @ ys) = ops_of P xs @ ops_of P ys"
  by (simp_all add: ops_of_def)

lemma ops_of_empty: "ops_of P xs = [] \<Longrightarrow> (h, l) \<in> set xs \<Longrightarrow> \<not> P h"
  by (induction xs) (auto split: if_splits)

text \<open>Cancelling a timer leaves the operations as they are.\<close>

lemma cancel_in_simps [simp]:
  "cancel_in h [] = []"
  "cancel_in h (x # xs) = (fst x, snd x \<and> fst x \<noteq> h) # cancel_in h xs"
  "cancel_in h (xs @ ys) = cancel_in h xs @ cancel_in h ys"
  "cancel_in h xs = [] \<longleftrightarrow> xs = []"
  by (simp_all add: cancel_in_def case_prod_beta)

lemma map_fst_cancel_in [simp]: "map fst (cancel_in h xs) = map fst xs"
  by (simp add: cancel_in_def case_prod_beta)

lemma ops_of_cancel_in [simp]: "ops_of P (cancel_in h xs) = ops_of P xs"
  by (simp add: ops_of_def)

text \<open>Removing a completed operation from the list of its direction, and from the other's.\<close>

lemma ops_remove_other: "\<not> P h \<Longrightarrow> ops_of P (remove1 (h, l) xs) = ops_of P xs"
  by (induction xs) auto

lemma ops_remove_own:
  assumes "(h, l) \<in> set xs" and "P h" and "length (ops_of P xs) \<le> 1"
  shows "ops_of P xs = [h] \<and> ops_of P (remove1 (h, l) xs) = []"
  using assms
proof (induction xs)
  case Nil
  then show ?case by simp
next
  case (Cons x xs)
  show ?case
  proof (cases "P (fst x)")
    case True
    with Cons.prems(3) have e: "ops_of P xs = []" by simp
    then have "(h, l) \<notin> set xs" using Cons.prems(2) ops_of_empty by blast
    with Cons.prems True e show ?thesis by auto
  next
    case False
    with Cons show ?thesis by auto
  qed
qed

lemma take_prefix_rest:
  assumes "k \<le> n" and "n \<le> m"
  shows "\<exists>rest. take n b = take k b @ rest \<and> length rest \<le> m"
proof -
  have "take n b = take k b @ take (n - k) (drop k b)"
    using assms(1) by (metis le_add_diff_inverse take_add)
  with assms show ?thesis by (intro exI [of _ "take (n - k) (drop k b)"]) simp
qed

lemma session_step_inv:
  assumes "session_inv s" and "session_step s e t"
  shows "session_inv t"
proof -
  obtain h l ec bs where e: "e = ((h, l), ec, bs)" by (cases e) auto
  with assms(2) have h: "(h, l) \<in> set (s_pending s)" and ok: "completion_ok (h, l) ec bs s"
    and t: "t = session_complete (h, l) ec bs s" by auto
  have lens: "length (client_ops s) \<le> 1" "length (backend_ops s) \<le> 1"
    using assms(1) by (auto simp: session_inv_def dest!: direction_inv_length)
  have c: "if client_op h then client_ops s = [h] \<and> ops_of client_op (remove1 (h, l) (s_pending s)) = []
     else ops_of client_op (remove1 (h, l) (s_pending s)) = client_ops s"
    using ops_remove_own [OF h, of client_op] ops_remove_other [of client_op h l] lens by (simp add: client_ops_def)
  have b: "if backend_op h then backend_ops s = [h] \<and> ops_of backend_op (remove1 (h, l) (s_pending s)) = []
     else ops_of backend_op (remove1 (h, l) (s_pending s)) = backend_ops s"
    using ops_remove_own [OF h, of backend_op] ops_remove_other [of backend_op h l] lens by (simp add: backend_ops_def)
  show ?thesis
    using assms(1) ok c b unfolding t
    by (cases h; cases "is_error ec")
       (auto simp: session_inv_def completion_ok_def handlers Let_def client_ops_def backend_ops_def
         intro: take_prefix_rest)
qed

lemma Session_Start_eq:
  "Session_Start make_address backend (Session_new i ct it) = Inr s \<longleftrightarrow>
     (\<exists>a. make_address (m_ip (m_node backend)) = Some a \<and>
        s = (Session_new i ct it)\<lparr>s_backendOpen := True,
          s_pending := [(ConnectTimer, True), (Connect a (m_port (m_node backend)), True)]\<rparr>)"
  by (auto simp: handlers accessors Let_def Session_new_def split: option.splits)

lemma session_init_inv: "session_init make_address s \<Longrightarrow> session_inv s"
  unfolding session_init_def Session_Start_eq
  by (auto simp: session_inv_def Session_new_def client_ops_def backend_ops_def)

interpretation session: inductive_invariant "session_init make_address" session_step session_inv
  for make_address :: "'a address_parser"
  by unfold_locales (fact session_init_inv, fact session_step_inv)

lemma direction_inv_in_flight:
  "direction_inv w ops received sent buf \<Longrightarrow>
   \<exists>rest. received = sent @ rest \<and> length rest \<le> BUFFER_SIZE"
  by (auto simp: direction_inv_def split: list.splits option.splits)

section \<open>After a shutdown\<close>

text \<open>
  How many completions an outstanding operation can still lead to once the sockets are closed:
  one that was started before may have succeeded already, and then starts others, which fail.
\<close>

fun op_weight :: "'a session_op \<times> bool \<Rightarrow> nat" where
  "op_weight (Connect a port, opened) = (if opened then 4 else 1)"
| "op_weight (BackendWrite n, opened) = (if opened then 3 else 1)"
| "op_weight (ClientRead, opened) = (if opened then 2 else 1)"
| "op_weight (BackendRead, opened) = (if opened then 2 else 1)"
| "op_weight (ClientWrite n, opened) = (if opened then 2 else 1)"
| "op_weight (ConnectTimer, opened) = 1"
| "op_weight (IdleTimer, opened) = 1"

definition session_weight :: "'a Session \<Rightarrow> nat" where
  "session_weight s = sum_list (map op_weight (s_pending s))"

inductive session_run :: "'a Session \<Rightarrow> 'a session_event list \<Rightarrow> 'a Session \<Rightarrow> bool" where
  session_run_nil: "session_run s [] s"
| session_run_cons: "session_step s e t \<Longrightarrow> session_run t es u \<Longrightarrow> session_run s (e # es) u"

lemma op_weight_pos: "0 < op_weight p"
  by (cases p; cases "fst p") auto

lemma sum_list_remove1:
  "p \<in> set xs \<Longrightarrow> sum_list (map f xs) = f p + sum_list (map f (remove1 p xs))" for f :: "'b \<Rightarrow> nat"
  by (simp add: sum_list_map_remove1)

lemma weight_cancel_in [simp]:
  "sum_list (map op_weight (cancel_in ConnectTimer xs)) = sum_list (map op_weight xs)"
  "sum_list (map op_weight (cancel_in IdleTimer xs)) = sum_list (map op_weight xs)"
proof -
  have "op_weight (fst x, snd x \<and> fst x \<noteq> h) = op_weight x" if "is_wait h" for x and h :: "'a session_op"
    using that by (cases x; cases "fst x"; cases h) auto
  then show "sum_list (map op_weight (cancel_in ConnectTimer xs)) = sum_list (map op_weight xs)"
    "sum_list (map op_weight (cancel_in IdleTimer xs)) = sum_list (map op_weight xs)"
    by (induction xs) simp_all
qed

lemma shutdown_step:
  assumes "m_shuttingDown s" and "\<not> s_clientOpen s" and "\<not> s_backendOpen s" and "session_step s e t"
  shows "session_weight t < session_weight s \<and> m_shuttingDown t \<and> \<not> s_clientOpen t \<and> \<not> s_backendOpen t"
proof -
  obtain h l ec bs where e: "e = ((h, l), ec, bs)" by (cases e) auto
  with assms(4) have h: "(h, l) \<in> set (s_pending s)" and ok: "completion_ok (h, l) ec bs s"
    and t: "t = session_complete (h, l) ec bs s" by auto
  have w: "session_weight s = op_weight (h, l) + sum_list (map op_weight (remove1 (h, l) (s_pending s)))"
    using sum_list_remove1 [OF h, of op_weight] by (simp add: session_weight_def)
  show ?thesis
    using assms(1-3) ok w unfolding t
    by (cases h; cases l; cases "is_error ec")
       (auto simp: session_weight_def completion_ok_def handlers Let_def)
qed

lemma shutdown_run:
  assumes "session_run s es t" and "m_shuttingDown s" and "\<not> s_clientOpen s" and "\<not> s_backendOpen s"
  shows "length es + session_weight t \<le> session_weight s \<and> m_shuttingDown t"
  using assms
proof (induction rule: session_run.induct)
  case (session_run_nil s)
  then show ?case by simp
next
  case (session_run_cons s e t es u)
  with shutdown_step [OF session_run_cons.prems session_run_cons.hyps(1)] show ?case by auto
qed

lemma session_weight_0_iff: "session_weight s = 0 \<longleftrightarrow> s_pending s = []"
  by (cases "s_pending s") (auto simp: session_weight_def op_weight_pos [THEN less_imp_neq, symmetric])

text \<open>Which completions arm the idle timer.\<close>

definition idle_waits :: "'a Session \<Rightarrow> nat" where
  "idle_waits s = length (filter (\<lambda>p. fst p = IdleTimer) (s_pending s))"

lemma filter_remove1_length_le: "length (filter P (remove1 p xs)) \<le> length (filter P xs)"
  by (induction xs) auto

lemma idle_filter_cancel_in [simp]:
  "length (filter (\<lambda>p. fst p = h) (cancel_in g xs)) = length (filter (\<lambda>p. fst p = h) xs)"
  by (induction xs) auto

lemma filter_remove1_other: "\<not> P p \<Longrightarrow> filter P (remove1 p xs) = filter P xs"
  by (induction xs) auto

section \<open>An example session\<close>

text \<open>
  A session that connects, relays two bytes to its backend and is then closed by the client: the
  states the witnesses below evaluate the properties on.
\<close>

definition demo_started :: "string Session" where
  "demo_started = (Session_new 0 5000 60000)\<lparr>s_backendOpen := True,
     s_pending := [(ConnectTimer, True), (Connect ''10.0.0.1'' 8080, True)]\<rparr>"

definition demo_connected :: "string Session" where
  "demo_connected = session_complete (Connect ''10.0.0.1'' 8080, True) success [] demo_started"

definition demo_read :: "string Session" where
  "demo_read = session_complete (ClientRead, True) success ''hi'' demo_connected"

definition demo_written :: "string Session" where
  "demo_written = session_complete (BackendWrite 2, True) success ''hi'' demo_read"

definition demo_closed :: "string Session" where
  "demo_closed = session_complete (ClientRead, True) (io_error 2) [] demo_written"

lemma demo_pending:
  "s_pending demo_started = [(ConnectTimer, True), (Connect ''10.0.0.1'' 8080, True)]"
  "s_pending demo_connected =
     [(ConnectTimer, False), (IdleTimer, True), (ClientRead, True), (BackendRead, True)]"
  "s_pending demo_read =
     [(ConnectTimer, False), (IdleTimer, True), (BackendRead, True), (BackendWrite 2, True)]"
  "s_pending demo_written =
     [(ConnectTimer, False), (IdleTimer, False), (BackendRead, True), (IdleTimer, True), (ClientRead, True)]"
  "s_pending demo_closed =
     [(ConnectTimer, False), (IdleTimer, False), (BackendRead, True), (IdleTimer, False)]"
  by (simp_all add: demo_started_def demo_connected_def demo_read_def demo_written_def demo_closed_def
      Session_new_def handlers Let_def)

lemma demo_logs:
  "s_fromClient demo_written = ''hi''" "s_toBackend demo_written = ''hi''"
  "take 2 (m_clientBuf demo_read) = ''hi''" "m_shuttingDown demo_closed" "\<not> m_shuttingDown demo_written"
  "m_idleTimeoutMs demo_read = 60000"
  by (simp_all add: demo_started_def demo_connected_def demo_read_def demo_written_def demo_closed_def
      Session_new_def handlers Let_def)

lemma demo_steps:
  "session_step demo_started ((Connect ''10.0.0.1'' 8080, True), success, []) demo_connected"
  "session_step demo_connected ((ClientRead, True), success, ''hi'') demo_read"
  "session_step demo_read ((BackendWrite 2, True), success, ''hi'') demo_written"
  "session_step demo_written ((ClientRead, True), io_error 2, []) demo_closed"
proof -
  show "session_step demo_started ((Connect ''10.0.0.1'' 8080, True), success, []) demo_connected"
    unfolding demo_connected_def by (rule session_stepI) (simp_all add: demo_pending completion_ok_def)
  show "session_step demo_connected ((ClientRead, True), success, ''hi'') demo_read"
    unfolding demo_read_def
    by (rule session_stepI) (simp_all add: demo_pending completion_ok_def BUFFER_SIZE_def)
  show "session_step demo_read ((BackendWrite 2, True), success, ''hi'') demo_written"
    unfolding demo_written_def using demo_logs(3)
    by (intro session_stepI) (auto simp: demo_pending completion_ok_def intro!: exI [of _ 2])
  show "session_step demo_written ((ClientRead, True), io_error 2, []) demo_closed"
    unfolding demo_closed_def by (rule session_stepI) (simp_all add: demo_pending completion_ok_def)
qed

lemma demo_init: "session_init Some demo_started"
proof -
  let ?backend = "ServiceState_new (ServiceNode_new ''a'' ''10.0.0.1'' 8080 1)"
  have "Session_Start Some ?backend (Session_new 0 5000 60000) = Inr demo_started"
    unfolding Session_Start_eq by (simp add: demo_started_def ServiceState_new_def accessors)
  then show ?thesis unfolding session_init_def by blast
qed

lemma demo_reach:
  "reach (session_init Some) session_step demo_written"
  "reach (session_init Some) session_step demo_closed"
proof -
  show w: "reach (session_init Some) session_step demo_written"
    using demo_steps(1-3) reach_init [of "session_init Some", OF demo_init]
    by (meson reach_step)
  show "reach (session_init Some) session_step demo_closed"
    by (rule reach_step [OF w demo_steps(4)])
qed

section \<open>Properties\<close>

text \<open>
  C3: in every reachable state of a session, what was sent to the backend is a prefix of what
  was read from the client, and the other way round: the relay neither changes, drops,
  duplicates nor reorders bytes, and never holds more than one buffer in each direction.
\<close>

theorem session_relays_in_order:
  assumes "reach (session_init make_address) session_step s"
  shows "(\<exists>rest. s_fromClient s = s_toBackend s @ rest \<and> length rest \<le> 8192) \<and>
         (\<exists>rest. s_fromBackend s = s_toClient s @ rest \<and> length rest \<le> 8192)"
  using session.reachable_inv [OF assms]
  by (auto simp: session_inv_def BUFFER_SIZE_def dest!: direction_inv_in_flight)

theorem session_relays_in_order_witness:
  "(\<exists>rest. s_fromClient demo_written = s_toBackend demo_written @ rest \<and> length rest \<le> 8192) \<and>
   (\<exists>rest. s_fromBackend demo_written = s_toClient demo_written @ rest \<and> length rest \<le> 8192) \<and>
   s_toBackend demo_written = ''hi''"
  using session_relays_in_order [OF demo_reach(1)] demo_logs(2) by blast

text \<open>
  C13: while a session is not shut down, each direction has exactly one outstanding operation
  (the connection, a read or a write), so it can neither stall nor read into a buffer that a
  write is still sending; and a session that nothing keeps alive any more has shut down.
\<close>

theorem session_never_stalls:
  assumes "reach (session_init make_address) session_step s"
  shows "(m_shuttingDown s \<or>
           length (filter client_op (map fst (s_pending s))) = 1 \<and>
           length (filter backend_op (map fst (s_pending s))) = 1) \<and>
         \<not> (\<exists>n l l'. (ClientRead, l) \<in> set (s_pending s) \<and> (BackendWrite n, l') \<in> set (s_pending s)) \<and>
         \<not> (\<exists>n l l'. (BackendRead, l) \<in> set (s_pending s) \<and> (ClientWrite n, l') \<in> set (s_pending s)) \<and>
         (s_pending s = [] \<longrightarrow> m_shuttingDown s)"
proof -
  have inv: "session_inv s" using session.reachable_inv [OF assms] .
  have single: "ops_of P (s_pending s) = [h]"
    if "length (ops_of P (s_pending s)) \<le> 1" "(h, l) \<in> set (s_pending s)" "P h" for P h l
    using ops_remove_own [OF that(2,3,1)] by simp
  have "length (ops_of client_op (s_pending s)) \<le> 1" "length (ops_of backend_op (s_pending s)) \<le> 1"
    using inv by (auto simp: session_inv_def client_ops_def backend_ops_def dest!: direction_inv_length)
  note singles = single [OF this(1)] single [OF this(2)]
  have "\<not> (\<exists>n l l'. (ClientRead, l) \<in> set (s_pending s) \<and> (BackendWrite n, l') \<in> set (s_pending s))"
    using singles(1) [of ClientRead] singles(1) [of "BackendWrite _"] by fastforce
  moreover have "\<not> (\<exists>n l l'. (BackendRead, l) \<in> set (s_pending s) \<and> (ClientWrite n, l') \<in> set (s_pending s))"
    using singles(2) [of BackendRead] singles(2) [of "ClientWrite _"] by fastforce
  moreover have "m_shuttingDown s \<or> length (filter client_op (map fst (s_pending s))) = 1 \<and>
      length (filter backend_op (map fst (s_pending s))) = 1"
    using inv by (simp only: session_inv_def client_ops_def backend_ops_def ops_of_def)
  ultimately show ?thesis by auto
qed

theorem session_never_stalls_witness:
  "length (filter client_op (map fst (s_pending demo_written))) = 1 \<and>
   length (filter backend_op (map fst (s_pending demo_written))) = 1"
  using session_never_stalls [OF demo_reach(1)] demo_logs(5) by blast

text \<open>
  C12: \<open>Shutdown\<close> is final and the session then ends: however the outstanding operations
  complete, at most \<open>session_weight\<close> handlers still run, and when that many have run nothing
  holds the session any more.
\<close>

theorem session_shutdown_drains:
  assumes "reach (session_init make_address) session_step s" and "m_shuttingDown s"
    and "session_run s es t"
  shows "m_shuttingDown t \<and> length es \<le> session_weight s \<and>
         (length es = session_weight s \<longrightarrow> s_pending t = [])"
proof -
  have "\<not> s_clientOpen s" "\<not> s_backendOpen s"
    using session.reachable_inv [OF assms(1)] assms(2) by (simp_all add: session_inv_def)
  from shutdown_run [OF assms(3,2) this] session_weight_0_iff [of t] show ?thesis by auto
qed

theorem session_shutdown_drains_witness:
  "let t = session_complete (BackendRead, True) operation_aborted [] demo_closed
   in m_shuttingDown t \<and> length [()] \<le> session_weight demo_closed"
proof -
  let ?t = "session_complete (BackendRead, True) operation_aborted [] demo_closed"
  have "session_step demo_closed ((BackendRead, True), operation_aborted, []) ?t"
    by (rule session_stepI) (simp_all add: demo_pending completion_ok_def)
  then have "session_run demo_closed [((BackendRead, True), operation_aborted, [])] ?t"
    by (rule session_run_cons) (rule session_run_nil)
  from session_shutdown_drains [OF demo_reach(2) demo_logs(4) this] show ?thesis by simp
qed

text \<open>
  C29: the end of either stream, like any other error of a socket operation, closes both sockets
  at once: a client that has only finished sending loses the rest of the response.
\<close>

theorem session_error_closes_both:
  assumes "reach (session_init make_address) session_step s" and "session_step s (p, ec, bs) t"
    and "is_error ec" and "fst p \<noteq> ConnectTimer" and "fst p \<noteq> IdleTimer"
  shows "m_shuttingDown t \<and> \<not> s_clientOpen t \<and> \<not> s_backendOpen t"
proof -
  have "session_inv t"
    using session.reachable_inv [OF reach_step [OF assms(1,2)]] .
  moreover have "m_shuttingDown t"
    using assms(2-5) by (cases "fst p") (auto simp: handlers Let_def)
  ultimately show ?thesis by (simp add: session_inv_def)
qed

theorem session_error_closes_both_witness:
  "m_shuttingDown demo_closed \<and> \<not> s_clientOpen demo_closed \<and> \<not> s_backendOpen demo_closed"
  using session_error_closes_both [OF demo_reach(1) demo_steps(4)] by simp

text \<open>
  C30: only a completed connection or a completed write to the backend waits on the idle timer
  again, and only when an idle timeout is configured. Bytes that the backend sends never do, so
  a transfer from the backend is cut off when the client stays silent for the timeout.
\<close>

theorem session_idle_timer_one_way:
  assumes "session_step s (p, ec, bs) t"
  shows "idle_waits t \<le> idle_waits s \<or>
    idle_waits t = idle_waits s + 1 \<and> ec = success \<and> 0 < m_idleTimeoutMs s \<and>
    ((\<exists>a port. fst p = Connect a port) \<or> (\<exists>n. fst p = BackendWrite n))"
proof -
  have t: "t = session_complete p ec bs s" using assms by auto
  note le = filter_remove1_length_le [of "\<lambda>p. fst p = IdleTimer" p "s_pending s"]
  show ?thesis
    using le unfolding t
    by (cases "fst p"; cases ec)
       (auto simp: idle_waits_def handlers Let_def filter_remove1_other)
qed

theorem session_idle_timer_one_way_witness:
  "idle_waits demo_written = idle_waits demo_read + 1 \<and> 0 < m_idleTimeoutMs demo_read"
  using session_idle_timer_one_way [OF demo_steps(3)] by (simp add: idle_waits_def demo_pending)

end
