(* ===== verification/Tcp_Proxy.thy ===== *)
theory Tcp_Proxy
  imports Routing Session
begin

text \<open>
  \<open>core/proxy/TcpProxy\<close>: the accept loop. The proxy shares the pool and the strategy by
  reference, so its handlers take both and return both. Each entry of \<open>p_accepts\<close> is an accept
  operation whose handler has yet to run, with whether the acceptor was open when it started.
  The proofs about the strategy use the \<open>routing_strategy\<close> contract only.
\<close>

section \<open>The class\<close>

record TcpProxy =
  p_acceptorOpen :: bool
  p_accepts :: "bool list"
  p_connectTimeoutMs :: uint32
  p_idleTimeoutMs :: uint32

text \<open>
  The constructor parses the listen address and opens, binds and listens on the acceptor; both throw on
  failure. \<open>bind\<close>: whether that succeeds, and whether \<open>Start\<close> can then set \<open>reuse_address\<close> on the open
  acceptor. That throws too, and \<open>main\<close> ends in the same way: nothing has been printed, started or
  made to wait between the two.
\<close>

definition TcpProxy_new ::
    "'a address_parser \<Rightarrow> ('a \<Rightarrow> uint16 \<Rightarrow> bool) \<Rightarrow> string \<Rightarrow> uint16 \<Rightarrow> uint32 \<Rightarrow> uint32 \<Rightarrow> TcpProxy throws" where
  "TcpProxy_new make_address bind address port connectTimeoutMs idleTimeoutMs =
     (case make_address address of
        None \<Rightarrow> Inl SystemError
      | Some a \<Rightarrow>
          if bind a port
          then Inr \<lparr>p_acceptorOpen = True, p_accepts = [],
                    p_connectTimeoutMs = connectTimeoutMs, p_idleTimeoutMs = idleTimeoutMs\<rparr>
          else Inl SystemError)"

definition AcceptNext :: "TcpProxy \<Rightarrow> TcpProxy" where
  "AcceptNext p = p\<lparr>p_accepts := p_accepts p @ [p_acceptorOpen p]\<rparr>"

definition TcpProxy_Start :: "TcpProxy \<Rightarrow> TcpProxy" where
  "TcpProxy_Start p = AcceptNext p"

definition TcpProxy_Stop :: "TcpProxy \<Rightarrow> TcpProxy" where
  "TcpProxy_Stop p = p\<lparr>p_acceptorOpen := False\<rparr>"

text \<open>
  \<open>OnAccept\<close>. \<open>remote\<close> is the accepted socket's remote address as text, or \<open>None\<close> when
  \<open>remote_endpoint\<close> throws. The result has the new session, if one was created; \<open>None\<close> is a
  routing call that never returns. When \<open>Start\<close> throws, the only owner of the session goes with
  it, and the destructor has undone the increment by the time the exception leaves the handler.
\<close>

definition OnAccept ::
    "('st \<Rightarrow> ServicePool \<Rightarrow> string \<Rightarrow> 'st selection) \<Rightarrow> 'a address_parser \<Rightarrow> string option \<Rightarrow> error_code \<Rightarrow>
     ServicePool \<Rightarrow> 'st \<Rightarrow> TcpProxy \<Rightarrow> (ServicePool \<times> 'st \<times> TcpProxy \<times> 'a Session option) throws option" where
  "OnAccept select make_address remote ec pool st p =
     (if ec = operation_aborted then Some (Inr (pool, st, p, None))
      else if is_error ec then Some (Inr (pool, st, AcceptNext p, None))
      else case remote of
        None \<Rightarrow> Some (Inl SystemError)
      | Some routingKey \<Rightarrow>
          (case select st pool routingKey of
             None \<Rightarrow> None
           | Some (Inl e, st') \<Rightarrow> Some (Inl e)
           | Some (Inr (Inl err), st') \<Rightarrow> Some (Inr (pool, st', AcceptNext p, None))
           | Some (Inr (Inr backendIdx), st') \<Rightarrow>
               Some (and_then (ServicePool_update pool backendIdx IncrementConnections) (\<lambda>pool'.
                     and_then (GetService pool' backendIdx) (\<lambda>backend.
                     and_then (Session_Start make_address backend
                       (Session_new backendIdx (p_connectTimeoutMs p) (p_idleTimeoutMs p))) (\<lambda>session.
                       Inr (pool', st', AcceptNext p, Some session)))))))"

text \<open>The I/O service completes an accept.\<close>

definition accept_complete ::
    "('st \<Rightarrow> ServicePool \<Rightarrow> string \<Rightarrow> 'st selection) \<Rightarrow> 'a address_parser \<Rightarrow> bool \<Rightarrow> string option \<Rightarrow> error_code \<Rightarrow>
     ServicePool \<Rightarrow> 'st \<Rightarrow> TcpProxy \<Rightarrow> (ServicePool \<times> 'st \<times> TcpProxy \<times> 'a Session option) throws option" where
  "accept_complete select make_address opened remote ec pool st p =
     OnAccept select make_address remote ec pool st (p\<lparr>p_accepts := remove1 opened (p_accepts p)\<rparr>)"

lemmas proxy_handlers [handlers] =
  AcceptNext_def TcpProxy_Start_def TcpProxy_Stop_def accept_complete_def

section \<open>Lemmas\<close>

lemma OnAccept_aborted [simp]:
  "OnAccept select make_address remote operation_aborted pool st p = Some (Inr (pool, st, p, None))"
  by (simp add: OnAccept_def)

lemma OnAccept_io_error [simp]:
  "OnAccept select make_address remote (io_error n) pool st p = Some (Inr (pool, st, AcceptNext p, None))"
  by (simp add: OnAccept_def)

lemma OnAccept_no_peer [simp]: "OnAccept select make_address None success pool st p = Some (Inl SystemError)"
  by (simp add: OnAccept_def)

text \<open>What an accepted connection changes in the pool: one increment.\<close>

definition with_connection :: "nat \<Rightarrow> ServicePool \<Rightarrow> ServicePool" where
  "with_connection i pool = pool\<lparr>m_services := (m_services pool)[i := IncrementConnections (m_services pool ! i)]\<rparr>"

definition started_session ::
    "'a address_parser \<Rightarrow> ServicePool \<Rightarrow> nat \<Rightarrow> TcpProxy \<Rightarrow> 'a Session throws" where
  "started_session make_address pool i p =
     Session_Start make_address (m_services pool ! i) (Session_new i (p_connectTimeoutMs p) (p_idleTimeoutMs p))"

lemma IncrementConnections_node [simp]: "m_node (IncrementConnections s) = m_node s"
  by (simp add: IncrementConnections_def)

lemma Session_Start_cong_node:
  "m_node b = m_node b' \<Longrightarrow> Session_Start make_address b s = Session_Start make_address b' s"
  by (simp add: Session_Start_def ConnectToBackend_def GetNode_def)

lemma OnAccept_selected:
  assumes "select st pool key = Some (Inr (Inr i), st')" and "i < GetSize pool"
  shows "OnAccept select make_address (Some key) success pool st p =
     Some (and_then (started_session make_address pool i p)
       (\<lambda>session. Inr (with_connection i pool, st', AcceptNext p, Some session)))"
proof -
  have "GetService (with_connection i pool) i = Inr (IncrementConnections (m_services pool ! i))"
    using assms(2) by (simp add: GetService_def with_connection_def GetSize_def)
  moreover have "Session_Start make_address (IncrementConnections (m_services pool ! i))
      (Session_new i (p_connectTimeoutMs p) (p_idleTimeoutMs p)) = started_session make_address pool i p"
    unfolding started_session_def by (rule Session_Start_cong_node) simp
  ultimately show ?thesis
    using assms by (simp add: OnAccept_def ServicePool_update_eq with_connection_def [symmetric])
qed

context routing_strategy
begin

text \<open>
  With a strategy that keeps its contract, an accepted client is either dropped because no
  service is healthy, or given to a healthy one.
\<close>

lemma OnAccept_success_cases:
  assumes "ready st pool"
  obtains (dropped) st' where "ready st' pool" "GetHealthyCount pool = 0"
      "OnAccept select make_address (Some key) success pool st p = Some (Inr (pool, st', AcceptNext p, None))"
  | (routed) i st' where "ready st' pool" "healthy_at pool i" "select st pool key = Some (Inr (Inr i), st')"
      "OnAccept select make_address (Some key) success pool st p =
         Some (and_then (started_session make_address pool i p)
           (\<lambda>session. Inr (with_connection i pool, st', AcceptNext p, Some session)))"
proof -
  obtain r st' where sel: "select st pool key = Some (Inr r, st')"
    using select_returns [OF assms] by blast
  have rdy: "ready st' pool" by (rule select_ready [OF assms sel])
  show ?thesis
  proof (cases r)
    case (Inl err)
    with select_service_iff [OF assms sel] have "GetHealthyCount pool = 0" by simp
    with rdy sel Inl show ?thesis by (intro dropped) (simp_all add: OnAccept_def)
  next
    case (Inr i)
    with select_healthy [OF assms] sel have h: "healthy_at pool i" by blast
    then have "i < GetSize pool" by (simp add: healthy_at_def)
    with sel Inr have "OnAccept select make_address (Some key) success pool st p =
        Some (and_then (started_session make_address pool i p)
          (\<lambda>session. Inr (with_connection i pool, st', AcceptNext p, Some session)))"
      by (intro OnAccept_selected) simp_all
    with rdy h sel Inr show ?thesis by (intro routed) simp_all
  qed
qed

text \<open>The call returns.\<close>

lemma OnAccept_returns:
  assumes "ready st pool"
  shows "\<exists>r. OnAccept select make_address remote ec pool st p = Some r"
proof (cases ec)
  case success
  show ?thesis
  proof (cases remote)
    case (Some key)
    from assms show ?thesis
      by (cases rule: OnAccept_success_cases [where key = key and make_address = make_address and p = p])
         (simp_all add: success Some)
  qed (simp add: success)
qed simp_all

end

end
