(* ===== verification/Config.thy ===== *)
theory Config
  imports Service_Node
begin

text \<open>
  \<open>lib/model/HealthCheckConfig\<close>, \<open>ConnectionConfig\<close> and \<open>LoadBalancerConfig\<close>: the
  configuration the serializer fills, the user interface edits and \<open>main\<close> reads.
\<close>

section \<open>Health check settings\<close>

record HealthCheckConfig =
  m_enabled :: bool
  m_intervalMs :: uint32
  m_timeoutMs :: uint32
  m_unhealthyThreshold :: uint32

definition HealthCheckConfig_default :: HealthCheckConfig where
  "HealthCheckConfig_default =
     \<lparr>m_enabled = True, m_intervalMs = 5000, m_timeoutMs = 2000, m_unhealthyThreshold = 3\<rparr>"

definition HealthCheckConfig_new :: "bool \<Rightarrow> uint32 \<Rightarrow> uint32 \<Rightarrow> uint32 \<Rightarrow> HealthCheckConfig" where
  "HealthCheckConfig_new enabled intervalMs timeoutMs unhealthyThreshold =
     \<lparr>m_enabled = enabled, m_intervalMs = intervalMs, m_timeoutMs = timeoutMs,
      m_unhealthyThreshold = unhealthyThreshold\<rparr>"

definition GetEnabled :: "HealthCheckConfig \<Rightarrow> bool" where
  "GetEnabled hc = m_enabled hc"

definition GetIntervalMs :: "HealthCheckConfig \<Rightarrow> uint32" where
  "GetIntervalMs hc = m_intervalMs hc"

definition GetTimeoutMs :: "HealthCheckConfig \<Rightarrow> uint32" where
  "GetTimeoutMs hc = m_timeoutMs hc"

definition GetUnhealthyThreshold :: "HealthCheckConfig \<Rightarrow> uint32" where
  "GetUnhealthyThreshold hc = m_unhealthyThreshold hc"

definition SetEnabled :: "bool \<Rightarrow> HealthCheckConfig \<Rightarrow> HealthCheckConfig" where
  "SetEnabled enabled hc = hc\<lparr>m_enabled := enabled\<rparr>"

definition SetIntervalMs :: "uint32 \<Rightarrow> HealthCheckConfig \<Rightarrow> HealthCheckConfig" where
  "SetIntervalMs intervalMs hc = hc\<lparr>m_intervalMs := intervalMs\<rparr>"

definition SetTimeoutMs :: "uint32 \<Rightarrow> HealthCheckConfig \<Rightarrow> HealthCheckConfig" where
  "SetTimeoutMs timeoutMs hc = hc\<lparr>m_timeoutMs := timeoutMs\<rparr>"

definition SetUnhealthyThreshold :: "uint32 \<Rightarrow> HealthCheckConfig \<Rightarrow> HealthCheckConfig" where
  "SetUnhealthyThreshold unhealthyThreshold hc = hc\<lparr>m_unhealthyThreshold := unhealthyThreshold\<rparr>"

section \<open>Connection settings\<close>

record ConnectionConfig =
  m_maxPerService :: uint32
  m_idleTimeoutMs :: uint32
  m_connectTimeoutMs :: uint32

definition ConnectionConfig_default :: ConnectionConfig where
  "ConnectionConfig_default =
     \<lparr>m_maxPerService = 1024, m_idleTimeoutMs = 30000, m_connectTimeoutMs = 5000\<rparr>"

definition ConnectionConfig_new :: "uint32 \<Rightarrow> uint32 \<Rightarrow> uint32 \<Rightarrow> ConnectionConfig" where
  "ConnectionConfig_new maxPerService idleTimeoutMs connectTimeoutMs =
     \<lparr>m_maxPerService = maxPerService, m_idleTimeoutMs = idleTimeoutMs,
      m_connectTimeoutMs = connectTimeoutMs\<rparr>"

definition GetMaxPerService :: "ConnectionConfig \<Rightarrow> uint32" where
  "GetMaxPerService conn = m_maxPerService conn"

definition GetIdleTimeoutMs :: "ConnectionConfig \<Rightarrow> uint32" where
  "GetIdleTimeoutMs conn = m_idleTimeoutMs conn"

definition GetConnectTimeoutMs :: "ConnectionConfig \<Rightarrow> uint32" where
  "GetConnectTimeoutMs conn = m_connectTimeoutMs conn"

definition SetMaxPerService :: "uint32 \<Rightarrow> ConnectionConfig \<Rightarrow> ConnectionConfig" where
  "SetMaxPerService maxPerService conn = conn\<lparr>m_maxPerService := maxPerService\<rparr>"

definition SetIdleTimeoutMs :: "uint32 \<Rightarrow> ConnectionConfig \<Rightarrow> ConnectionConfig" where
  "SetIdleTimeoutMs idleTimeoutMs conn = conn\<lparr>m_idleTimeoutMs := idleTimeoutMs\<rparr>"

definition SetConnectTimeoutMs :: "uint32 \<Rightarrow> ConnectionConfig \<Rightarrow> ConnectionConfig" where
  "SetConnectTimeoutMs connectTimeoutMs conn = conn\<lparr>m_connectTimeoutMs := connectTimeoutMs\<rparr>"

section \<open>The load balancer's configuration\<close>

record LoadBalancerConfig =
  m_lbName :: string
  m_listenAddress :: string
  m_listenPort :: uint16
  m_routingAlgorithm :: string
  m_nodes :: "ServiceNode list"
  m_healthCheck :: HealthCheckConfig
  m_connection :: ConnectionConfig

definition LoadBalancerConfig_default :: LoadBalancerConfig where
  "LoadBalancerConfig_default =
     \<lparr>m_lbName = ''my-bit-bridge-lb'', m_listenAddress = ''0.0.0.0'', m_listenPort = 8080,
      m_routingAlgorithm = ''p2c'', m_nodes = [], m_healthCheck = HealthCheckConfig_default,
      m_connection = ConnectionConfig_default\<rparr>"

definition GetName :: "LoadBalancerConfig \<Rightarrow> string" where
  "GetName c = m_lbName c"

definition GetListenAddress :: "LoadBalancerConfig \<Rightarrow> string" where
  "GetListenAddress c = m_listenAddress c"

definition GetListenPort :: "LoadBalancerConfig \<Rightarrow> uint16" where
  "GetListenPort c = m_listenPort c"

definition GetRoutingAlgorithm :: "LoadBalancerConfig \<Rightarrow> string" where
  "GetRoutingAlgorithm c = m_routingAlgorithm c"

definition GetServices :: "LoadBalancerConfig \<Rightarrow> ServiceNode list" where
  "GetServices c = m_nodes c"

definition GetHealthCheck :: "LoadBalancerConfig \<Rightarrow> HealthCheckConfig" where
  "GetHealthCheck c = m_healthCheck c"

definition GetConnection :: "LoadBalancerConfig \<Rightarrow> ConnectionConfig" where
  "GetConnection c = m_connection c"

definition SetName :: "string \<Rightarrow> LoadBalancerConfig \<Rightarrow> LoadBalancerConfig" where
  "SetName name c = c\<lparr>m_lbName := name\<rparr>"

definition SetListenAddress :: "string \<Rightarrow> LoadBalancerConfig \<Rightarrow> LoadBalancerConfig" where
  "SetListenAddress address c = c\<lparr>m_listenAddress := address\<rparr>"

definition SetListenPort :: "uint16 \<Rightarrow> LoadBalancerConfig \<Rightarrow> LoadBalancerConfig" where
  "SetListenPort port c = c\<lparr>m_listenPort := port\<rparr>"

definition SetRoutingAlgorithm :: "string \<Rightarrow> LoadBalancerConfig \<Rightarrow> LoadBalancerConfig" where
  "SetRoutingAlgorithm algorithm c = c\<lparr>m_routingAlgorithm := algorithm\<rparr>"

definition AddService :: "ServiceNode \<Rightarrow> LoadBalancerConfig \<Rightarrow> LoadBalancerConfig" where
  "AddService service c = c\<lparr>m_nodes := m_nodes c @ [service]\<rparr>"

definition ClearServices :: "LoadBalancerConfig \<Rightarrow> LoadBalancerConfig" where
  "ClearServices c = c\<lparr>m_nodes := []\<rparr>"

text \<open>\<open>vector::erase\<close> of one position; an index out of range leaves the vector alone.\<close>

definition RemoveService :: "nat \<Rightarrow> LoadBalancerConfig \<Rightarrow> LoadBalancerConfig" where
  "RemoveService index c =
     (if index < length (m_nodes c)
      then c\<lparr>m_nodes := take index (m_nodes c) @ drop (Suc index) (m_nodes c)\<rparr> else c)"

definition GetServiceCount :: "LoadBalancerConfig \<Rightarrow> nat" where
  "GetServiceCount c = length (m_nodes c)"

definition SetHealthCheck :: "HealthCheckConfig \<Rightarrow> LoadBalancerConfig \<Rightarrow> LoadBalancerConfig" where
  "SetHealthCheck healthCheck c = c\<lparr>m_healthCheck := healthCheck\<rparr>"

definition SetConnection :: "ConnectionConfig \<Rightarrow> LoadBalancerConfig \<Rightarrow> LoadBalancerConfig" where
  "SetConnection connection c = c\<lparr>m_connection := connection\<rparr>"

section \<open>Accessor laws\<close>

lemmas HealthCheckConfig_accessors [accessors] =
  HealthCheckConfig_default_def HealthCheckConfig_new_def GetEnabled_def GetIntervalMs_def
  GetTimeoutMs_def GetUnhealthyThreshold_def SetEnabled_def SetIntervalMs_def SetTimeoutMs_def
  SetUnhealthyThreshold_def

lemmas ConnectionConfig_accessors [accessors] =
  ConnectionConfig_default_def ConnectionConfig_new_def GetMaxPerService_def GetIdleTimeoutMs_def
  GetConnectTimeoutMs_def SetMaxPerService_def SetIdleTimeoutMs_def SetConnectTimeoutMs_def

lemmas LoadBalancerConfig_accessors [accessors] =
  LoadBalancerConfig_default_def GetName_def GetListenAddress_def GetListenPort_def
  GetRoutingAlgorithm_def GetServices_def GetHealthCheck_def GetConnection_def SetName_def SetListenAddress_def SetListenPort_def
  SetRoutingAlgorithm_def AddService_def ClearServices_def GetServiceCount_def SetHealthCheck_def
  SetConnection_def

text \<open>Removing a position keeps every other service, in order.\<close>

lemma m_nodes_RemoveService:
  "m_nodes (RemoveService i c) = nths (m_nodes c) (- {i})"
proof (cases "i < length (m_nodes c)")
  case True
  let ?xs = "m_nodes c"
  have "?xs = take i ?xs @ ?xs ! i # drop (Suc i) ?xs" using True by (rule id_take_nth_drop)
  moreover have "nths (take i ?xs) (- {i}) = take i ?xs" by (rule nths_all) (use True in auto)
  moreover have "nths (drop (Suc i) ?xs) {j. Suc j + i \<noteq> i} = drop (Suc i) ?xs" by (rule nths_all) simp
  ultimately have "nths ?xs (- {i}) = take i ?xs @ drop (Suc i) ?xs"
    using True nths_append [of "take i ?xs" "?xs ! i # drop (Suc i) ?xs" "- {i}"]
    by (simp add: nths_Cons min_def add.commute)
  with True show ?thesis by (simp add: RemoveService_def)
next
  case False
  have "nths (m_nodes c) (- {i}) = m_nodes c" by (rule nths_all) (use False in auto)
  with False show ?thesis by (simp add: RemoveService_def)
qed

lemma length_RemoveService:
  "length (m_nodes (RemoveService i c)) =
     (if i < length (m_nodes c) then length (m_nodes c) - 1 else length (m_nodes c))"
  by (auto simp: RemoveService_def)

lemma RemoveService_AddService:
  "m_nodes (RemoveService (GetServiceCount c) (AddService s c)) = m_nodes c"
  by (simp add: RemoveService_def accessors)

end
