(* ===== verification/Health_Checker.thy ===== *)
theory Health_Checker
  imports Config Service_Pool Async_Io
begin

text \<open>
  \<open>core/health/HealthChecker\<close>: rounds of TCP connect probes, one per service, that drive the
  health flags of the shared pool. The handlers are the class's methods and lambdas; \<open>m_pending\<close>
  holds the handlers the I/O service has yet to call.
\<close>

section \<open>The class\<close>

text \<open>
  The three lambdas: the round timer's, a probe timer's (with the probe's number, which stands
  for the shared socket and timer it captured), and a probe connection's (with the service
  index, the probe's number and the endpoint).
\<close>

datatype 'a hc_handler =
    RoundTimer
  | ProbeTimeout nat
  | ProbeConnect nat nat 'a uint16

record 'a HealthChecker =
  m_config :: HealthCheckConfig
  m_stopped :: bool
  m_pending :: "'a hc_handler list"
  m_probes :: nat
  m_closed :: "nat list"
  m_cancelled :: "'a hc_handler list"

definition HealthChecker_new :: "HealthCheckConfig \<Rightarrow> 'a HealthChecker" where
  "HealthChecker_new config =
     \<lparr>m_config = config, m_stopped = False, m_pending = [], m_probes = 0, m_closed = [], m_cancelled = []\<rparr>"

definition ScheduleNextRound :: "'a HealthChecker \<Rightarrow> 'a HealthChecker" where
  "ScheduleNextRound hc =
     (if m_stopped hc then hc else hc\<lparr>m_pending := m_pending hc @ [RoundTimer]\<rparr>)"

definition HealthChecker_Start :: "'a HealthChecker \<Rightarrow> 'a HealthChecker" where
  "HealthChecker_Start hc = ScheduleNextRound hc"

text \<open>
  \<open>cancel\<close> of a timer: the wait on it then ends early. No timer here is armed while a wait on it is
  outstanding, so \<open>expires_after\<close> cancels nothing.
\<close>

definition cancel_wait :: "'a hc_handler \<Rightarrow> 'a HealthChecker \<Rightarrow> 'a HealthChecker" where
  "cancel_wait h hc = hc\<lparr>m_cancelled := h # m_cancelled hc\<rparr>"

definition HealthChecker_Stop :: "'a HealthChecker \<Rightarrow> 'a HealthChecker" where
  "HealthChecker_Stop hc = cancel_wait RoundTimer (hc\<lparr>m_stopped := True\<rparr>)"

text \<open>
  The probe timer is armed before the address is parsed, so a bad address throws with the timer
  already waiting.
\<close>

definition ProbeOne ::
    "'a address_parser \<Rightarrow> nat \<Rightarrow> ServicePool \<Rightarrow> 'a HealthChecker \<Rightarrow> 'a HealthChecker throws" where
  "ProbeOne make_address index pool hc =
     and_then (GetService pool index) (\<lambda>s.
       let node = GetNode s;
           n = m_probes hc;
           hc = hc\<lparr>m_probes := n + 1, m_pending := m_pending hc @ [ProbeTimeout n]\<rparr>
       in case make_address (ServiceNode_GetIp node) of
            None \<Rightarrow> Inl SystemError
          | Some a \<Rightarrow> Inr (hc\<lparr>m_pending := m_pending hc @ [ProbeConnect index n a (ServiceNode_GetPort node)]\<rparr>))"

function probe_loop ::
    "'a address_parser \<Rightarrow> nat \<Rightarrow> ServicePool \<Rightarrow> 'a HealthChecker \<Rightarrow> 'a HealthChecker throws" where
  "probe_loop make_address i pool hc =
     (if i < GetSize pool
      then (case ProbeOne make_address i pool hc of
              Inl e \<Rightarrow> Inl e
            | Inr hc' \<Rightarrow> probe_loop make_address (i + 1) pool hc')
      else Inr hc)"
  by pat_completeness auto
termination by (relation "measure (\<lambda>(make_address, i, pool, hc). GetSize pool - i)") auto

declare probe_loop.simps [simp del]

definition ProbeAll ::
    "'a address_parser \<Rightarrow> ServicePool \<Rightarrow> 'a HealthChecker \<Rightarrow> 'a HealthChecker throws" where
  "ProbeAll make_address pool hc = probe_loop make_address 0 pool hc"

text \<open>The lambda of \<open>ScheduleNextRound\<close>.\<close>

definition OnRoundTimer ::
    "'a address_parser \<Rightarrow> error_code \<Rightarrow> ServicePool \<Rightarrow> 'a HealthChecker \<Rightarrow> 'a HealthChecker throws" where
  "OnRoundTimer make_address ec pool hc =
     (if is_error ec \<or> m_stopped hc then Inr hc
      else and_then (ProbeAll make_address pool hc) (\<lambda>hc. Inr (ScheduleNextRound hc)))"

text \<open>
  \<open>OnProbeResult\<close> on the state of the probed service; the threshold, a \<open>uint32_t\<close>, is widened
  to the counter's 64 bits for the comparison.
\<close>

definition probe_result :: "HealthCheckConfig \<Rightarrow> error_code \<Rightarrow> ServiceState \<Rightarrow> ServiceState" where
  "probe_result config ec svc =
     (if is_error ec
      then let svc = IncrementFailures svc;
               thresholdReached = GetConsecutiveFailures svc \<ge> ucast (GetUnhealthyThreshold config)
           in if thresholdReached \<and> IsHealthy svc then SetHealthy False svc else svc
      else SetHealthy True (ResetFailures svc))"

definition OnProbeResult ::
    "'a HealthChecker \<Rightarrow> nat \<Rightarrow> error_code \<Rightarrow> ServicePool \<Rightarrow> ServicePool throws" where
  "OnProbeResult hc index ec pool = ServicePool_update pool index (probe_result (m_config hc) ec)"

text \<open>A probe's socket is closed by its timer, or after a successful connection.\<close>

definition close_probe :: "nat \<Rightarrow> 'a HealthChecker \<Rightarrow> 'a HealthChecker" where
  "close_probe n hc = hc\<lparr>m_closed := n # m_closed hc\<rparr>"

definition OnProbeTimeout :: "nat \<Rightarrow> error_code \<Rightarrow> 'a HealthChecker \<Rightarrow> 'a HealthChecker" where
  "OnProbeTimeout n ec hc = (if is_error ec then hc else close_probe n hc)"

definition OnProbeConnect ::
    "nat \<Rightarrow> nat \<Rightarrow> error_code \<Rightarrow> ServicePool \<Rightarrow> 'a HealthChecker \<Rightarrow> (ServicePool \<times> 'a HealthChecker) throws" where
  "OnProbeConnect index n ec pool hc =
     (let hc = cancel_wait (ProbeTimeout n) hc in
      and_then (OnProbeResult hc index ec pool) (\<lambda>pool.
        Inr (pool, if is_error ec then hc else close_probe n hc)))"

text \<open>The I/O service calls a pending handler with an error code.\<close>

definition hc_complete ::
    "'a address_parser \<Rightarrow> 'a hc_handler \<Rightarrow> error_code \<Rightarrow> ServicePool \<Rightarrow> 'a HealthChecker \<Rightarrow>
     (ServicePool \<times> 'a HealthChecker) throws" where
  "hc_complete make_address h ec pool hc =
     (let hc = hc\<lparr>m_pending := remove1 h (m_pending hc)\<rparr> in
      case h of
        RoundTimer \<Rightarrow> and_then (OnRoundTimer make_address ec pool hc) (\<lambda>hc. Inr (pool, hc))
      | ProbeTimeout n \<Rightarrow> Inr (pool, OnProbeTimeout n ec hc)
      | ProbeConnect index n a port \<Rightarrow> OnProbeConnect index n ec pool hc)"

text \<open>
  What the service may report: a wait that was not cancelled ends when its timer expires, without an
  error. A cancelled one may have expired before.
\<close>

definition hc_completion_ok :: "'a hc_handler \<Rightarrow> error_code \<Rightarrow> 'a HealthChecker \<Rightarrow> bool" where
  "hc_completion_ok h ec hc \<longleftrightarrow>
     (case h of ProbeConnect index n a port \<Rightarrow> True | _ \<Rightarrow> h \<in> set (m_cancelled hc) \<or> \<not> is_error ec)"

text \<open>
  A run of the I/O service on the checker's own operations; \<open>None\<close> when a handler in the list
  is not pending at its turn, or cannot end like this, which no run of the service produces.
\<close>

fun hc_run ::
    "'a address_parser \<Rightarrow> ('a hc_handler \<times> error_code) list \<Rightarrow> ServicePool \<Rightarrow> 'a HealthChecker \<Rightarrow>
     (ServicePool \<times> 'a HealthChecker) throws option" where
  "hc_run make_address [] pool hc = Some (Inr (pool, hc))"
| "hc_run make_address ((h, ec) # rest) pool hc =
     (if h \<in> set (m_pending hc) \<and> hc_completion_ok h ec hc
      then (case hc_complete make_address h ec pool hc of
              Inl e \<Rightarrow> Some (Inl e)
            | Inr (pool', hc') \<Rightarrow> hc_run make_address rest pool' hc')
      else None)"

lemmas hc_handlers [handlers] =
  ScheduleNextRound_def HealthChecker_Start_def HealthChecker_Stop_def cancel_wait_def OnRoundTimer_def
  OnProbeTimeout_def OnProbeConnect_def hc_complete_def close_probe_def

section \<open>What a sequence of probe results means for a service\<close>

definition run_probes :: "HealthCheckConfig \<Rightarrow> error_code list \<Rightarrow> ServiceState \<Rightarrow> ServiceState" where
  "run_probes config ecs svc = foldl (\<lambda>s ec. probe_result config ec s) svc ecs"

text \<open>The specification: the number of failures since the last success.\<close>

definition trailing_failures :: "error_code list \<Rightarrow> nat" where
  "trailing_failures ecs = length (takeWhile is_error (rev ecs))"

section \<open>Lemmas\<close>

lemma unat_ucast_threshold: "unat (ucast (t :: uint32) :: size_t) = unat t"
proof -
  have "unat t < 2 ^ 64" using unsigned_less [of t, where 'a = nat] by (rule order_less_le_trans) simp
  then show ?thesis by (simp add: unsigned_ucast_eq take_bit_nat_eq_self)
qed

lemma probe_result_node [simp]: "m_node (probe_result config ec svc) = m_node svc"
  by (simp add: probe_result_def accessors Let_def)

lemma probe_result_connections [simp]:
  "m_activeConnections (probe_result config ec svc) = m_activeConnections svc"
  by (simp add: probe_result_def accessors Let_def)

lemma trailing_failures_snoc [simp]:
  "trailing_failures (ecs @ [ec]) = (if is_error ec then Suc (trailing_failures ecs) else 0)"
  by (simp add: trailing_failures_def)

lemma trailing_failures_le: "trailing_failures ecs \<le> length ecs"
  using length_takeWhile_le [of is_error "rev ecs"] by (simp add: trailing_failures_def)

lemma run_probes_snoc [simp]:
  "run_probes config (ecs @ [ec]) svc = probe_result config ec (run_probes config ecs svc)"
  by (simp add: run_probes_def)

lemma run_probes_spec:
  assumes "length ecs < 2 ^ 64" and "m_healthy svc" and "m_consecutiveFailures svc = 0"
  shows "unat (m_consecutiveFailures (run_probes config ecs svc)) = trailing_failures ecs \<and>
    (m_healthy (run_probes config ecs svc) \<longleftrightarrow>
       trailing_failures ecs = 0 \<or> trailing_failures ecs < unat (m_unhealthyThreshold config))"
  using assms(1)
proof (induction ecs rule: rev_induct)
  case Nil
  then show ?case using assms by (simp add: run_probes_def trailing_failures_def)
next
  case (snoc ec ecs)
  let ?s = "run_probes config ecs svc"
  have IH: "unat (m_consecutiveFailures ?s) = trailing_failures ecs"
    "m_healthy ?s \<longleftrightarrow> trailing_failures ecs = 0 \<or> trailing_failures ecs < unat (m_unhealthyThreshold config)"
    using snoc by auto
  have "unat (m_consecutiveFailures ?s + 1) = Suc (trailing_failures ecs)"
    using snoc.prems trailing_failures_le [of ecs] IH(1) by (simp add: unat_word_ariths)
  with IH show ?case
    by (auto simp: probe_result_def accessors Let_def word_le_nat_alt unat_ucast_threshold)
qed

lemma ProbeOne_Inr:
  "i < GetSize pool \<Longrightarrow> make_address (m_ip (m_node (m_services pool ! i))) = Some a \<Longrightarrow>
   ProbeOne make_address i pool hc =
     Inr (hc\<lparr>m_probes := m_probes hc + 1,
             m_pending := m_pending hc @ [ProbeTimeout (m_probes hc),
               ProbeConnect i (m_probes hc) a (m_port (m_node (m_services pool ! i)))]\<rparr>)"
  by (simp add: ProbeOne_def accessors Let_def)

lemma cancel_wait_simps [simp]:
  "m_config (cancel_wait h hc) = m_config hc" "m_stopped (cancel_wait h hc) = m_stopped hc"
  "m_pending (cancel_wait h hc) = m_pending hc"
  by (simp_all add: cancel_wait_def)

text \<open>Starting a round adds, for each service in order, its timer and its connection.\<close>

definition round_handlers :: "'a address_parser \<Rightarrow> ServicePool \<Rightarrow> nat \<Rightarrow> nat \<Rightarrow> 'a hc_handler list" where
  "round_handlers make_address pool n i =
     concat (map (\<lambda>j. let node = m_node (m_services pool ! j) in
        [ProbeTimeout (n + j), ProbeConnect j (n + j) (the (make_address (m_ip node))) (m_port node)])
       [i..<GetSize pool])"

lemma round_handlers_step:
  "i < GetSize pool \<Longrightarrow>
   round_handlers make_address pool n i =
     [ProbeTimeout (n + i), ProbeConnect i (n + i) (the (make_address (m_ip (m_node (m_services pool ! i)))))
        (m_port (m_node (m_services pool ! i)))] @ round_handlers make_address pool n (Suc i)"
  by (simp add: round_handlers_def upt_conv_Cons Let_def)

lemma round_handlers_end: "\<not> i < GetSize pool \<Longrightarrow> round_handlers make_address pool n i = []"
  by (simp add: round_handlers_def)

lemma probe_loop_ok:
  assumes "\<forall>j. i \<le> j \<and> j < GetSize pool \<longrightarrow> make_address (m_ip (m_node (m_services pool ! j))) \<noteq> None"
    and "m_probes hc = n + i" and "i \<le> GetSize pool"
  shows "probe_loop make_address i pool hc =
    Inr (hc\<lparr>m_probes := n + GetSize pool,
            m_pending := m_pending hc @ round_handlers make_address pool n i\<rparr>)"
  using assms
proof (induction make_address i pool hc rule: probe_loop.induct)
  case (1 make_address i pool hc)
  show ?case
  proof (cases "i < GetSize pool")
    case True
    then obtain a where a: "make_address (m_ip (m_node (m_services pool ! i))) = Some a"
      using "1.prems" by auto
    note one = ProbeOne_Inr [OF True, of make_address a hc, OF a]
    from "1.IH" [OF True one] "1.prems" True a one show ?thesis
      by (simp add: probe_loop.simps [of make_address i] round_handlers_step [OF True])
  next
    case False
    with "1.prems" have "i = GetSize pool" by simp
    moreover from this "1.prems" have "hc\<lparr>m_probes := n + GetSize pool\<rparr> = hc"
      by (intro HealthChecker.equality) simp_all
    ultimately show ?thesis
      by (simp add: probe_loop.simps [of make_address "GetSize pool"] round_handlers_end)
  qed
qed

lemma probe_loop_bad:
  assumes "i \<le> j" and "j < GetSize pool" and "make_address (m_ip (m_node (m_services pool ! j))) = None"
  shows "probe_loop make_address i pool hc = Inl SystemError"
  using assms
proof (induction make_address i pool hc rule: probe_loop.induct)
  case (1 make_address i pool hc)
  then have i: "i < GetSize pool" by simp
  show ?case
  proof (cases "make_address (m_ip (m_node (m_services pool ! i)))")
    case None
    with i show ?thesis by (simp add: probe_loop.simps [of make_address i] ProbeOne_def accessors Let_def)
  next
    case (Some a)
    with "1.prems" have "Suc i \<le> j" by (cases "i = j") auto
    with "1.IH" [OF i ProbeOne_Inr [OF i, of make_address a hc, OF Some]] "1.prems" Some i show ?thesis
      by (simp add: probe_loop.simps [of make_address i] ProbeOne_Inr)
  qed
qed

text \<open>After \<open>Stop\<close>, calling any pending handler only removes it.\<close>

lemma stopped_complete:
  assumes "m_stopped hc" and "hc_complete make_address h ec pool hc = Inr (pool', hc')"
  shows "m_stopped hc' \<and> m_pending hc' = remove1 h (m_pending hc)"
  using assms
  by (cases h) (auto simp: handlers Let_def and_then_eq_Inr_iff split: if_splits)


lemma OnRoundTimer_ok:
  assumes "\<not> m_stopped hc"
    and "\<forall>j < GetSize pool. make_address (m_ip (m_node (m_services pool ! j))) \<noteq> None"
  shows "OnRoundTimer make_address success pool hc =
    Inr (hc\<lparr>m_probes := m_probes hc + GetSize pool,
            m_pending := m_pending hc @ round_handlers make_address pool (m_probes hc) 0 @ [RoundTimer]\<rparr>)"
  using assms probe_loop_ok [of 0 pool make_address hc "m_probes hc"]
  by (simp add: OnRoundTimer_def ProbeAll_def ScheduleNextRound_def)

lemma OnRoundTimer_bad:
  assumes "\<not> m_stopped hc" and "j < GetSize pool"
    and "make_address (m_ip (m_node (m_services pool ! j))) = None"
  shows "OnRoundTimer make_address success pool hc = Inl SystemError"
  using assms probe_loop_bad [of 0 j pool make_address hc]
  by (simp add: OnRoundTimer_def ProbeAll_def)

lemma hc_run_stopped:
  assumes "m_stopped hc" and "hc_run make_address evs pool hc = Some (Inr (pool', hc'))"
  shows "length evs + length (m_pending hc') = length (m_pending hc) \<and> m_stopped hc'"
  using assms
proof (induction make_address evs pool hc rule: hc_run.induct)
  case (1 make_address pool hc)
  then show ?case by simp
next
  case (2 make_address h ec rest pool hc)
  then have h: "h \<in> set (m_pending hc)" "hc_completion_ok h ec hc" by (simp_all split: if_splits)
  with "2.prems" obtain p1 h1 where one: "hc_complete make_address h ec pool hc = Inr (p1, h1)"
    and rest: "hc_run make_address rest p1 h1 = Some (Inr (pool', hc'))"
    by (auto split: sum.splits)
  have "m_stopped h1" "m_pending h1 = remove1 h (m_pending hc)"
    using stopped_complete [OF "2.prems"(1) one] by simp_all
  with "2.IH" [OF conjI [OF h] one refl _ rest] h length_pos_if_in_set [OF h(1)] show ?case
    by (simp add: length_remove1)
qed

section \<open>Properties\<close>

text \<open>
  C11: whatever the sequence of probe results for a service that starts healthy, its failure
  counter is the number of failures since the last success, and it is marked healthy exactly
  when that streak is empty or still below the configured threshold: one success recovers it,
  and no shorter streak takes it out.
\<close>

theorem health_is_failure_streak:
  assumes "length ecs < 2 ^ 64"
  shows "unat (GetConsecutiveFailures (run_probes config ecs (ServiceState_new node))) = trailing_failures ecs \<and>
    (IsHealthy (run_probes config ecs (ServiceState_new node)) \<longleftrightarrow>
       trailing_failures ecs = 0 \<or> trailing_failures ecs < unat (GetUnhealthyThreshold config))"
  using run_probes_spec [OF assms, of "ServiceState_new node" config]
  by (simp add: ServiceState_new_def accessors)

theorem health_is_failure_streak_witness:
  "let ecs = [success, io_error 111, operation_aborted];
       st = run_probes HealthCheckConfig_default ecs (ServiceState_new ServiceNode_default)
   in unat (GetConsecutiveFailures st) = 2 \<and> IsHealthy st"
  using health_is_failure_streak [of "[success, io_error 111, operation_aborted]"
      HealthCheckConfig_default ServiceNode_default]
  by (simp add: trailing_failures_def HealthCheckConfig_default_def accessors)

text \<open>
  C31: a round that runs arms one timer and starts one connection for every service of the pool,
  in order and to the service's configured endpoint, and then arms the next round exactly once.
\<close>

theorem health_round_probes_all:
  assumes "\<not> m_stopped hc"
    and "\<forall>j < GetSize pool. make_address (m_ip (m_node (m_services pool ! j))) \<noteq> None"
  shows "\<exists>hc'. OnRoundTimer make_address success pool hc = Inr hc' \<and>
    m_pending hc' = m_pending hc @
      concat (map (\<lambda>j. let node = m_node (m_services pool ! j); n = m_probes hc + j in
          [ProbeTimeout n, ProbeConnect j n (the (make_address (m_ip node))) (m_port node)])
        [0..<GetSize pool]) @ [RoundTimer]"
  using OnRoundTimer_ok [OF assms] by (simp add: round_handlers_def Let_def)

theorem health_round_probes_all_witness:
  "\<exists>hc'. OnRoundTimer (\<lambda>s. Some s) success (ServicePool_new [ServiceNode_default])
      (HealthChecker_new HealthCheckConfig_default) = Inr hc' \<and>
    m_pending hc' = [ProbeTimeout 0, ProbeConnect 0 0 [] 0, RoundTimer]"
  using health_round_probes_all [of "HealthChecker_new HealthCheckConfig_default"
      "ServicePool_new [ServiceNode_default]" "\<lambda>s. Some s"]
  by (simp add: HealthChecker_new_def ServicePool_new_def ServiceState_new_def GetSize_def
      ServiceNode_default_def Let_def)

text \<open>
  Nothing checks the configured addresses before the health checker uses them, so a round
  ends in an exception that leaves the event loop exactly when some service's address cannot be
  parsed.
\<close>

lemma health_round_throws_iff:
  "OnRoundTimer make_address ec pool hc = Inl SystemError \<longleftrightarrow>
     ec = success \<and> \<not> m_stopped hc \<and>
     (\<exists>j < GetSize pool. make_address (m_ip (m_node (m_services pool ! j))) = None)"
proof (cases "ec = success \<and> \<not> m_stopped hc")
  case True
  then show ?thesis
    using OnRoundTimer_ok [of hc pool make_address] OnRoundTimer_bad [of hc _ pool make_address] by fastforce
next
  case False
  then show ?thesis by (cases ec) (auto simp: OnRoundTimer_def)
qed

text \<open>
  After \<open>Stop\<close> no handler starts anything new: each completion removes one outstanding
  operation, so the checker stops keeping the event loop alive after exactly as many
  completions as were outstanding.
\<close>

lemma health_checker_drains:
  assumes "hc_run make_address evs pool (HealthChecker_Stop hc) = Some (Inr (pool', hc'))"
  shows "length evs + length (m_pending hc') = length (m_pending hc)"
  using hc_run_stopped [OF _ assms] by (simp add: HealthChecker_Stop_def cancel_wait_def)

lemma health_checker_drains_witness:
  "\<exists>hc'. hc_run (\<lambda>s. Some s) [(RoundTimer, operation_aborted)] (ServicePool_new [])
      (HealthChecker_Stop (HealthChecker_Start (HealthChecker_new HealthCheckConfig_default))) =
        Some (Inr (ServicePool_new [], hc')) \<and> m_pending hc' = ([] :: string hc_handler list)"
proof -
  let ?hc = "HealthChecker_Start (HealthChecker_new HealthCheckConfig_default) :: string HealthChecker"
  obtain hc' where run: "hc_run (\<lambda>s. Some s) [(RoundTimer, operation_aborted)] (ServicePool_new [])
      (HealthChecker_Stop ?hc) = Some (Inr (ServicePool_new [], hc'))"
    by (simp add: handlers HealthChecker_new_def hc_completion_ok_def)
  moreover have "length (m_pending ?hc) = 1" by (simp add: handlers HealthChecker_new_def)
  ultimately show ?thesis using health_checker_drains [OF run] by auto
qed

end
