(* ===== verification/Yaml_Serializer.thy ===== *)
theory Yaml_Serializer
  imports Config
begin

text \<open>
  \<open>lib/serialization/YamlConfigSerializer\<close>. yaml-cpp is third-party code, so what it does is a
  record of functions that every definition takes as an argument; the emitter is fed exactly the
  tokens \<open>Save\<close> streams into it. The hypothesis of the round trip is that yaml-cpp reads a
  document it has emitted back as the same scalars, sequences and maps.
\<close>

section \<open>The library and the file system\<close>

text \<open>What is streamed into the emitter.\<close>

datatype yaml_token =
    BeginMap | EndMap | BeginSeq | EndSeq | Key | Value
  | TextScalar string
  | NumScalar nat
  | BoolScalar bool

text \<open>
  \<open>'n\<close> are the nodes, \<open>'f\<close> the texts of documents. The conversions and \<open>operator[]\<close> may throw a
  \<open>YAML::Exception\<close>, of which the message is kept; \<open>operator[]\<close> gives \<open>None\<close> for an undefined
  node. \<open>bad_file\<close> is the message when the file cannot be opened.
\<close>

record ('n, 'f) yaml_lib =
  emit :: "yaml_token list \<Rightarrow> 'f"
  parse :: "'f \<Rightarrow> string + 'n"
  bad_file :: "string \<Rightarrow> string"
  subscript :: "'n \<Rightarrow> string \<Rightarrow> string + 'n option"
  elements :: "'n \<Rightarrow> 'n list"
  as_string :: "'n \<Rightarrow> string + string"
  as_bool :: "'n \<Rightarrow> string + bool"
  as_uint16 :: "'n \<Rightarrow> string + uint16"
  as_uint32 :: "'n \<Rightarrow> string + uint32"

text \<open>
  The operating system: whether directories can be created, whether a path can be opened for
  writing, and what a file holds after text was streamed to it (the text, unless a write fails).
\<close>

record 'f os =
  mkdirs_ok :: "string \<Rightarrow> bool"
  open_ok :: "string \<Rightarrow> bool"
  stored :: "string \<Rightarrow> 'f \<Rightarrow> 'f"

type_synonym 'f files = "string \<Rightarrow> 'f option"

text \<open>\<open>std::filesystem::path::parent_path\<close> on POSIX paths.\<close>

definition parent_path :: "string \<Rightarrow> string" where
  "parent_path p =
     (if CHR ''/'' \<notin> set p then []
      else let dir = rev (dropWhile (\<lambda>c. c = CHR ''/'') (dropWhile (\<lambda>c. c \<noteq> CHR ''/'') (rev p)))
           in if dir = [] then ''/'' else dir)"

definition has_parent_path :: "string \<Rightarrow> bool" where
  "has_parent_path p \<longleftrightarrow> parent_path p \<noteq> []"

section \<open>Save\<close>

definition entry :: "string \<Rightarrow> yaml_token \<Rightarrow> yaml_token list" where
  "entry key scalar = [Key, TextScalar key, Value, scalar]"

definition save_service :: "ServiceNode \<Rightarrow> yaml_token list" where
  "save_service service =
     [BeginMap] @
     entry ''name'' (TextScalar (ServiceNode_GetName service)) @
     entry ''ip'' (TextScalar (ServiceNode_GetIp service)) @
     entry ''port'' (NumScalar (unat (ServiceNode_GetPort service))) @
     entry ''weight'' (NumScalar (unat (ServiceNode_GetWeight service))) @
     [EndMap]"

definition save_tokens :: "LoadBalancerConfig \<Rightarrow> yaml_token list" where
  "save_tokens config =
     (let hc = GetHealthCheck config; conn = GetConnection config in
      [BeginMap] @
      entry ''name'' (TextScalar (GetName config)) @
      entry ''listenAddress'' (TextScalar (GetListenAddress config)) @
      entry ''listenPort'' (NumScalar (unat (GetListenPort config))) @
      entry ''routingAlgorithm'' (TextScalar (GetRoutingAlgorithm config)) @
      [Key, TextScalar ''healthCheck'', Value, BeginMap] @
      entry ''enabled'' (BoolScalar (GetEnabled hc)) @
      entry ''intervalMs'' (NumScalar (unat (GetIntervalMs hc))) @
      entry ''timeoutMs'' (NumScalar (unat (GetTimeoutMs hc))) @
      entry ''unhealthyThreshold'' (NumScalar (unat (GetUnhealthyThreshold hc))) @
      [EndMap] @
      [Key, TextScalar ''connection'', Value, BeginMap] @
      entry ''maxPerService'' (NumScalar (unat (GetMaxPerService conn))) @
      entry ''idleTimeoutMs'' (NumScalar (unat (GetIdleTimeoutMs conn))) @
      entry ''connectTimeoutMs'' (NumScalar (unat (GetConnectTimeoutMs conn))) @
      [EndMap] @
      [Key, TextScalar ''services'', Value, BeginSeq] @
      concat (map save_service (GetServices config)) @
      [EndSeq] @
      [EndMap])"

text \<open>
  The result is the \<open>std::expected\<close> with the files afterwards, unless \<open>create_directories\<close>
  throws: its exception is no \<open>YAML::Exception\<close>, so the handler does not catch it.
\<close>

definition Save ::
    "('n, 'f) yaml_lib \<Rightarrow> 'f os \<Rightarrow> LoadBalancerConfig \<Rightarrow> string \<Rightarrow> 'f files \<Rightarrow>
     ((string + unit) \<times> 'f files) throws" where
  "Save lib os config filePath files =
     (let out = emit lib (save_tokens config) in
      if has_parent_path filePath \<and> \<not> mkdirs_ok os (parent_path filePath) then Inl FilesystemError
      else if \<not> open_ok os filePath
      then Inr (Inl (''Failed to open file for writing: '' @ filePath), files)
      else Inr (Inr (), files(filePath \<mapsto> stored os filePath out)))"

section \<open>Load\<close>

text \<open>
  The assignments of the \<open>try\<close> block change the caller's object one after the other; an exception
  leaves what was assigned before it. A step returns the new value and the message thrown, if any.
\<close>

type_synonym 's load_step = "'s \<Rightarrow> 's \<times> string option"

definition followed_by :: "'s load_step \<Rightarrow> 's load_step \<Rightarrow> 's load_step" where
  "followed_by a b = (\<lambda>s. case a s of (s', None) \<Rightarrow> b s' | (s', Some e) \<Rightarrow> (s', Some e))"

text \<open>\<open>if (node[key]) set(node[key].as<T>())\<close>.\<close>

definition set_if ::
    "('n, 'f) yaml_lib \<Rightarrow> 'n \<Rightarrow> string \<Rightarrow> ('n \<Rightarrow> string + 'v) \<Rightarrow> ('v \<Rightarrow> 's \<Rightarrow> 's) \<Rightarrow> 's load_step" where
  "set_if lib node key conv setter = (\<lambda>s.
     case subscript lib node key of
       Inl e \<Rightarrow> (s, Some e)
     | Inr None \<Rightarrow> (s, None)
     | Inr (Some n) \<Rightarrow> (case conv n of Inl e \<Rightarrow> (s, Some e) | Inr v \<Rightarrow> (setter v s, None)))"

text \<open>\<open>node[key] ? node[key].as<T>() : dflt\<close>.\<close>

definition value_or ::
    "('n, 'f) yaml_lib \<Rightarrow> 'n \<Rightarrow> string \<Rightarrow> ('n \<Rightarrow> string + 'v) \<Rightarrow> 'v \<Rightarrow> string + 'v" where
  "value_or lib node key conv dflt =
     (case subscript lib node key of
        Inl e \<Rightarrow> Inl e
      | Inr None \<Rightarrow> Inr dflt
      | Inr (Some n) \<Rightarrow> conv n)"

definition read_health_check :: "('n, 'f) yaml_lib \<Rightarrow> 'n \<Rightarrow> HealthCheckConfig load_step" where
  "read_health_check lib hcNode =
     followed_by (set_if lib hcNode ''enabled'' (as_bool lib) SetEnabled)
    (followed_by (set_if lib hcNode ''intervalMs'' (as_uint32 lib) SetIntervalMs)
    (followed_by (set_if lib hcNode ''timeoutMs'' (as_uint32 lib) SetTimeoutMs)
       (set_if lib hcNode ''unhealthyThreshold'' (as_uint32 lib) SetUnhealthyThreshold)))"

definition read_connection :: "('n, 'f) yaml_lib \<Rightarrow> 'n \<Rightarrow> ConnectionConfig load_step" where
  "read_connection lib connNode =
     followed_by (set_if lib connNode ''maxPerService'' (as_uint32 lib) SetMaxPerService)
    (followed_by (set_if lib connNode ''idleTimeoutMs'' (as_uint32 lib) SetIdleTimeoutMs)
       (set_if lib connNode ''connectTimeoutMs'' (as_uint32 lib) SetConnectTimeoutMs))"

text \<open>A section: read into a fresh object, which is stored only when all of it could be read.\<close>

definition read_section :: "'v load_step \<Rightarrow> 'v \<Rightarrow> string + 'v" where
  "read_section reader fresh = (case reader fresh of (v, None) \<Rightarrow> Inr v | (v, Some e) \<Rightarrow> Inl e)"

definition load_sections :: "('n, 'f) yaml_lib \<Rightarrow> 'n \<Rightarrow> LoadBalancerConfig load_step" where
  "load_sections lib root =
     followed_by (set_if lib root ''healthCheck''
         (\<lambda>hcNode. read_section (read_health_check lib hcNode) HealthCheckConfig_default) SetHealthCheck)
       (set_if lib root ''connection''
         (\<lambda>connNode. read_section (read_connection lib connNode) ConnectionConfig_default) SetConnection)"

definition load_scalars :: "('n, 'f) yaml_lib \<Rightarrow> 'n \<Rightarrow> LoadBalancerConfig load_step" where
  "load_scalars lib root =
     followed_by (set_if lib root ''name'' (as_string lib) SetName)
    (followed_by (set_if lib root ''listenAddress'' (as_string lib) SetListenAddress)
    (followed_by (set_if lib root ''listenPort'' (as_uint16 lib) SetListenPort)
       (set_if lib root ''routingAlgorithm'' (as_string lib) SetRoutingAlgorithm)))"

definition read_service :: "('n, 'f) yaml_lib \<Rightarrow> 'n \<Rightarrow> string + ServiceNode" where
  "read_service lib serviceNode =
     (case value_or lib serviceNode ''name'' (as_string lib) [] of Inl e \<Rightarrow> Inl e | Inr name \<Rightarrow>
     (case value_or lib serviceNode ''ip'' (as_string lib) [] of Inl e \<Rightarrow> Inl e | Inr ip \<Rightarrow>
     (case value_or lib serviceNode ''port'' (as_uint16 lib) 0 of Inl e \<Rightarrow> Inl e | Inr port \<Rightarrow>
     (case value_or lib serviceNode ''weight'' (as_uint16 lib) 1 of Inl e \<Rightarrow> Inl e | Inr weight \<Rightarrow>
       Inr (ServiceNode_new name ip port weight)))))"

text \<open>The loop over the services.\<close>

fun load_services :: "('n, 'f) yaml_lib \<Rightarrow> 'n list \<Rightarrow> LoadBalancerConfig load_step" where
  "load_services lib [] config = (config, None)"
| "load_services lib (serviceNode # rest) config =
     (case read_service lib serviceNode of
        Inl e \<Rightarrow> (config, Some e)
      | Inr service \<Rightarrow> load_services lib rest (AddService service config))"

definition load_service_list :: "('n, 'f) yaml_lib \<Rightarrow> 'n \<Rightarrow> LoadBalancerConfig load_step" where
  "load_service_list lib root = (\<lambda>config.
     case subscript lib root ''services'' of
       Inl e \<Rightarrow> (config, Some e)
     | Inr None \<Rightarrow> (config, None)
     | Inr (Some services) \<Rightarrow> load_services lib (elements lib services) config)"

definition load_root :: "('n, 'f) yaml_lib \<Rightarrow> 'n \<Rightarrow> LoadBalancerConfig load_step" where
  "load_root lib root = (\<lambda>config.
     followed_by (load_scalars lib root) (followed_by (load_sections lib root) (load_service_list lib root))
       (ClearServices config))"

text \<open>\<open>YAML::LoadFile\<close>.\<close>

definition LoadFile :: "('n, 'f) yaml_lib \<Rightarrow> 'f files \<Rightarrow> string \<Rightarrow> string + 'n" where
  "LoadFile lib files filePath =
     (case files filePath of None \<Rightarrow> Inl (bad_file lib filePath) | Some text \<Rightarrow> parse lib text)"

text \<open>The caller's object afterwards, with the returned \<open>std::expected\<close>.\<close>

definition Load ::
    "('n, 'f) yaml_lib \<Rightarrow> 'f files \<Rightarrow> LoadBalancerConfig \<Rightarrow> string \<Rightarrow> LoadBalancerConfig \<times> (string + unit)" where
  "Load lib files config filePath =
     (case LoadFile lib files filePath of
        Inl e \<Rightarrow> (config, Inl (''YAML error: '' @ e))
      | Inr root \<Rightarrow>
          (case load_root lib root config of
             (config', None) \<Rightarrow> (config', Inr ())
           | (config', Some e) \<Rightarrow> (config', Inl (''YAML error: '' @ e))))"

section \<open>Documents as trees\<close>

text \<open>The abstract document, the tokens that stream it, and what a node says that represents it.\<close>

datatype yaml =
    YText string
  | YNum nat
  | YBool bool
  | YSeq "yaml list"
  | YMap "(string \<times> yaml) list"

lemma size_child: "y \<in> set ys \<Longrightarrow> size y < size (YSeq ys)"
  by (induction ys) auto

lemma size_entry: "kv \<in> set kvs \<Longrightarrow> size (snd kv) < size (YMap kvs)"
  by (induction kvs) (auto split: prod.splits)

function tokens_of :: "yaml \<Rightarrow> yaml_token list" where
  "tokens_of (YText s) = [TextScalar s]"
| "tokens_of (YNum n) = [NumScalar n]"
| "tokens_of (YBool b) = [BoolScalar b]"
| "tokens_of (YSeq ys) = [BeginSeq] @ concat (map tokens_of ys) @ [EndSeq]"
| "tokens_of (YMap kvs) =
     [BeginMap] @ concat (map (\<lambda>kv. [Key, TextScalar (fst kv), Value] @ tokens_of (snd kv)) kvs) @ [EndMap]"
  by pat_completeness auto
termination
  by (relation "measure size") (simp_all only: in_measure wf_measure size_child size_entry)

inductive represents :: "('n, 'f) yaml_lib \<Rightarrow> 'n \<Rightarrow> yaml \<Rightarrow> bool" for lib where
  rep_text: "as_string lib n = Inr s \<Longrightarrow> represents lib n (YText s)"
| rep_num: "(k < 2 ^ 16 \<longrightarrow> as_uint16 lib n = Inr (of_nat k)) \<Longrightarrow>
     (k < 2 ^ 32 \<longrightarrow> as_uint32 lib n = Inr (of_nat k)) \<Longrightarrow> represents lib n (YNum k)"
| rep_bool: "as_bool lib n = Inr b \<Longrightarrow> represents lib n (YBool b)"
| rep_seq: "list_all2 (represents lib) (elements lib n) ys \<Longrightarrow> represents lib n (YSeq ys)"
| rep_map: "(\<forall>key v. map_of kvs key = Some v \<longrightarrow>
       (\<exists>m. subscript lib n key = Inr (Some m) \<and> represents lib m v)) \<Longrightarrow>
     (\<forall>key. map_of kvs key = None \<longrightarrow> subscript lib n key = Inr None) \<Longrightarrow>
     represents lib n (YMap kvs)"

inductive_simps represents_text [simp]: "represents lib n (YText s)"
inductive_simps represents_num [simp]: "represents lib n (YNum k)"
inductive_simps represents_bool [simp]: "represents lib n (YBool b)"
inductive_simps represents_seq [simp]: "represents lib n (YSeq ys)"
inductive_cases represents_mapE: "represents lib n (YMap kvs)"

text \<open>
  Printable ASCII. Other bytes are excluded from the hypothesis on the library, which replaces
  those that are not UTF-8.
\<close>

definition printable :: "string \<Rightarrow> bool" where
  "printable s \<longleftrightarrow> (\<forall>c\<in>set s. 32 \<le> (of_char c :: nat) \<and> (of_char c :: nat) < 127)"

inductive plain :: "yaml \<Rightarrow> bool" where
  plain_text: "printable s \<Longrightarrow> plain (YText s)"
| plain_num: "plain (YNum n)"
| plain_bool: "plain (YBool b)"
| plain_seq: "\<forall>y\<in>set ys. plain y \<Longrightarrow> plain (YSeq ys)"
| plain_map: "distinct (map fst kvs) \<Longrightarrow> \<forall>kv\<in>set kvs. printable (fst kv) \<and> plain (snd kv) \<Longrightarrow> plain (YMap kvs)"

text \<open>The hypothesis on yaml-cpp: it reads the documents it emits.\<close>

definition reads_back :: "('n, 'f) yaml_lib \<Rightarrow> bool" where
  "reads_back lib \<longleftrightarrow>
     (\<forall>t. plain t \<longrightarrow> (\<exists>root. parse lib (emit lib (tokens_of t)) = Inr root \<and> represents lib root t))"

definition service_tree :: "ServiceNode \<Rightarrow> yaml" where
  "service_tree service = YMap
     [(''name'', YText (m_name service)), (''ip'', YText (m_ip service)),
      (''port'', YNum (unat (m_port service))), (''weight'', YNum (unat (m_weight service)))]"

definition health_check_tree :: "HealthCheckConfig \<Rightarrow> yaml" where
  "health_check_tree hc = YMap
     [(''enabled'', YBool (m_enabled hc)), (''intervalMs'', YNum (unat (m_intervalMs hc))),
      (''timeoutMs'', YNum (unat (m_timeoutMs hc))),
      (''unhealthyThreshold'', YNum (unat (m_unhealthyThreshold hc)))]"

definition connection_tree :: "ConnectionConfig \<Rightarrow> yaml" where
  "connection_tree conn = YMap
     [(''maxPerService'', YNum (unat (m_maxPerService conn))),
      (''idleTimeoutMs'', YNum (unat (m_idleTimeoutMs conn))),
      (''connectTimeoutMs'', YNum (unat (m_connectTimeoutMs conn)))]"

definition config_tree :: "LoadBalancerConfig \<Rightarrow> yaml" where
  "config_tree config = YMap
     [(''name'', YText (m_lbName config)), (''listenAddress'', YText (m_listenAddress config)),
      (''listenPort'', YNum (unat (m_listenPort config))),
      (''routingAlgorithm'', YText (m_routingAlgorithm config)),
      (''healthCheck'', health_check_tree (m_healthCheck config)),
      (''connection'', connection_tree (m_connection config)),
      (''services'', YSeq (map service_tree (m_nodes config)))]"

text \<open>All texts of a configuration are printable.\<close>

definition printable_config :: "LoadBalancerConfig \<Rightarrow> bool" where
  "printable_config config \<longleftrightarrow>
     printable (m_lbName config) \<and> printable (m_listenAddress config) \<and>
     printable (m_routingAlgorithm config) \<and>
     (\<forall>service\<in>set (m_nodes config). printable (m_name service) \<and> printable (m_ip service))"

section \<open>Lemmas\<close>

lemma save_service_tree: "save_service service = tokens_of (service_tree service)"
  by (simp add: save_service_def service_tree_def entry_def accessors)

lemma save_tokens_tree: "save_tokens config = tokens_of (config_tree config)"
  by (simp add: save_tokens_def config_tree_def health_check_tree_def connection_tree_def entry_def
      accessors Let_def save_service_tree comp_def cong: map_cong)

lemma printable_simps [simp]:
  "printable []"
  "printable (c # s) \<longleftrightarrow> 32 \<le> (of_char c :: nat) \<and> (of_char c :: nat) < 127 \<and> printable s"
  by (simp_all add: printable_def)

lemma plain_config_tree:
  assumes "printable_config config"
  shows "plain (config_tree config)"
proof -
  have service: "plain (service_tree service)" if "service \<in> set (m_nodes config)" for service
    unfolding service_tree_def using that assms
    by (intro plain_map) (auto simp: printable_config_def intro: plain.intros)
  have "plain (health_check_tree hc)" for hc
    unfolding health_check_tree_def by (intro plain_map) (auto intro: plain.intros)
  moreover have "plain (connection_tree conn)" for conn
    unfolding connection_tree_def by (intro plain_map) (auto intro: plain.intros)
  moreover have "plain (YSeq (map service_tree (m_nodes config)))"
    using service by (intro plain_seq) auto
  ultimately show ?thesis
    unfolding config_tree_def using assms
    by (intro plain_map) (auto simp: printable_config_def intro: plain.intros)
qed

text \<open>Reading a key of a represented map.\<close>

lemma represents_key:
  assumes "represents lib n (YMap kvs)" and "map_of kvs key = Some v"
  shows "\<exists>m. subscript lib n key = Inr (Some m) \<and> represents lib m v"
  using assms by (auto elim: represents_mapE)

lemma set_if_text:
  assumes "represents lib n (YMap kvs)" and "map_of kvs key = Some (YText t)"
  shows "set_if lib n key (as_string lib) setter = (\<lambda>s. (setter t s, None))"
  using represents_key [OF assms] by (auto simp: set_if_def)

lemma set_if_bool:
  assumes "represents lib n (YMap kvs)" and "map_of kvs key = Some (YBool b)"
  shows "set_if lib n key (as_bool lib) setter = (\<lambda>s. (setter b s, None))"
  using represents_key [OF assms] by (auto simp: set_if_def)

lemma set_if_uint16:
  assumes "represents lib n (YMap kvs)" and "map_of kvs key = Some (YNum (unat (w :: uint16)))"
  shows "set_if lib n key (as_uint16 lib) setter = (\<lambda>s. (setter w s, None))"
  using represents_key [OF assms] unsigned_less [of w, where 'a = nat] by (auto simp: set_if_def)

lemma set_if_uint32:
  assumes "represents lib n (YMap kvs)" and "map_of kvs key = Some (YNum (unat (w :: uint32)))"
  shows "set_if lib n key (as_uint32 lib) setter = (\<lambda>s. (setter w s, None))"
  using represents_key [OF assms] unsigned_less [of w, where 'a = nat] by (auto simp: set_if_def)

lemma value_or_text:
  assumes "represents lib n (YMap kvs)" and "map_of kvs key = Some (YText t)"
  shows "value_or lib n key (as_string lib) d = Inr t"
  using represents_key [OF assms] by (auto simp: value_or_def)

lemma value_or_uint16:
  assumes "represents lib n (YMap kvs)" and "map_of kvs key = Some (YNum (unat (w :: uint16)))"
  shows "value_or lib n key (as_uint16 lib) d = Inr w"
  using represents_key [OF assms] unsigned_less [of w, where 'a = nat] by (auto simp: value_or_def)

lemma set_if_section:
  assumes "represents lib n (YMap kvs)" and "map_of kvs key = Some y"
    and "\<And>m. represents lib m y \<Longrightarrow> conv m = Inr v"
  shows "set_if lib n key conv setter = (\<lambda>s. (setter v s, None))"
  using represents_key [OF assms(1,2)] assms(3) by (auto simp: set_if_def)

lemma read_service_tree:
  assumes "represents lib n (service_tree service)"
  shows "read_service lib n = Inr service"
proof -
  note r = assms [unfolded service_tree_def]
  show ?thesis
    by (simp add: read_service_def value_or_text [OF r, of "''name''"] value_or_text [OF r, of "''ip''"]
        value_or_uint16 [OF r, of "''port''"] value_or_uint16 [OF r, of "''weight''"] ServiceNode_new_def)
qed

lemma read_health_check_tree:
  assumes "represents lib n (health_check_tree hc)"
  shows "read_section (read_health_check lib n) HealthCheckConfig_default = Inr hc"
proof -
  note r = assms [unfolded health_check_tree_def]
  show ?thesis
    by (simp add: read_section_def read_health_check_def followed_by_def accessors
        set_if_bool [OF r, of "''enabled''"] set_if_uint32 [OF r, of "''intervalMs''"]
        set_if_uint32 [OF r, of "''timeoutMs''"] set_if_uint32 [OF r, of "''unhealthyThreshold''"])
qed

lemma read_connection_tree:
  assumes "represents lib n (connection_tree conn)"
  shows "read_section (read_connection lib n) ConnectionConfig_default = Inr conn"
proof -
  note r = assms [unfolded connection_tree_def]
  show ?thesis
    by (simp add: read_section_def read_connection_def followed_by_def accessors
        set_if_uint32 [OF r, of "''maxPerService''"] set_if_uint32 [OF r, of "''idleTimeoutMs''"]
        set_if_uint32 [OF r, of "''connectTimeoutMs''"])
qed

lemma load_services_trees:
  "list_all2 (represents lib) ns (map service_tree services) \<Longrightarrow>
   load_services lib ns config = (config\<lparr>m_nodes := m_nodes config @ services\<rparr>, None)"
proof (induction services arbitrary: ns config)
  case Nil
  then show ?case by simp
next
  case (Cons service services)
  then obtain n ns' where "ns = n # ns'" "represents lib n (service_tree service)"
    "list_all2 (represents lib) ns' (map service_tree services)"
    by (auto simp: list_all2_Cons2)
  with Cons.IH [of ns'] show ?case
    by (simp add: read_service_tree AddService_def)
qed

lemma load_root_tree:
  assumes "represents lib root (config_tree config)"
  shows "load_root lib root old = (config, None)"
proof -
  note r = assms [unfolded config_tree_def]
  obtain services where s: "subscript lib root ''services'' = Inr (Some services)"
    "list_all2 (represents lib) (elements lib services) (map service_tree (m_nodes config))"
    using represents_key [OF r, of "''services''"] by auto
  show ?thesis
    by (simp add: load_root_def load_scalars_def load_sections_def load_service_list_def followed_by_def
        set_if_text [OF r, of "''name''"] set_if_text [OF r, of "''listenAddress''"]
        set_if_uint16 [OF r, of "''listenPort''"] set_if_text [OF r, of "''routingAlgorithm''"]
        set_if_section [OF r, of "''healthCheck''", OF _ read_health_check_tree]
        set_if_section [OF r, of "''connection''", OF _ read_connection_tree]
        s(1) load_services_trees [OF s(2)] LoadBalancerConfig_accessors)
qed

text \<open>What the steps leave alone.\<close>

lemma load_root_ClearServices: "load_root lib root (ClearServices config) = load_root lib root config"
  by (simp add: load_root_def ClearServices_def)

section \<open>A library that reads back what it emits\<close>

text \<open>
  An instance of the parameters for the witness: documents are token lists, nodes are trees, and
  parsing keeps a stack of the collections that are still open.
\<close>

datatype frame = SeqFrame "yaml list" | MapFrame "(string \<times> yaml) list" "string option"

fun add_value :: "yaml \<Rightarrow> frame \<Rightarrow> frame" where
  "add_value v (SeqFrame ys) = SeqFrame (ys @ [v])"
| "add_value v (MapFrame kvs (Some k)) = MapFrame (kvs @ [(k, v)]) None"
| "add_value (YText k) (MapFrame kvs None) = MapFrame kvs (Some k)"
| "add_value v (MapFrame kvs None) = MapFrame kvs None"

fun parse_token :: "frame list \<Rightarrow> yaml_token \<Rightarrow> frame list" where
  "parse_token (f # st) (TextScalar s) = add_value (YText s) f # st"
| "parse_token (f # st) (NumScalar n) = add_value (YNum n) f # st"
| "parse_token (f # st) (BoolScalar b) = add_value (YBool b) f # st"
| "parse_token st BeginMap = MapFrame [] None # st"
| "parse_token st BeginSeq = SeqFrame [] # st"
| "parse_token (MapFrame kvs k # f # st) EndMap = add_value (YMap kvs) f # st"
| "parse_token (SeqFrame ys # f # st) EndSeq = add_value (YSeq ys) f # st"
| "parse_token st tok = st"

fun tree_subscript :: "yaml \<Rightarrow> string \<Rightarrow> string + yaml option" where
  "tree_subscript (YMap kvs) key = Inr (map_of kvs key)"
| "tree_subscript y key = Inl ''bad subscript''"

definition tree_lib :: "(yaml, yaml_token list) yaml_lib" where
  "tree_lib = \<lparr>
     emit = id,
     parse = (\<lambda>toks. case foldl parse_token [SeqFrame []] toks of
                [SeqFrame [root]] \<Rightarrow> Inr root | _ \<Rightarrow> Inl ''parse error''),
     bad_file = (\<lambda>path. ''bad file: '' @ path),
     subscript = tree_subscript,
     elements = (\<lambda>y. case y of YSeq ys \<Rightarrow> ys | _ \<Rightarrow> []),
     as_string = (\<lambda>y. case y of YText s \<Rightarrow> Inr s | _ \<Rightarrow> Inl ''bad conversion''),
     as_bool = (\<lambda>y. case y of YBool b \<Rightarrow> Inr b | _ \<Rightarrow> Inl ''bad conversion''),
     as_uint16 = (\<lambda>y. case y of YNum n \<Rightarrow> if n < 2 ^ 16 then Inr (of_nat n) else Inl ''bad conversion''
                      | _ \<Rightarrow> Inl ''bad conversion''),
     as_uint32 = (\<lambda>y. case y of YNum n \<Rightarrow> if n < 2 ^ 32 then Inr (of_nat n) else Inl ''bad conversion''
                      | _ \<Rightarrow> Inl ''bad conversion'')\<rparr>"

fun expects_value :: "frame \<Rightarrow> bool" where
  "expects_value (SeqFrame ys) = True"
| "expects_value (MapFrame kvs k) = (k \<noteq> None)"

lemma parse_elements:
  assumes "\<And>y f st. y \<in> set ys \<Longrightarrow> expects_value f \<Longrightarrow> foldl parse_token (f # st) (tokens_of y) = add_value y f # st"
  shows "foldl parse_token (SeqFrame zs # st) (concat (map tokens_of ys)) = SeqFrame (zs @ ys) # st"
  using assms by (induction ys arbitrary: zs) auto

lemma parse_entries:
  assumes "\<And>kv f st. kv \<in> set kvs \<Longrightarrow> expects_value f \<Longrightarrow>
      foldl parse_token (f # st) (tokens_of (snd kv)) = add_value (snd kv) f # st"
  shows "foldl parse_token (MapFrame zs None # st)
      (concat (map (\<lambda>kv. [Key, TextScalar (fst kv), Value] @ tokens_of (snd kv)) kvs)) = MapFrame (zs @ kvs) None # st"
  using assms by (induction kvs arbitrary: zs) auto

lemma parse_tokens_of:
  "expects_value f \<Longrightarrow> foldl parse_token (f # st) (tokens_of t) = add_value t f # st"
proof (induction t arbitrary: f st rule: tokens_of.induct)
  case (4 ys)
  then show ?case using parse_elements [of ys "[]" "f # st"] by simp
next
  case (5 kvs)
  then show ?case using parse_entries [of kvs "[]" "f # st"] by simp
qed simp_all

lemma tree_lib_nodes [simp]:
  "subscript tree_lib = tree_subscript" "elements tree_lib (YSeq ys) = ys"
  "as_string tree_lib (YText s) = Inr s" "as_bool tree_lib (YBool b) = Inr b"
  "k < 2 ^ 16 \<Longrightarrow> as_uint16 tree_lib (YNum k) = Inr (of_nat k)"
  "k < 2 ^ 32 \<Longrightarrow> as_uint32 tree_lib (YNum k) = Inr (of_nat k)"
  by (simp_all add: tree_lib_def)

lemma tree_represents: "represents tree_lib t t"
proof (induction t rule: tokens_of.induct)
  case (4 ys)
  then show ?case by (simp add: list_all2_same)
next
  case (5 kvs)
  then have "represents tree_lib m m" if "map_of kvs key = Some m" for key m
    using that map_of_SomeD by fastforce
  then show ?case by (intro rep_map) simp_all
qed simp_all

lemma tree_lib_reads_back: "reads_back tree_lib"
proof -
  have "parse tree_lib (emit tree_lib (tokens_of t)) = Inr t" for t
    using parse_tokens_of [of "SeqFrame []" "[]" t] by (simp add: tree_lib_def)
  then show ?thesis using tree_represents unfolding reads_back_def by blast
qed

lemma Load_Save:
  assumes "reads_back lib" and "printable_config config"
    and "has_parent_path path \<longrightarrow> mkdirs_ok os (parent_path path)" and "open_ok os path"
    and "\<forall>text. stored os path text = text"
  shows "\<exists>files'. Save lib os config path files = Inr (Inr (), files') \<and>
    Load lib files' old path = (config, Inr ())"
proof -
  obtain root where root: "parse lib (emit lib (save_tokens config)) = Inr root"
    "represents lib root (config_tree config)"
    using assms(1) plain_config_tree [OF assms(2)] by (auto simp: reads_back_def save_tokens_tree)
  from load_root_tree [OF root(2), of old] root(1) assms(3-5) show ?thesis
    by (auto simp: Save_def Let_def Load_def LoadFile_def)
qed

section \<open>Properties\<close>

text \<open>
  C16: a configuration whose texts are printable survives \<open>Save\<close> followed by \<open>Load\<close>, whatever
  the object it is loaded into held before, given a library that reads back what it emits and a
  file system that stores what is written.
\<close>

theorem save_load_roundtrip:
  assumes "reads_back lib" and "printable_config config"
    and "has_parent_path path \<longrightarrow> mkdirs_ok os (parent_path path)" and "open_ok os path"
    and "\<forall>text. stored os path text = text"
  shows "\<exists>files'. Save lib os config path files = Inr (Inr (), files') \<and>
    Load lib files' old path = (config, Inr ())"
  using assms by (rule Load_Save)

theorem save_load_roundtrip_witness:
  "let config = AddService (ServiceNode_new ''web-1'' ''10.0.0.1'' 8080 1) LoadBalancerConfig_default;
       disk = \<lparr>mkdirs_ok = (\<lambda>_. True), open_ok = (\<lambda>_. True), stored = (\<lambda>_ text. text)\<rparr>
   in \<exists>files'. Save tree_lib disk config ''etc/lb.yaml'' Map.empty = Inr (Inr (), files') \<and>
        Load tree_lib files' LoadBalancerConfig_default ''etc/lb.yaml'' = (config, Inr ())"
  unfolding Let_def
  by (rule save_load_roundtrip [OF tree_lib_reads_back]) (simp_all add: printable_config_def accessors)

text \<open>
  C36: \<open>Load\<close> changes the caller's object as it goes. A file that cannot be read leaves it alone,
  but once the document has parsed the old services are gone even when the load then fails: the
  outcome is that of loading into the object without its services.
\<close>

lemma load_forgets_services:
  "(\<forall>e. LoadFile lib files path = Inl e \<longrightarrow> Load lib files config path = (config, Inl (''YAML error: '' @ e))) \<and>
   (\<forall>root. LoadFile lib files path = Inr root \<longrightarrow>
      Load lib files config path = Load lib files (ClearServices config) path)"
  by (simp add: Load_def load_root_ClearServices)

lemma load_forgets_services_witness:
  "let config = AddService (ServiceNode_new ''web-1'' ''10.0.0.1'' 8080 1) LoadBalancerConfig_default;
       doc = tokens_of (YMap [(''name'', YText ''lb''), (''listenPort'', YNum 70000)])
   in m_nodes (fst (Load tree_lib [''lb.yaml'' \<mapsto> doc] config ''lb.yaml'')) = [] \<and>
      m_lbName (fst (Load tree_lib [''lb.yaml'' \<mapsto> doc] config ''lb.yaml'')) = ''lb'' \<and>
      snd (Load tree_lib [''lb.yaml'' \<mapsto> doc] config ''lb.yaml'') = Inl ''YAML error: bad conversion''"
proof -
  let ?config = "AddService (ServiceNode_new ''web-1'' ''10.0.0.1'' 8080 1) LoadBalancerConfig_default"
  let ?doc = "tokens_of (YMap [(''name'', YText ''lb''), (''listenPort'', YNum 70000)])"
  have "\<exists>root. LoadFile tree_lib [''lb.yaml'' \<mapsto> ?doc] ''lb.yaml'' = Inr root"
    by (simp add: LoadFile_def tree_lib_def)
  then have "Load tree_lib [''lb.yaml'' \<mapsto> ?doc] ?config ''lb.yaml'' =
      Load tree_lib [''lb.yaml'' \<mapsto> ?doc] (ClearServices ?config) ''lb.yaml''"
    using load_forgets_services [of tree_lib "[''lb.yaml'' \<mapsto> ?doc]" "''lb.yaml''" ?config] by blast
  moreover have "Load tree_lib [''lb.yaml'' \<mapsto> ?doc] (ClearServices ?config) ''lb.yaml'' =
      (LoadBalancerConfig_default\<lparr>m_lbName := ''lb''\<rparr>, Inl ''YAML error: bad conversion'')"
    by (simp add: Load_def LoadFile_def tree_lib_def load_root_def load_scalars_def followed_by_def set_if_def
        accessors)
  ultimately show ?thesis by (simp add: Let_def accessors)
qed

end
