(* ===== verification/Load_Balancer.thy ===== *)
theory Load_Balancer
  imports P2C_Strategy Consistent_Hash Tcp_Proxy Health_Checker Yaml_Serializer
begin

text \<open>
  \<open>core/main.cpp\<close>: the process. \<open>main_start\<close> is everything up to \<open>ioContext.run()\<close>; after it
  the process is a step relation in which the I/O service completes one outstanding operation of
  the proxy, a session, the health checker or the signal set at a time. An exception that leaves
  a handler leaves \<open>run()\<close> and ends \<open>main\<close> with 1.
\<close>

section \<open>The strategy object\<close>

datatype strategy_object =
    UseP2C "distribution \<times> P2CStrategy"
  | UseConsistentHash ConsistentHashStrategy

text \<open>The virtual call.\<close>

fun strategy_select :: "strategy_object \<Rightarrow> ServicePool \<Rightarrow> string \<Rightarrow> strategy_object selection" where
  "strategy_select (UseP2C obj) pool key =
     map_option (map_prod id UseP2C) (p2c_object_select obj pool key)"
| "strategy_select (UseConsistentHash ring) pool key =
     map_option (map_prod id UseConsistentHash) (CH_SelectService ring pool key)"

fun strategy_ready :: "strategy_object \<Rightarrow> ServicePool \<Rightarrow> bool" where
  "strategy_ready (UseP2C obj) pool = p2c_object_ready obj pool"
| "strategy_ready (UseConsistentHash ring) pool = ring_ready ring pool"

text \<open>The map of factories; \<open>None\<close> when the algorithm is not in it.\<close>

definition strategyFactory ::
    "distribution \<Rightarrow> uint32 \<Rightarrow> ServicePool \<Rightarrow> string \<Rightarrow> strategy_object throws option" where
  "strategyFactory dist random_device pool algorithm =
     (if algorithm = ''p2c'' then Some (Inr (UseP2C (dist, P2CStrategy_new random_device)))
      else if algorithm = ''consistent-hash''
      then Some (and_then (ConsistentHashStrategy_new pool) (\<lambda>ring. Inr (UseConsistentHash ring)))
      else None)"

interpretation strategy: routing_strategy strategy_select strategy_ready
proof
  fix st st' p p' key r i
  assume ready: "strategy_ready st p"
  show "\<exists>r st'. strategy_select st p key = Some (Inr r, st')"
    using ready p2c.select_returns [of _ p key] ch.select_returns [of _ p key] by (cases st) fastforce+
  show "strategy_select st p key = Some (Inr r, st') \<Longrightarrow> strategy_ready st' p"
    using ready p2c.select_ready [of _ p key] ch.select_ready [of _ p key] by (cases st) fastforce+
  show "strategy_select st p key = Some (Inr (Inr i), st') \<Longrightarrow> healthy_at p i"
    using ready p2c.select_healthy [of _ p key] ch.select_healthy [of _ p key] by (cases st) fastforce+
  show "strategy_select st p key = Some (Inr (Inl PoolEmpty), st') \<Longrightarrow> GetSize p = 0"
    using ready p2c.select_empty [of _ p key] ch.select_empty [of _ p key] by (cases st) fastforce+
  show "strategy_select st p key = Some (Inr (Inl NoHealthyServices), st') \<Longrightarrow>
      0 < GetSize p \<and> GetHealthyCount p = 0"
    using ready p2c.select_none [of _ p key] ch.select_none [of _ p key] by (cases st) fastforce+
  show "GetSize p' = GetSize p \<Longrightarrow> strategy_ready st p'"
    using ready p2c.ready_resize [of _ p p'] ch.ready_resize [of _ p p'] by (cases st) fastforce+
qed

section \<open>Start-up\<close>

text \<open>What \<open>main\<close> gets from outside the sources.\<close>

record ('a, 'n, 'f) platform =
  pf_yaml :: "('n, 'f) yaml_lib"
  pf_files :: "'f files"
  pf_make_address :: "'a address_parser"
  pf_bind :: "'a \<Rightarrow> uint16 \<Rightarrow> bool"
  pf_dist :: distribution
  pf_random_device :: uint32

record 'a LoadBalancer =
  lb_pool :: ServicePool
  lb_strategy :: strategy_object
  lb_proxy :: TcpProxy
  lb_sessions :: "'a Session list"
  lb_checker :: "'a HealthChecker option"
  lb_signalPending :: bool

datatype 'a process = Running "'a LoadBalancer" | Exited int

definition main_run ::
    "('a, 'n, 'f) platform \<Rightarrow> LoadBalancerConfig \<Rightarrow> ServicePool \<Rightarrow> strategy_object \<Rightarrow> 'a process" where
  "main_run pf config pool strategy =
     (let conn = GetConnection config in
      case TcpProxy_new (pf_make_address pf) (pf_bind pf) (GetListenAddress config) (GetListenPort config)
             (GetConnectTimeoutMs conn) (GetIdleTimeoutMs conn) of
        Inl e \<Rightarrow> Exited 1
      | Inr proxy \<Rightarrow>
          (let hc = GetHealthCheck config;
               healthChecker = (if GetEnabled hc then Some (HealthChecker_new hc) else None)
           in Running \<lparr>lb_pool = pool, lb_strategy = strategy, lb_proxy = TcpProxy_Start proxy,
                       lb_sessions = [], lb_checker = map_option HealthChecker_Start healthChecker,
                       lb_signalPending = True\<rparr>))"

definition main_configured :: "('a, 'n, 'f) platform \<Rightarrow> LoadBalancerConfig \<Rightarrow> 'a process" where
  "main_configured pf config =
     (if GetServiceCount config = 0 then Exited 1
      else let pool = ServicePool_new (GetServices config) in
           case strategyFactory (pf_dist pf) (pf_random_device pf) pool (GetRoutingAlgorithm config) of
             None \<Rightarrow> Exited 1
           | Some (Inl e) \<Rightarrow> Exited 1
           | Some (Inr strategy) \<Rightarrow> main_run pf config pool strategy)"

definition main_start :: "('a, 'n, 'f) platform \<Rightarrow> string list \<Rightarrow> 'a process" where
  "main_start pf argv =
     (if length argv < 2 then Exited 1
      else case Load (pf_yaml pf) (pf_files pf) LoadBalancerConfig_default (argv ! 1) of
             (config, Inl msg) \<Rightarrow> Exited 1
           | (config, Inr _) \<Rightarrow> main_configured pf config)"

section \<open>The event loop\<close>

text \<open>The handler of the signal set.\<close>

definition on_signal :: "error_code \<Rightarrow> 'a LoadBalancer \<Rightarrow> 'a LoadBalancer" where
  "on_signal ec lb =
     (if is_error ec then lb
      else lb\<lparr>lb_checker := map_option HealthChecker_Stop (lb_checker lb),
              lb_proxy := TcpProxy_Stop (lb_proxy lb)\<rparr>)"

text \<open>
  After a handler of session number \<open>i\<close> left it as \<open>t\<close>: when nothing holds it any more it is
  destroyed.
\<close>

definition session_done :: "nat \<Rightarrow> 'a Session \<Rightarrow> 'a LoadBalancer \<Rightarrow> 'a LoadBalancer throws" where
  "session_done i t lb =
     (if s_pending t = []
      then and_then (Session_destroy t (lb_pool lb)) (\<lambda>pool.
             Inr (lb\<lparr>lb_pool := pool,
                     lb_sessions := take i (lb_sessions lb) @ drop (Suc i) (lb_sessions lb)\<rparr>))
      else Inr (lb\<lparr>lb_sessions := (lb_sessions lb)[i := t]\<rparr>))"

definition accept_done ::
    "ServicePool \<times> strategy_object \<times> TcpProxy \<times> 'a Session option \<Rightarrow> 'a LoadBalancer \<Rightarrow> 'a LoadBalancer" where
  "accept_done r lb = (case r of (pool, strategy, proxy, session) \<Rightarrow>
     lb\<lparr>lb_pool := pool, lb_strategy := strategy, lb_proxy := proxy,
        lb_sessions := lb_sessions lb @ (case session of None \<Rightarrow> [] | Some s \<Rightarrow> [s])\<rparr>)"

definition checker_done :: "ServicePool \<times> 'a HealthChecker \<Rightarrow> 'a LoadBalancer \<Rightarrow> 'a LoadBalancer" where
  "checker_done r lb = lb\<lparr>lb_pool := fst r, lb_checker := Some (snd r)\<rparr>"

definition process_of :: "'a LoadBalancer throws \<Rightarrow> 'a process" where
  "process_of r = (case r of Inl e \<Rightarrow> Exited 1 | Inr lb \<Rightarrow> Running lb)"

definition no_work :: "'a LoadBalancer \<Rightarrow> bool" where
  "no_work lb \<longleftrightarrow>
     p_accepts (lb_proxy lb) = [] \<and> lb_sessions lb = [] \<and> \<not> lb_signalPending lb \<and>
     (case lb_checker lb of None \<Rightarrow> True | Some hc \<Rightarrow> m_pending hc = [])"

datatype 'a lb_event =
    AcceptDone bool error_code "string option"
  | SessionDone nat "'a session_event"
  | CheckerDone "'a hc_handler" error_code
  | SignalDone error_code
  | LoopEnds

text \<open>
  An accept that was started on the closed acceptor fails; only one that was outstanding when the
  acceptor was closed can have been aborted.
\<close>

definition accept_completion_ok :: "bool \<Rightarrow> error_code \<Rightarrow> TcpProxy \<Rightarrow> bool" where
  "accept_completion_ok opened ec p \<longleftrightarrow>
     (\<not> opened \<longrightarrow> is_error ec) \<and> (ec = operation_aborted \<longrightarrow> opened \<and> \<not> p_acceptorOpen p)"

text \<open>
  An accept only succeeds while the process may open another descriptor (\<open>max_files\<close>). \<open>run()\<close> returns
  when there is no work left.
\<close>

inductive lb_step ::
    "'a address_parser \<Rightarrow> nat \<Rightarrow> 'a process \<Rightarrow> 'a lb_event \<Rightarrow> 'a process \<Rightarrow> bool"
  for make_address max_files where
  step_accept:
    "opened \<in> set (p_accepts (lb_proxy lb)) \<Longrightarrow> accept_completion_ok opened ec (lb_proxy lb) \<Longrightarrow>
     (ec = success \<longrightarrow> length (lb_sessions lb) < max_files) \<Longrightarrow>
     accept_complete strategy_select make_address opened remote ec (lb_pool lb) (lb_strategy lb) (lb_proxy lb) = Some r \<Longrightarrow>
     lb_step make_address max_files (Running lb) (AcceptDone opened ec remote)
       (process_of (and_then r (\<lambda>r. Inr (accept_done r lb))))"
| step_session:
    "i < length (lb_sessions lb) \<Longrightarrow> session_step (lb_sessions lb ! i) e t \<Longrightarrow>
     lb_step make_address max_files (Running lb) (SessionDone i e) (process_of (session_done i t lb))"
| step_checker:
    "lb_checker lb = Some hc \<Longrightarrow> h \<in> set (m_pending hc) \<Longrightarrow> hc_completion_ok h ec hc \<Longrightarrow>
     lb_step make_address max_files (Running lb) (CheckerDone h ec)
       (process_of (and_then (hc_complete make_address h ec (lb_pool lb) hc) (\<lambda>r. Inr (checker_done r lb))))"
| step_signal:
    "lb_signalPending lb \<Longrightarrow>
     lb_step make_address max_files (Running lb) (SignalDone ec)
       (Running (on_signal ec (lb\<lparr>lb_signalPending := False\<rparr>)))"
| step_end:
    "no_work lb \<Longrightarrow> lb_step make_address max_files (Running lb) LoopEnds (Exited 0)"

lemma accept_completion_ok_simps [simp]:
  "accept_completion_ok opened (io_error k) p" "accept_completion_ok True success p"
  "accept_completion_ok opened operation_aborted p \<longleftrightarrow> opened \<and> \<not> p_acceptorOpen p"
  by (auto simp: accept_completion_ok_def)

inductive_cases step_acceptE: "lb_step make_address max_files p (AcceptDone opened ec remote) q"

definition started :: "('a, 'n, 'f) platform \<Rightarrow> LoadBalancerConfig \<Rightarrow> 'a process \<Rightarrow> bool" where
  "started pf config p \<longleftrightarrow> p = main_configured pf config"

section \<open>The system invariant\<close>

definition live_on :: "nat \<Rightarrow> 'a Session list \<Rightarrow> nat" where
  "live_on i ss = length (filter (\<lambda>s. m_backend s = i) ss)"

text \<open>
  Every counter is the number of live sessions of its service. The number of sessions stays within
  the descriptors the process may open, so that no counter wraps.
\<close>

definition pool_inv :: "ServiceNode list \<Rightarrow> 'a Session list \<Rightarrow> ServicePool \<Rightarrow> bool" where
  "pool_inv nodes ss pool \<longleftrightarrow>
     map m_node (m_services pool) = nodes \<and>
     (\<forall>s\<in>set ss. m_backend s < GetSize pool) \<and>
     (\<forall>i<GetSize pool. unat (m_activeConnections (m_services pool ! i)) = live_on i ss)"

definition checker_inv :: "ServicePool \<Rightarrow> 'a HealthChecker \<Rightarrow> bool" where
  "checker_inv pool hc \<longleftrightarrow>
     (\<forall>i n a port. ProbeConnect i n a port \<in> set (m_pending hc) \<longrightarrow> i < GetSize pool)"

definition lb_inv :: "nat \<Rightarrow> ServiceNode list \<Rightarrow> 'a LoadBalancer \<Rightarrow> bool" where
  "lb_inv max_files nodes lb \<longleftrightarrow>
     pool_inv nodes (lb_sessions lb) (lb_pool lb) \<and>
     strategy_ready (lb_strategy lb) (lb_pool lb) \<and>
     length (lb_sessions lb) \<le> max_files \<and>
     (\<forall>s\<in>set (lb_sessions lb). session_inv s \<and> s_pending s \<noteq> []) \<and>
     (\<forall>hc. lb_checker lb = Some hc \<longrightarrow> checker_inv (lb_pool lb) hc)"

definition process_inv :: "nat \<Rightarrow> ServiceNode list \<Rightarrow> 'a process \<Rightarrow> bool" where
  "process_inv max_files nodes p \<longleftrightarrow> (case p of Exited n \<Rightarrow> True | Running lb \<Rightarrow> lb_inv max_files nodes lb)"

lemma process_inv_simps [simp]:
  "process_inv max_files nodes (Exited n)"
  "process_inv max_files nodes (Running lb) \<longleftrightarrow> lb_inv max_files nodes lb"
  by (simp_all add: process_inv_def)

lemma process_of_simps [simp]:
  "process_of (Inl e) = Exited 1" "process_of (Inr lb) = Running lb"
  by (simp_all add: process_of_def)

lemma live_on_simps [simp]:
  "live_on i [] = 0"
  "live_on i (s # ss) = (if m_backend s = i then Suc (live_on i ss) else live_on i ss)"
  "live_on i (ss @ ss') = live_on i ss + live_on i ss'"
  by (simp_all add: live_on_def)

lemma live_on_le: "live_on i ss \<le> length ss"
  by (simp add: live_on_def)

lemma live_on_update: "j < length ss \<Longrightarrow> m_backend t = m_backend (ss ! j) \<Longrightarrow> live_on i (ss[j := t]) = live_on i ss"
  by (induction ss arbitrary: j) (auto split: nat.splits)

lemma live_on_remove:
  "j < length ss \<Longrightarrow>
   live_on i ss = live_on i (take j ss @ drop (Suc j) ss) + (if m_backend (ss ! j) = i then 1 else 0)"
  using arg_cong [OF id_take_nth_drop [of j ss], of "live_on i"] by simp

text \<open>What the handlers do to the pool, the session's backend and the checker.\<close>

lemma session_complete_backend [simp]: "m_backend (session_complete p ec bs s) = m_backend s"
  by (cases "fst p") (simp_all add: handlers Let_def)

lemma session_step_backend: "session_step s e t \<Longrightarrow> m_backend t = m_backend s"
  by auto

lemma GetSize_list_update [simp]: "GetSize (pool\<lparr>m_services := (m_services pool)[i := f]\<rparr>) = GetSize pool"
  by (simp add: GetSize_def)

lemma GetSize_with_connection [simp]: "GetSize (with_connection i pool) = GetSize pool"
  by (simp add: with_connection_def)

lemma map_node_update:
  "m_node x = m_node (xs ! i) \<Longrightarrow> map m_node (xs[i := x]) = map m_node xs"
  by (simp add: map_update list_update_id) (metis list_update_beyond list_update_id length_map not_le nth_map)

lemma pool_inv_connect:
  assumes "pool_inv nodes ss pool" and "i < GetSize pool" and "m_backend s = i" and "Suc (length ss) < 2 ^ 64"
  shows "pool_inv nodes (ss @ [s]) (with_connection i pool)"
proof -
  have "unat (m_activeConnections (m_services pool ! i)) = live_on i ss" using assms by (simp add: pool_inv_def)
  then have "unat (m_activeConnections (m_services pool ! i) + 1) = Suc (live_on i ss)"
    using live_on_le [of i ss] assms(4) by (simp add: unat_word_ariths)
  with assms show ?thesis
    by (auto simp: pool_inv_def with_connection_def GetSize_def nth_list_update IncrementConnections_def
        map_node_update)
qed

lemma pool_inv_disconnect:
  assumes "pool_inv nodes ss pool" and "j < length ss" and "m_backend t = m_backend (ss ! j)"
  shows "\<exists>pool'. Session_destroy t pool = Inr pool' \<and> GetSize pool' = GetSize pool \<and>
    pool_inv nodes (take j ss @ drop (Suc j) ss) pool'"
proof -
  let ?i = "m_backend (ss ! j)" and ?ss = "take j ss @ drop (Suc j) ss"
  have i: "?i < GetSize pool" using assms(1,2) by (simp add: pool_inv_def)
  let ?s = "m_services pool ! ?i"
  have live: "live_on k ss = live_on k ?ss + (if ?i = k then 1 else 0)" for k
    using live_on_remove [OF assms(2)] .
  have "unat (m_activeConnections ?s) = Suc (live_on ?i ?ss)"
    using assms(1) i live [of ?i] by (simp add: pool_inv_def)
  then have "unat (m_activeConnections (DecrementConnections ?s)) = live_on ?i ?ss"
    by (simp add: unat_DecrementConnections)
  moreover have "m_node (DecrementConnections ?s) = m_node ?s" by (simp add: DecrementConnections_def Let_def)
  moreover have "set ?ss \<subseteq> set ss" by (auto dest: in_set_takeD in_set_dropD)
  ultimately have "pool_inv nodes ?ss (pool\<lparr>m_services := (m_services pool)[?i := DecrementConnections ?s]\<rparr>)"
    using assms(1) i live by (auto simp: pool_inv_def GetSize_def nth_list_update map_node_update)
  then show ?thesis
    using i assms(3) by (simp add: Session_destroy_def ServicePool_update_eq)
qed

lemma pool_inv_probe:
  assumes "pool_inv nodes ss pool" and "ServicePool_update pool i (probe_result config ec) = Inr pool'"
  shows "pool_inv nodes ss pool' \<and> GetSize pool' = GetSize pool"
  using assms
  by (auto simp: pool_inv_def ServicePool_update_Inr GetSize_def nth_list_update map_node_update)

lemma pool_inv_update_session:
  "pool_inv nodes ss pool \<Longrightarrow> j < length ss \<Longrightarrow> m_backend t = m_backend (ss ! j) \<Longrightarrow>
   pool_inv nodes (ss[j := t]) pool"
  using set_update_subset_insert [of ss j t] by (auto simp: pool_inv_def live_on_update)

text \<open>Each kind of step keeps the invariant.\<close>

lemma started_session_inv:
  assumes "started_session make_address pool i p = Inr s"
  shows "session_inv s \<and> m_backend s = i \<and> s_pending s \<noteq> []"
proof -
  have "session_init make_address s"
    using assms unfolding started_session_def session_init_def by blast
  then have "session_inv s" by (rule session_init_inv)
  moreover have "m_backend s = i \<and> s_pending s \<noteq> []"
    using assms unfolding started_session_def Session_Start_eq by (auto simp: Session_new_def)
  ultimately show ?thesis by simp
qed

lemma accept_step_inv:
  assumes inv: "lb_inv max_files nodes lb" and room: "ec = success \<longrightarrow> length (lb_sessions lb) < max_files"
    and "max_files < 2 ^ 64"
    and acc: "accept_complete strategy_select make_address opened remote ec
      (lb_pool lb) (lb_strategy lb) (lb_proxy lb) = Some r"
  shows "process_inv max_files nodes (process_of (and_then r (\<lambda>r. Inr (accept_done r lb))))"
proof -
  let ?p = "(lb_proxy lb)\<lparr>p_accepts := remove1 opened (p_accepts (lb_proxy lb))\<rparr>"
  have ready: "strategy_ready (lb_strategy lb) (lb_pool lb)" using inv by (simp add: lb_inv_def)
  show ?thesis
  proof (cases ec)
    case success
    show ?thesis
    proof (cases remote)
      case None
      with acc success show ?thesis by (auto simp: accept_complete_def)
    next
      case (Some key)
      from ready show ?thesis
      proof (cases rule: strategy.OnAccept_success_cases [where key = key and make_address = make_address and p = ?p])
        case (dropped st')
        with acc success Some inv show ?thesis by (auto simp: accept_complete_def accept_done_def lb_inv_def)
      next
        case (routed i st')
        have r: "r = and_then (started_session make_address (lb_pool lb) i ?p)
            (\<lambda>session. Inr (with_connection i (lb_pool lb), st', AcceptNext ?p, Some session))"
          using routed(4) acc success Some by (simp add: accept_complete_def)
        show ?thesis
        proof (cases "started_session make_address (lb_pool lb) i ?p")
          case (Inl e)
          with r show ?thesis by simp
        next
          case (Inr t)
          note t = started_session_inv [OF Inr]
          have i: "i < GetSize (lb_pool lb)" using routed(2) by (simp add: healthy_at_def)
          have "pool_inv nodes (lb_sessions lb @ [t]) (with_connection i (lb_pool lb))"
            using inv i t room assms(3) success by (intro pool_inv_connect) (auto simp: lb_inv_def)
          moreover have "strategy_ready st' (with_connection i (lb_pool lb))"
            using strategy.ready_resize [OF routed(1)] by simp
          ultimately show ?thesis
            using inv t room success by (auto simp: r Inr accept_done_def lb_inv_def checker_inv_def)
        qed
      qed
    qed
  next
    case operation_aborted
    with acc inv show ?thesis by (auto simp: accept_complete_def accept_done_def lb_inv_def)
  next
    case (io_error n)
    with acc inv show ?thesis by (auto simp: accept_complete_def accept_done_def lb_inv_def)
  qed
qed

lemma session_step_process_inv:
  assumes inv: "lb_inv max_files nodes lb" and i: "i < length (lb_sessions lb)"
    and step: "session_step (lb_sessions lb ! i) e t"
  shows "process_inv max_files nodes (process_of (session_done i t lb)) \<and>
    (\<exists>lb'. session_done i t lb = Inr lb')"
proof -
  note b = session_step_backend [OF step]
  have "session_inv (lb_sessions lb ! i)" using inv i by (auto simp: lb_inv_def)
  then have t: "session_inv t" using step by (rule session_step_inv)
  have pi: "pool_inv nodes (lb_sessions lb) (lb_pool lb)" using inv by (simp add: lb_inv_def)
  show ?thesis
  proof (cases "s_pending t = []")
    case True
    obtain pool' where p: "Session_destroy t (lb_pool lb) = Inr pool'" "GetSize pool' = GetSize (lb_pool lb)"
      "pool_inv nodes (take i (lb_sessions lb) @ drop (Suc i) (lb_sessions lb)) pool'"
      using pool_inv_disconnect [OF pi i b] by blast
    moreover have "strategy_ready (lb_strategy lb) pool'"
      using inv p(2) strategy.ready_resize by (auto simp: lb_inv_def)
    ultimately show ?thesis
      using inv True i
      by (auto simp: session_done_def lb_inv_def checker_inv_def dest: in_set_takeD in_set_dropD)
  next
    case False
    moreover have "\<forall>s\<in>set ((lb_sessions lb)[i := t]). session_inv s \<and> s_pending s \<noteq> []"
      using inv t False set_update_subset_insert [of "lb_sessions lb" i t] by (auto simp: lb_inv_def)
    ultimately show ?thesis
      using inv pool_inv_update_session [OF pi i b] by (auto simp: session_done_def lb_inv_def)
  qed
qed

text \<open>A completion of the health checker: an exception only from an address that does not parse.\<close>

lemma round_handlers_bound:
  "ProbeConnect i m a port \<in> set (round_handlers make_address pool n k) \<Longrightarrow> i < GetSize pool"
  by (auto simp: round_handlers_def Let_def)

lemma OnRoundTimer_Inr:
  assumes "OnRoundTimer make_address ec pool hc = Inr hc'" and "checker_inv pool hc"
  shows "checker_inv pool hc'"
proof (cases "is_error ec \<or> m_stopped hc")
  case True
  with assms show ?thesis by (simp add: OnRoundTimer_def)
next
  case False
  then have ec: "ec = success" by (simp add: is_error_def)
  have "\<forall>j < GetSize pool. make_address (m_ip (m_node (m_services pool ! j))) \<noteq> None"
    using False assms(1) OnRoundTimer_bad [of hc _ pool make_address] ec by fastforce
  with OnRoundTimer_ok [of hc pool make_address] False assms ec show ?thesis
    by (auto simp: checker_inv_def) (blast dest: round_handlers_bound)+
qed

lemma checker_inv_close [simp]: "checker_inv pool (close_probe n hc) = checker_inv pool hc"
  by (simp add: checker_inv_def close_probe_def)

lemma checker_inv_resize: "GetSize pool' = GetSize pool \<Longrightarrow> checker_inv pool' hc = checker_inv pool hc"
  by (simp add: checker_inv_def)

lemma checker_complete_inv:
  assumes "h \<in> set (m_pending hc)" and "checker_inv pool hc" and "pool_inv nodes ss pool"
  shows "(case hc_complete make_address h ec pool hc of
      Inl e \<Rightarrow> \<exists>i < GetSize pool. make_address (m_ip (m_node (m_services pool ! i))) = None
    | Inr (pool', hc') \<Rightarrow> pool_inv nodes ss pool' \<and> GetSize pool' = GetSize pool \<and> checker_inv pool' hc')"
proof -
  let ?hc = "hc\<lparr>m_pending := remove1 h (m_pending hc)\<rparr>"
  have sub: "checker_inv pool ?hc"
    using assms(2) set_remove1_subset [of h "m_pending hc"] unfolding checker_inv_def by simp blast
  show ?thesis
  proof (cases h)
    case RoundTimer
    show ?thesis
    proof (cases "OnRoundTimer make_address ec pool ?hc")
      case (Inl e)
      have "\<exists>i < GetSize pool. make_address (m_ip (m_node (m_services pool ! i))) = None"
      proof (rule ccontr)
        assume "\<not> ?thesis"
        then have "\<forall>j < GetSize pool. make_address (m_ip (m_node (m_services pool ! j))) \<noteq> None" by auto
        with OnRoundTimer_ok [of ?hc pool make_address] Inl show False
          by (cases "is_error ec \<or> m_stopped ?hc") (auto simp: OnRoundTimer_def is_error_def)
      qed
      with Inl RoundTimer show ?thesis by (simp add: hc_complete_def)
    next
      case (Inr hc')
      with OnRoundTimer_Inr [OF Inr sub] RoundTimer assms(3) show ?thesis by (simp add: hc_complete_def)
    qed
  next
    case (ProbeTimeout n)
    with sub assms(3) show ?thesis
      by (simp add: hc_complete_def OnProbeTimeout_def Let_def)
  next
    case (ProbeConnect i n a port)
    then have "i < GetSize pool" using assms(1,2) unfolding checker_inv_def by blast
    then obtain pool' where p: "ServicePool_update pool i (probe_result (m_config ?hc) ec) = Inr pool'"
      by (simp add: ServicePool_update_eq)
    note out = pool_inv_probe [OF assms(3) p]
    from out have "checker_inv pool' ?hc" using checker_inv_resize sub by blast
    moreover have "checker_inv pool' (cancel_wait k c) = checker_inv pool' c" for k and c :: "'a HealthChecker"
      by (simp add: checker_inv_def)
    ultimately show ?thesis using p out ProbeConnect
      by (simp add: hc_complete_def OnProbeConnect_def OnProbeResult_def Let_def)
  qed
qed

lemma checker_step_inv:
  assumes "lb_inv max_files nodes lb" and "lb_checker lb = Some hc" and "h \<in> set (m_pending hc)"
  shows "process_inv max_files nodes (process_of (and_then (hc_complete make_address h ec (lb_pool lb) hc)
      (\<lambda>r. Inr (checker_done r lb))))"
proof (cases "hc_complete make_address h ec (lb_pool lb) hc")
  case (Inl e)
  then show ?thesis by simp
next
  case (Inr r)
  obtain pool' hc' where r: "r = (pool', hc')" by (cases r)
  have "checker_inv (lb_pool lb) hc" "pool_inv nodes (lb_sessions lb) (lb_pool lb)"
    and ready: "strategy_ready (lb_strategy lb) (lb_pool lb)"
    using assms(1,2) by (simp_all add: lb_inv_def)
  from checker_complete_inv [OF assms(3) this(1,2), of make_address ec]
  have out: "pool_inv nodes (lb_sessions lb) pool'" "GetSize pool' = GetSize (lb_pool lb)" "checker_inv pool' hc'"
    by (simp_all add: Inr r)
  from strategy.ready_resize [OF ready out(2)] out assms(1) show ?thesis
    by (simp add: Inr r lb_inv_def checker_done_def)
qed

lemma on_signal_inv:
  assumes "lb_inv max_files nodes lb"
  shows "lb_inv max_files nodes (on_signal ec (lb\<lparr>lb_signalPending := False\<rparr>))"
  using assms
  by (cases "lb_checker lb") (auto simp: lb_inv_def on_signal_def checker_inv_def HealthChecker_Stop_def)

lemma lb_step_inv:
  assumes "process_inv max_files nodes p" and "max_files < 2 ^ 64" and "lb_step make_address max_files p e q"
  shows "process_inv max_files nodes q"
  using assms(3)
proof (cases rule: lb_step.cases)
  case (step_accept opened lb ec remote r)
  with assms accept_step_inv [of max_files nodes lb ec make_address opened remote r] show ?thesis by simp
next
  case (step_session i lb e t)
  with assms session_step_process_inv [of max_files nodes lb i e t] show ?thesis by simp
next
  case (step_checker lb hc h ec)
  with assms checker_step_inv [of max_files nodes lb hc h make_address ec] show ?thesis by simp
next
  case (step_signal lb ec)
  with assms on_signal_inv [of max_files nodes lb ec] show ?thesis by simp
next
  case (step_end lb)
  then show ?thesis by simp
qed

lemma strategyFactory_ready:
  assumes "strategyFactory dist rd pool algorithm = Some (Inr st)" and "dist_ok dist"
  shows "strategy_ready st pool"
  using assms
  by (auto simp: strategyFactory_def p2c_object_ready_def P2CStrategy_new_nonzero and_then_eq_Inr_iff
      new_ring_ready split: if_splits)

lemma pool_inv_new: "pool_inv nodes [] (ServicePool_new nodes)"
  by (simp add: pool_inv_def ServicePool_new_def comp_def ServiceState_new_def GetSize_def)

lemma main_configured_Running:
  assumes "main_configured pf config = Running lb"
  obtains strategy proxy where
    "strategyFactory (pf_dist pf) (pf_random_device pf) (ServicePool_new (m_nodes config))
       (m_routingAlgorithm config) = Some (Inr strategy)"
    "TcpProxy_new (pf_make_address pf) (pf_bind pf) (m_listenAddress config) (m_listenPort config)
       (m_connectTimeoutMs (m_connection config)) (m_idleTimeoutMs (m_connection config)) = Inr proxy"
    "m_nodes config \<noteq> []"
    "lb = \<lparr>lb_pool = ServicePool_new (m_nodes config), lb_strategy = strategy, lb_proxy = AcceptNext proxy,
       lb_sessions = [], lb_checker = (if m_enabled (m_healthCheck config)
         then Some (ScheduleNextRound (HealthChecker_new (m_healthCheck config))) else None),
       lb_signalPending = True\<rparr>"
  using assms
  by (auto simp: main_configured_def main_run_def Let_def accessors TcpProxy_Start_def HealthChecker_Start_def
      split: if_splits option.splits sum.splits)

text \<open>What a process runs with: everything \<open>main\<close> takes from the configuration.\<close>

definition runs_with :: "('a, 'n, 'f) platform \<Rightarrow> LoadBalancerConfig \<Rightarrow> 'a LoadBalancer \<Rightarrow> bool" where
  "runs_with pf config lb \<longleftrightarrow>
     map m_node (m_services (lb_pool lb)) = m_nodes config \<and>
     p_connectTimeoutMs (lb_proxy lb) = m_connectTimeoutMs (m_connection config) \<and>
     p_idleTimeoutMs (lb_proxy lb) = m_idleTimeoutMs (m_connection config) \<and>
     map_option m_config (lb_checker lb) =
       (if m_enabled (m_healthCheck config) then Some (m_healthCheck config) else None) \<and>
     (m_routingAlgorithm config = ''p2c'' \<and>
        lb_strategy lb = UseP2C (pf_dist pf, P2CStrategy_new (pf_random_device pf)) \<or>
      m_routingAlgorithm config = ''consistent-hash'' \<and>
        (\<exists>ring. ConsistentHashStrategy_new (lb_pool lb) = Inr ring \<and> lb_strategy lb = UseConsistentHash ring))"

lemma main_configured_runs_with:
  assumes "main_configured pf config = Running lb"
  shows "runs_with pf config lb"
  using assms
proof (cases rule: main_configured_Running)
  case (1 strategy proxy)
  have "map m_node (m_services (lb_pool lb)) = m_nodes config"
    by (simp add: 1(4) ServicePool_new_def ServiceState_new_def comp_def)
  moreover have "p_connectTimeoutMs (lb_proxy lb) = m_connectTimeoutMs (m_connection config) \<and>
      p_idleTimeoutMs (lb_proxy lb) = m_idleTimeoutMs (m_connection config)"
    using 1(2) by (auto simp: 1(4) TcpProxy_new_def AcceptNext_def split: option.splits if_splits)
  moreover have "map_option m_config (lb_checker lb) =
      (if m_enabled (m_healthCheck config) then Some (m_healthCheck config) else None)"
    by (simp add: 1(4) ScheduleNextRound_def HealthChecker_new_def)
  ultimately show ?thesis
    using 1(1) by (auto simp: runs_with_def 1(4) strategyFactory_def and_then_eq_Inr_iff split: if_splits)
qed

lemma started_inv:
  assumes "started pf config p" and "dist_ok (pf_dist pf)"
  shows "process_inv max_files (m_nodes config) p"
proof (cases p)
  case (Running lb)
  with assms(1) have "main_configured pf config = Running lb" by (simp add: started_def)
  then show ?thesis
  proof (cases rule: main_configured_Running)
    case (1 strategy proxy)
    then show ?thesis
      using Running strategyFactory_ready [OF 1(1) assms(2)] pool_inv_new
      by (auto simp: lb_inv_def checker_inv_def ScheduleNextRound_def HealthChecker_new_def)
  qed
qed simp

text \<open>
  The invariant with the two assumptions it rests on: the distribution of the P2C strategy
  conforms, and the process cannot hold \<open>2 ^ 64\<close> descriptors.
\<close>

definition lb_sound :: "('a, 'n, 'f) platform \<Rightarrow> nat \<Rightarrow> LoadBalancerConfig \<Rightarrow> 'a process \<Rightarrow> bool" where
  "lb_sound pf max_files config p \<longleftrightarrow>
     (dist_ok (pf_dist pf) \<and> max_files < 2 ^ 64 \<longrightarrow> process_inv max_files (m_nodes config) p)"

interpretation lb: inductive_invariant "started pf config" "lb_step (pf_make_address pf) max_files"
    "lb_sound pf max_files config"
  for pf :: "('a, 'n, 'f) platform" and config and max_files
proof
  fix p e q :: "'a process" and ev
  show "started pf config p \<Longrightarrow> lb_sound pf max_files config p"
    unfolding lb_sound_def using started_inv by blast
  show "lb_sound pf max_files config p \<Longrightarrow> lb_step (pf_make_address pf) max_files p ev q \<Longrightarrow>
      lb_sound pf max_files config q"
    unfolding lb_sound_def using lb_step_inv by blast
qed

lemma reachable_lb_inv:
  assumes "reach (started pf config) (lb_step (pf_make_address pf) max_files) (Running lb)"
    and "dist_ok (pf_dist pf)" and "max_files < 2 ^ 64"
  shows "lb_inv max_files (m_nodes config) lb"
  using lb.reachable_inv [OF assms(1)] assms(2,3) by (simp add: lb_sound_def)

text \<open>Some operation of a live session can always complete: a failure needs no cooperation.\<close>

lemma session_can_step:
  assumes "s_pending s \<noteq> []"
  shows "\<exists>e t. session_step s e t"
proof -
  obtain p where p: "p \<in> set (s_pending s)" using assms by (cases "s_pending s") auto
  have "completion_ok p (if is_wait (fst p) then success else operation_aborted) [] s"
    by (cases "fst p") (auto simp: completion_ok_def intro: exI [of _ 0])
  with p show ?thesis by (blast intro: session_stepI)
qed

text \<open>A failed accept on a closed acceptor starts another.\<close>

lemma accept_error_step:
  assumes "p_accepts (lb_proxy lb) = [opened]" and "\<not> p_acceptorOpen (lb_proxy lb)"
  shows "lb_step make_address max_files (Running lb) (AcceptDone opened (io_error k) None)
    (Running (lb\<lparr>lb_proxy := (lb_proxy lb)\<lparr>p_accepts := [False]\<rparr>\<rparr>))"
proof -
  let ?p = "(lb_proxy lb)\<lparr>p_accepts := [False]\<rparr>"
  have "lb_step make_address max_files (Running lb) (AcceptDone opened (io_error k) None)
      (process_of (and_then (Inr (lb_pool lb, lb_strategy lb, ?p, None)) (\<lambda>r. Inr (accept_done r lb))))"
    by (rule step_accept) (simp_all add: assms accept_complete_def AcceptNext_def)
  then show ?thesis by (simp add: accept_done_def)
qed

text \<open>The handler of an accept always returns or throws.\<close>

lemma accept_complete_returns:
  assumes "strategy_ready st pool"
  shows "\<exists>r. accept_complete strategy_select make_address opened remote ec pool st p = Some r"
proof (cases "ec = success \<and> remote \<noteq> None")
  case True
  then obtain key where key: "ec = success" "remote = Some key" by auto
  from assms show ?thesis
    by (cases rule: strategy.OnAccept_success_cases
        [where key = key and make_address = make_address and p = "p\<lparr>p_accepts := remove1 opened (p_accepts p)\<rparr>"])
       (simp_all add: accept_complete_def key)
next
  case False
  then show ?thesis by (cases ec; cases remote) (auto simp: accept_complete_def)
qed

text \<open>Whatever the invariant allows, some step is possible.\<close>

lemma lb_inv_can_step:
  assumes "lb_inv max_files nodes lb"
  shows "\<exists>e q. lb_step make_address max_files (Running lb) e q"
proof -
  consider (accept) opened where "opened \<in> set (p_accepts (lb_proxy lb))"
    | (session) "0 < length (lb_sessions lb)"
    | (checker) hc h where "lb_checker lb = Some hc" "h \<in> set (m_pending hc)"
    | (signal) "lb_signalPending lb"
    | (idle) "no_work lb"
    by (cases "p_accepts (lb_proxy lb)"; cases "lb_checker lb") (fastforce simp: no_work_def neq_Nil_conv)+
  then show ?thesis
  proof cases
    case (accept opened)
    have "accept_complete strategy_select make_address opened None (io_error 0) (lb_pool lb)
        (lb_strategy lb) (lb_proxy lb) =
        Some (Inr (lb_pool lb, lb_strategy lb,
          AcceptNext ((lb_proxy lb)\<lparr>p_accepts := remove1 opened (p_accepts (lb_proxy lb))\<rparr>), None))"
      by (simp add: accept_complete_def)
    from step_accept [OF accept _ _ this] show ?thesis by (fastforce simp: accept_completion_ok_def)
  next
    case session
    then have "s_pending (lb_sessions lb ! 0) \<noteq> []" using assms by (simp add: lb_inv_def)
    then obtain e t where "session_step (lb_sessions lb ! 0) e t" using session_can_step by metis
    from step_session [OF session this] show ?thesis by blast
  next
    case (checker hc h)
    have "hc_completion_ok h success hc" by (simp add: hc_completion_ok_def split: hc_handler.split)
    from step_checker [OF checker this] show ?thesis by blast
  next
    case signal
    from step_signal [OF this] show ?thesis by blast
  next
    case idle
    from step_end [OF this] show ?thesis by blast
  qed
qed

section \<open>An example process\<close>

definition demo_config :: LoadBalancerConfig where
  "demo_config = AddService (ServiceNode_new ''web-1'' ''10.0.0.1'' 8080 1) LoadBalancerConfig_default"

definition demo_platform :: "(string, yaml, yaml_token list) platform" where
  "demo_platform = \<lparr>pf_yaml = tree_lib, pf_files = [''lb.yaml'' \<mapsto> save_tokens demo_config],
     pf_make_address = Some, pf_bind = (\<lambda>a port. True), pf_dist = updown_dist, pf_random_device = 42\<rparr>"

definition demo_process :: "string LoadBalancer" where
  "demo_process =
     \<lparr>lb_pool = ServicePool_new (m_nodes demo_config),
      lb_strategy = UseP2C (updown_dist, P2CStrategy_new 42),
      lb_proxy = \<lparr>p_acceptorOpen = True, p_accepts = [True], p_connectTimeoutMs = 5000, p_idleTimeoutMs = 30000\<rparr>,
      lb_sessions = [],
      lb_checker = Some (ScheduleNextRound (HealthChecker_new HealthCheckConfig_default)),
      lb_signalPending = True\<rparr>"

lemma demo_started: "started demo_platform demo_config (Running demo_process)"
  by (simp add: started_def main_configured_def main_run_def demo_config_def demo_platform_def demo_process_def
      Let_def accessors strategyFactory_def TcpProxy_new_def TcpProxy_Start_def AcceptNext_def HealthChecker_Start_def)

lemma demo_platform_ok [simp]: "dist_ok (pf_dist demo_platform)" "pf_make_address demo_platform = Some"
  by (simp_all add: demo_platform_def updown_dist_ok)

lemma demo_process_reach:
  "reach (started demo_platform demo_config) (lb_step (pf_make_address demo_platform) max_files) (Running demo_process)"
  by (rule reach_init) (rule demo_started)

text \<open>A client connects to it.\<close>

lemma demo_accept:
  "\<exists>lb. lb_step Some 1024 (Running demo_process) (AcceptDone True success (Some ''10.9.9.9'')) (Running lb) \<and>
     length (lb_sessions lb) = 1"
proof -
  let ?pool = "lb_pool demo_process"
  let ?p = "(lb_proxy demo_process)\<lparr>p_accepts := []\<rparr>"
  have one: "GetHealthyCount ?pool = 1" "GetSize ?pool = 1"
    by (simp_all add: demo_process_def demo_config_def GetHealthyCount_eq ServicePool_new_def accessors GetSize_def)
  have "strategy_ready (lb_strategy demo_process) ?pool"
    by (simp add: demo_process_def p2c_object_ready_def updown_dist_ok P2CStrategy_new_nonzero)
  then obtain i st' where "healthy_at ?pool i"
    and acc: "OnAccept strategy_select Some (Some ''10.9.9.9'') success ?pool (lb_strategy demo_process) ?p =
      Some (and_then (started_session Some ?pool i ?p)
        (\<lambda>session. Inr (with_connection i ?pool, st', AcceptNext ?p, Some session)))"
    by (rule strategy.OnAccept_success_cases
        [where key = "''10.9.9.9''" and make_address = Some and p = ?p]) (simp_all add: one)
  obtain t where t: "started_session Some ?pool i ?p = Inr t"
    by (simp add: started_session_def Session_Start_eq [THEN iffD2])
  with acc have acc': "accept_complete strategy_select Some True (Some ''10.9.9.9'') success ?pool
      (lb_strategy demo_process) (lb_proxy demo_process) =
      Some (Inr (with_connection i ?pool, st', AcceptNext ?p, Some t))"
    by (simp add: accept_complete_def demo_process_def)
  have "lb_step Some 1024 (Running demo_process) (AcceptDone True success (Some ''10.9.9.9''))
      (process_of (and_then (Inr (with_connection i ?pool, st', AcceptNext ?p, Some t))
        (\<lambda>r. Inr (accept_done r demo_process))))"
    by (rule step_accept [OF _ _ _ acc']) (simp_all add: demo_process_def)
  then show ?thesis by (auto simp: accept_done_def demo_process_def)
qed

lemma exit_causes:
  assumes "reach (started pf config) (lb_step (pf_make_address pf) max_files) (Running lb)"
    and "dist_ok (pf_dist pf)" and "max_files < 2 ^ 64"
    and "lb_step (pf_make_address pf) max_files (Running lb) e (Exited n)"
  shows "n = 0 \<and> no_work lb \<or>
    n = 1 \<and> ((\<exists>opened. e = AcceptDone opened success None) \<or>
              (\<exists>node\<in>set (m_nodes config). pf_make_address pf (m_ip node) = None))"
proof -
  have inv: "lb_inv max_files (m_nodes config) lb" by (rule reachable_lb_inv [OF assms(1-3)])
  then have nodes: "map m_node (m_services (lb_pool lb)) = m_nodes config"
    by (simp add: lb_inv_def pool_inv_def)
  have bad: "\<exists>node\<in>set (m_nodes config). pf_make_address pf (m_ip node) = None"
    if "i < GetSize (lb_pool lb)" "pf_make_address pf (m_ip (m_node (m_services (lb_pool lb) ! i))) = None" for i
    using that unfolding nodes [symmetric] by (auto simp: GetSize_def)
  from assms(4) show ?thesis
  proof (cases rule: lb_step.cases)
    case (step_accept opened ec remote r)
    let ?p = "(lb_proxy lb)\<lparr>p_accepts := remove1 opened (p_accepts (lb_proxy lb))\<rparr>"
    from step_accept obtain x where r: "r = Inl x" and n: "n = 1"
      by (cases r) (auto simp: process_of_def)
    then have ec: "ec = success" using step_accept by (cases ec) (auto simp: accept_complete_def)
    show ?thesis
    proof (cases remote)
      case None
      with step_accept n ec show ?thesis by auto
    next
      case (Some key)
      have "strategy_ready (lb_strategy lb) (lb_pool lb)" using inv by (simp add: lb_inv_def)
      then show ?thesis
      proof (cases rule: strategy.OnAccept_success_cases
          [where key = key and make_address = "pf_make_address pf" and p = ?p])
        case (dropped st')
        with step_accept r ec Some show ?thesis by (simp add: accept_complete_def)
      next
        case (routed i st')
        then have "started_session (pf_make_address pf) (lb_pool lb) i ?p = Inl x"
          using step_accept r ec Some
          by (cases "started_session (pf_make_address pf) (lb_pool lb) i ?p") (auto simp: accept_complete_def)
        then have "pf_make_address pf (m_ip (m_node (m_services (lb_pool lb) ! i))) = None"
          by (auto simp: started_session_def handlers accessors Let_def split: option.splits)
        with bad [of i] routed(2) n show ?thesis by (simp add: healthy_at_def)
      qed
    qed
  next
    case (step_session i ev t)
    with session_step_process_inv [OF inv, of i ev t] show ?thesis by auto
  next
    case (step_checker hc h ec)
    have ck: "checker_inv (lb_pool lb) hc" "pool_inv (m_nodes config) (lb_sessions lb) (lb_pool lb)"
      using inv step_checker by (simp_all add: lb_inv_def)
    have hp: "h \<in> set (m_pending hc)" using step_checker by simp
    from step_checker obtain x where x: "hc_complete (pf_make_address pf) h ec (lb_pool lb) hc = Inl x" and n: "n = 1"
      by (cases "hc_complete (pf_make_address pf) h ec (lb_pool lb) hc") (auto simp: process_of_def)
    with checker_complete_inv [OF hp ck, of "pf_make_address pf" ec] bad show ?thesis by auto
  next
    case step_end
    then show ?thesis by simp
  qed
qed

lemma main_start_Running_iff:
  "(\<exists>lb. main_start pf argv = Running lb) \<longleftrightarrow>
     2 \<le> length argv \<and>
     (\<exists>config a. Load (pf_yaml pf) (pf_files pf) LoadBalancerConfig_default (argv ! 1) = (config, Inr ()) \<and>
        m_nodes config \<noteq> [] \<and>
        (m_routingAlgorithm config = ''p2c'' \<or>
         m_routingAlgorithm config = ''consistent-hash'' \<and>
           distinct (map fst (ring_points (ServicePool_new (m_nodes config))))) \<and>
        pf_make_address pf (m_listenAddress config) = Some a \<and> pf_bind pf a (m_listenPort config))"
proof -
  have ring: "(\<exists>st. ConsistentHashStrategy_new pool = Inr st) \<longleftrightarrow> distinct (map fst (ring_points pool))" for pool
    using new_ring_Inr_iff [of pool] by blast
  have "(\<exists>lb. main_configured pf config = Running lb) \<longleftrightarrow>
      (\<exists>a. m_nodes config \<noteq> [] \<and>
        (m_routingAlgorithm config = ''p2c'' \<or> m_routingAlgorithm config = ''consistent-hash'' \<and>
           distinct (map fst (ring_points (ServicePool_new (m_nodes config))))) \<and>
        pf_make_address pf (m_listenAddress config) = Some a \<and> pf_bind pf a (m_listenPort config))" for config
    unfolding ring [symmetric]
    by (auto simp: main_configured_def main_run_def strategyFactory_def TcpProxy_new_def Let_def accessors
        and_then_def split: option.splits sum.splits)
  then show ?thesis
    by (auto simp: main_start_def split: sum.splits prod.splits)
qed

section \<open>Properties\<close>

text \<open>
  C1: in every reachable state of the process, under every order of completions, the connection
  counter of a service is the number of live sessions on it: no increment is lost, repeated or
  left behind, whichever way the sessions end.
\<close>

theorem connection_counts_live_sessions:
  assumes "reach (started pf config) (lb_step (pf_make_address pf) max_files) (Running lb)"
    and "dist_ok (pf_dist pf)" and "max_files < 2 ^ 64" and "i < GetSize (lb_pool lb)"
  shows "unat (GetActiveConnections (m_services (lb_pool lb) ! i)) =
    length (filter (\<lambda>s. m_backend s = i) (lb_sessions lb))"
  using reachable_lb_inv [OF assms(1-3)] assms(4)
  by (simp add: lb_inv_def pool_inv_def live_on_def GetActiveConnections_def)

theorem connection_counts_live_sessions_witness:
  "\<exists>lb :: string LoadBalancer. length (lb_sessions lb) = 1 \<and>
     (\<forall>i < GetSize (lb_pool lb). unat (GetActiveConnections (m_services (lb_pool lb) ! i)) =
        length (filter (\<lambda>s. m_backend s = i) (lb_sessions lb)))"
proof -
  obtain lb where step: "lb_step (pf_make_address demo_platform) 1024 (Running demo_process)
      (AcceptDone True success (Some ''10.9.9.9'')) (Running lb)" and one: "length (lb_sessions lb) = 1"
    using demo_accept by auto
  have r: "reach (started demo_platform demo_config) (lb_step (pf_make_address demo_platform) 1024) (Running lb)"
    using demo_process_reach step by (rule reach_step)
  have "(1024 :: nat) < 2 ^ 64" by simp
  with connection_counts_live_sessions [OF r demo_platform_ok(1)] one show ?thesis by blast
qed

text \<open>
  C5: a client that is accepted and whose handler returns is either dropped, and then no service
  was healthy, with the pool unchanged; or it becomes one new session on a service that was
  healthy, connecting to that service's configured address and port, and that service's counter
  alone goes up by one. In both cases exactly one new accept is started.
\<close>

theorem accept_routes_to_healthy:
  assumes "reach (started pf config) (lb_step (pf_make_address pf) max_files) (Running lb)"
    and "dist_ok (pf_dist pf)" and "max_files < 2 ^ 64"
    and "lb_step (pf_make_address pf) max_files (Running lb) (AcceptDone opened success (Some key)) (Running lb')"
  shows "p_accepts (lb_proxy lb') = remove1 opened (p_accepts (lb_proxy lb)) @ [p_acceptorOpen (lb_proxy lb)] \<and>
    ((\<forall>i. \<not> healthy_at (lb_pool lb) i) \<and> lb_pool lb' = lb_pool lb \<and> lb_sessions lb' = lb_sessions lb \<or>
     (\<exists>i s a. healthy_at (lb_pool lb) i \<and> lb_sessions lb' = lb_sessions lb @ [s] \<and> m_backend s = i \<and>
        pf_make_address pf (m_ip (m_node (m_services (lb_pool lb) ! i))) = Some a \<and>
        (Connect a (m_port (m_node (m_services (lb_pool lb) ! i))), True) \<in> set (s_pending s) \<and>
        m_services (lb_pool lb') =
          (m_services (lb_pool lb))[i := IncrementConnections (m_services (lb_pool lb) ! i)]))"
proof -
  let ?p = "(lb_proxy lb)\<lparr>p_accepts := remove1 opened (p_accepts (lb_proxy lb))\<rparr>"
  obtain r where acc: "OnAccept strategy_select (pf_make_address pf) (Some key) success (lb_pool lb)
      (lb_strategy lb) ?p = Some (Inr r)" and lb': "lb' = accept_done r lb"
    using assms(4)
    by (auto elim!: step_acceptE simp: accept_complete_def process_of_def and_then_def split: sum.splits)
  have "strategy_ready (lb_strategy lb) (lb_pool lb)"
    using reachable_lb_inv [OF assms(1-3)] by (simp add: lb_inv_def)
  then show ?thesis
  proof (cases rule: strategy.OnAccept_success_cases
      [where key = key and make_address = "pf_make_address pf" and p = ?p])
    case (dropped st')
    with acc lb' GetHealthyCount_0_iff [of "lb_pool lb"] show ?thesis
      by (auto simp: accept_done_def AcceptNext_def)
  next
    case (routed i st')
    with acc obtain t where t: "started_session (pf_make_address pf) (lb_pool lb) i ?p = Inr t"
      and r: "r = (with_connection i (lb_pool lb), st', AcceptNext ?p, Some t)"
      by (auto simp: and_then_eq_Inr_iff)
    from t obtain a where "pf_make_address pf (m_ip (m_node (m_services (lb_pool lb) ! i))) = Some a"
      "(Connect a (m_port (m_node (m_services (lb_pool lb) ! i))), True) \<in> set (s_pending t)" "m_backend t = i"
      unfolding started_session_def Session_Start_eq by (auto simp: Session_new_def)
    with routed(2) r lb' show ?thesis
      by (auto simp: accept_done_def AcceptNext_def with_connection_def)
  qed
qed

theorem accept_routes_to_healthy_witness:
  "\<exists>lb. length (lb_sessions lb) = 1 \<and> p_accepts (lb_proxy lb) = [True] \<and>
     lb_step Some 1024 (Running demo_process) (AcceptDone True success (Some ''10.9.9.9'')) (Running lb)"
proof -
  obtain lb where step: "lb_step (pf_make_address demo_platform) 1024 (Running demo_process)
      (AcceptDone True success (Some ''10.9.9.9'')) (Running lb)" and one: "length (lb_sessions lb) = 1"
    using demo_accept by auto
  have "p_accepts (lb_proxy lb) = [True]"
    using accept_routes_to_healthy [OF demo_process_reach demo_platform_ok(1) _ step]
    by (simp add: demo_process_def)
  with step one show ?thesis by auto
qed

text \<open>
  C6: what can end the process. It ends with 0 only when no operation is outstanding, after the
  signal; and with 1 only because a configured service's address does not parse, or because an
  accepted client had already disconnected when its remote address was asked for.
\<close>

theorem process_exit_causes:
  assumes "reach (started pf config) (lb_step (pf_make_address pf) max_files) (Running lb)"
    and "dist_ok (pf_dist pf)" and "max_files < 2 ^ 64"
    and "lb_step (pf_make_address pf) max_files (Running lb) e (Exited n)"
  shows "n = 0 \<and> no_work lb \<or>
    n = 1 \<and> ((\<exists>opened. e = AcceptDone opened success None) \<or>
              (\<exists>node\<in>set (m_nodes config). pf_make_address pf (m_ip node) = None))"
  using assms by (rule exit_causes)

theorem process_exit_causes_witness:
  "lb_step Some 1024 (Running demo_process) (AcceptDone True success None) (Exited 1) \<and>
   \<not> no_work demo_process"
proof -
  have step: "lb_step (pf_make_address demo_platform) 1024 (Running demo_process) (AcceptDone True success None) (Exited 1)"
    using step_accept [of True demo_process success 1024 Some None "Inl SystemError"]
    by (simp add: accept_complete_def demo_process_def)
  have "(1024 :: nat) < 2 ^ 64" by simp
  from process_exit_causes [OF demo_process_reach demo_platform_ok(1) this step] step
  show ?thesis by (auto simp: no_work_def demo_process_def)
qed

text \<open>
  A client that resets its connection between the accept and the handler ends the whole
  process: from every state with an accept outstanding there is a step to exit code 1.
\<close>

lemma early_reset_ends_process:
  assumes "True \<in> set (p_accepts (lb_proxy lb))" and "length (lb_sessions lb) < max_files"
  shows "lb_step make_address max_files (Running lb) (AcceptDone True success None) (Exited 1)"
  using step_accept [OF assms(1), of success max_files make_address None "Inl SystemError"] assms(2)
  by (simp add: accept_complete_def)

lemma early_reset_ends_process_witness:
  "lb_step Some 1024 (Running demo_process) (AcceptDone True success None) (Exited 1)"
  by (rule early_reset_ends_process) (simp_all add: demo_process_def)

text \<open>
  C22: the event loop never gets stuck. In every reachable running state every routing call returns; so
  every completion of an outstanding accept is handled to its end, an accepted client with any remote
  address included; every completion of a session's operation is handled without an exception; every
  session has an operation that can complete; every completion of the checker's operations is handled;
  and when no operation is outstanding \<open>run()\<close> returns.
\<close>

theorem event_loop_progress:
  assumes "reach (started pf config) (lb_step (pf_make_address pf) max_files) (Running lb)"
    and "dist_ok (pf_dist pf)" and "max_files < 2 ^ 64"
  shows "(\<forall>key. \<exists>r st'. strategy_select (lb_strategy lb) (lb_pool lb) key = Some (Inr r, st')) \<and>
    (\<forall>opened ec remote. opened \<in> set (p_accepts (lb_proxy lb)) \<and> accept_completion_ok opened ec (lb_proxy lb) \<and>
        (ec = success \<longrightarrow> length (lb_sessions lb) < max_files) \<longrightarrow>
       (\<exists>q. lb_step (pf_make_address pf) max_files (Running lb) (AcceptDone opened ec remote) q)) \<and>
    (\<forall>i e t. i < length (lb_sessions lb) \<and> session_step (lb_sessions lb ! i) e t \<longrightarrow>
       (\<exists>lb'. lb_step (pf_make_address pf) max_files (Running lb) (SessionDone i e) (Running lb'))) \<and>
    (\<forall>i<length (lb_sessions lb). \<exists>e t. session_step (lb_sessions lb ! i) e t) \<and>
    (\<forall>hc h ec. lb_checker lb = Some hc \<and> h \<in> set (m_pending hc) \<and> hc_completion_ok h ec hc \<longrightarrow>
       (\<exists>q. lb_step (pf_make_address pf) max_files (Running lb) (CheckerDone h ec) q)) \<and>
    (lb_signalPending lb \<longrightarrow> (\<exists>lb'. lb_step (pf_make_address pf) max_files (Running lb) (SignalDone success) (Running lb'))) \<and>
    (no_work lb \<longrightarrow> lb_step (pf_make_address pf) max_files (Running lb) LoopEnds (Exited 0))"
proof -
  have inv: "lb_inv max_files (m_nodes config) lb" by (rule reachable_lb_inv [OF assms])
  then have ready: "strategy_ready (lb_strategy lb) (lb_pool lb)" by (simp add: lb_inv_def)
  have accept: "\<exists>q. lb_step (pf_make_address pf) max_files (Running lb) (AcceptDone opened ec remote) q"
    if "opened \<in> set (p_accepts (lb_proxy lb))" "accept_completion_ok opened ec (lb_proxy lb)"
      "ec = success \<longrightarrow> length (lb_sessions lb) < max_files" for opened ec remote
    using lb_step.step_accept [OF that] accept_complete_returns [OF ready] by metis
  have session: "\<exists>lb'. lb_step (pf_make_address pf) max_files (Running lb) (SessionDone i e) (Running lb')"
    if "i < length (lb_sessions lb)" "session_step (lb_sessions lb ! i) e t" for i e t
    using lb_step.step_session [OF that] session_step_process_inv [OF inv that] by (metis process_of_simps(2))
  have live: "\<exists>e t. session_step (lb_sessions lb ! i) e t" if "i < length (lb_sessions lb)" for i
    using inv that by (intro session_can_step) (simp add: lb_inv_def)
  show ?thesis
    by (intro conjI allI impI; (elim conjE)?)
       ((rule strategy.select_returns [OF ready]) | (rule accept, assumption+) | (rule session, assumption+) |
        (rule live, assumption) | (rule exI, rule lb_step.step_checker, assumption+) |
        (rule exI, rule lb_step.step_signal, assumption) | (rule lb_step.step_end, assumption))+
qed

theorem event_loop_progress_witness:
  "(\<exists>r st'. strategy_select (lb_strategy demo_process) (lb_pool demo_process) ''10.9.9.9'' = Some (Inr r, st')) \<and>
   (\<exists>q. lb_step Some 1024 (Running demo_process) (AcceptDone True success (Some ''10.9.9.9'')) q)"
proof -
  have "(1024 :: nat) < 2 ^ 64" by simp
  note progress = event_loop_progress [OF demo_process_reach demo_platform_ok(1) this]
  have "True \<in> set (p_accepts (lb_proxy demo_process))" "length (lb_sessions demo_process) < 1024"
    by (simp_all add: demo_process_def)
  with progress show ?thesis by simp
qed

text \<open>
  C24: an accept that had already failed when the signal arrived races with the shutdown. Its
  handler starts a new accept on the closed acceptor, the failure of which starts another: the
  process can take that step for ever and is in the same state after any number of them, so it
  neither ends nor stops using the processor.
\<close>

theorem stop_race_livelock:
  assumes "lb_signalPending lb" and "p_accepts (lb_proxy lb) = [True]"
  shows "\<exists>lb1 lb2. lb_step make_address max_files (Running lb) (SignalDone success) (Running lb1) \<and>
    lb_step make_address max_files (Running lb1) (AcceptDone True (io_error k) None) (Running lb2) \<and>
    (\<forall>n. ((\<lambda>p q. lb_step make_address max_files p (AcceptDone False (io_error 9) None) q) ^^ n)
       (Running lb2) (Running lb2))"
proof -
  let ?lb1 = "on_signal success (lb\<lparr>lb_signalPending := False\<rparr>)"
  let ?lb2 = "?lb1\<lparr>lb_proxy := (lb_proxy ?lb1)\<lparr>p_accepts := [False]\<rparr>\<rparr>"
  have closed: "\<not> p_acceptorOpen (lb_proxy ?lb1)" "p_accepts (lb_proxy ?lb1) = [True]"
    using assms(2) by (simp_all add: on_signal_def TcpProxy_Stop_def)
  have "lb_step make_address max_files (Running lb) (SignalDone success) (Running ?lb1)"
    by (rule step_signal [OF assms(1)])
  moreover have "lb_step make_address max_files (Running ?lb1) (AcceptDone True (io_error k) None) (Running ?lb2)"
    using accept_error_step [OF closed(2,1), of make_address max_files k] by simp
  moreover have "lb_step make_address max_files (Running ?lb2) (AcceptDone False (io_error 9) None) (Running ?lb2)"
    using accept_error_step [of ?lb2 False make_address max_files 9] closed(1) by simp
  then have "((\<lambda>p q. lb_step make_address max_files p (AcceptDone False (io_error 9) None) q) ^^ n)
       (Running ?lb2) (Running ?lb2)" for n
    by (induction n) auto
  ultimately show ?thesis by blast
qed

theorem stop_race_livelock_witness:
  "\<exists>lb1 lb2. lb_step Some 1024 (Running demo_process) (SignalDone success) (Running lb1) \<and>
    lb_step Some 1024 (Running lb1) (AcceptDone True (io_error 24) None) (Running lb2) \<and>
    (\<forall>n. ((\<lambda>p q. lb_step Some 1024 p (AcceptDone False (io_error 9) None) q) ^^ n) (Running lb2) (Running lb2))"
  by (rule stop_race_livelock) (simp_all add: demo_process_def)

text \<open>
  C20: \<open>main\<close> reaches the event loop exactly when a file name was given, the configuration loads
  and has a service, the routing algorithm is one of the two names (and, for consistent hashing,
  the ring has no collision), and the listen address parses and can be bound; everything else
  ends with exit code 1.
\<close>

theorem main_starts_iff:
  "(\<exists>lb. main_start pf argv = Running lb) \<longleftrightarrow>
     2 \<le> length argv \<and>
     (\<exists>config a. Load (pf_yaml pf) (pf_files pf) LoadBalancerConfig_default (argv ! 1) = (config, Inr ()) \<and>
        m_nodes config \<noteq> [] \<and>
        (m_routingAlgorithm config = ''p2c'' \<or>
         m_routingAlgorithm config = ''consistent-hash'' \<and>
           distinct (map fst (ring_points (ServicePool_new (m_nodes config))))) \<and>
        pf_make_address pf (m_listenAddress config) = Some a \<and> pf_bind pf a (m_listenPort config))"
  by (rule main_start_Running_iff)

text \<open>
  When the event loop starts, every configured service is in the pool in order, healthy and
  with no connections, one accept is outstanding on the open acceptor, and a probe round is
  scheduled exactly when health checks are enabled.
\<close>

lemma main_initial_state:
  assumes "main_configured pf config = Running lb"
  shows "map GetNode (m_services (lb_pool lb)) = GetServices config \<and>
    (\<forall>s\<in>set (m_services (lb_pool lb)). IsHealthy s \<and> GetActiveConnections s = 0) \<and>
    lb_sessions lb = [] \<and> p_acceptorOpen (lb_proxy lb) \<and> p_accepts (lb_proxy lb) = [True] \<and>
    map_option m_pending (lb_checker lb) = (if GetEnabled (GetHealthCheck config) then Some [RoundTimer] else None)"
  using assms
proof (cases rule: main_configured_Running)
  case (1 strategy proxy)
  from 1(2) have "p_acceptorOpen proxy" "p_accepts proxy = []"
    by (auto simp: TcpProxy_new_def split: option.splits if_splits)
  then show ?thesis
    by (auto simp: 1(4) ServicePool_new_def ServiceState_new_def comp_def accessors AcceptNext_def
        ScheduleNextRound_def HealthChecker_new_def)
qed

end
