(* ===== verification/Balancer_Spec.thy ===== *)
theory Balancer_Spec
  imports Load_Balancer
begin

text \<open>
  What the balancer promises, as a small state machine without sockets, buffers, timers or counters,
  and the proof that the process refines it: a connection is opened on a backend that is up, it
  counts for that backend until it is closed, a backend comes up by a successful probe and goes down
  by a failed one only, and nothing else ever changes.
\<close>

section \<open>The specification\<close>

record backend =
  ab_node :: ServiceNode
  ab_up :: bool
  ab_load :: nat

text \<open>The backends; \<open>None\<close> when the process is not running.\<close>

type_synonym balancer = "backend list option"

datatype spec_event =
    Connected nat
  | Disconnected nat
  | ProbeOk nat
  | ProbeFailed nat
  | Internal
  | Stopped

inductive spec_step :: "balancer \<Rightarrow> spec_event \<Rightarrow> balancer \<Rightarrow> bool" where
  spec_connected: "i < length b \<Longrightarrow> ab_up (b ! i) \<Longrightarrow>
     spec_step (Some b) (Connected i) (Some (b[i := (b ! i)\<lparr>ab_load := Suc (ab_load (b ! i))\<rparr>]))"
| spec_disconnected: "i < length b \<Longrightarrow> ab_load (b ! i) = Suc n \<Longrightarrow>
     spec_step (Some b) (Disconnected i) (Some (b[i := (b ! i)\<lparr>ab_load := n\<rparr>]))"
| spec_probe_ok: "i < length b \<Longrightarrow>
     spec_step (Some b) (ProbeOk i) (Some (b[i := (b ! i)\<lparr>ab_up := True\<rparr>]))"
| spec_probe_failed: "i < length b \<Longrightarrow> (v \<longrightarrow> ab_up (b ! i)) \<Longrightarrow>
     spec_step (Some b) (ProbeFailed i) (Some (b[i := (b ! i)\<lparr>ab_up := v\<rparr>]))"
| spec_internal: "spec_step b Internal b"
| spec_stopped: "spec_step (Some b) Stopped None"

inductive_cases spec_connectedE: "spec_step (Some b) (Connected i) b'"

definition spec_init :: "ServiceNode list \<Rightarrow> balancer \<Rightarrow> bool" where
  "spec_init nodes b \<longleftrightarrow> b = None \<or> b = Some (map (\<lambda>node. \<lparr>ab_node = node, ab_up = True, ab_load = 0\<rparr>) nodes)"

section \<open>The process seen as the specification\<close>

definition abs_backend :: "'a Session list \<Rightarrow> ServicePool \<Rightarrow> nat \<Rightarrow> backend" where
  "abs_backend ss pool i =
     \<lparr>ab_node = m_node (m_services pool ! i), ab_up = m_healthy (m_services pool ! i), ab_load = live_on i ss\<rparr>"

definition abs_pool :: "'a Session list \<Rightarrow> ServicePool \<Rightarrow> backend list" where
  "abs_pool ss pool = map (abs_backend ss pool) [0..<GetSize pool]"

definition balancer_abs :: "'a process \<Rightarrow> balancer" where
  "balancer_abs p = (case p of Running lb \<Rightarrow> Some (abs_pool (lb_sessions lb) (lb_pool lb)) | Exited n \<Rightarrow> None)"

fun spec_event_of :: "'a process \<Rightarrow> 'a lb_event \<Rightarrow> 'a process \<Rightarrow> spec_event" where
  "spec_event_of p e (Exited n) = Stopped"
| "spec_event_of (Running lb) (AcceptDone opened ec remote) (Running lb') =
     (if length (lb_sessions lb) < length (lb_sessions lb') then Connected (m_backend (last (lb_sessions lb')))
      else Internal)"
| "spec_event_of (Running lb) (SessionDone i e) (Running lb') =
     (if length (lb_sessions lb') < length (lb_sessions lb) then Disconnected (m_backend (lb_sessions lb ! i))
      else Internal)"
| "spec_event_of p (CheckerDone (ProbeConnect i n a port) ec) q = (if is_error ec then ProbeFailed i else ProbeOk i)"
| "spec_event_of p e q = Internal"

section \<open>Lemmas\<close>

lemma abs_pool_length [simp]: "length (abs_pool ss pool) = GetSize pool"
  by (simp add: abs_pool_def)

lemma abs_pool_nth [simp]: "i < GetSize pool \<Longrightarrow> abs_pool ss pool ! i = abs_backend ss pool i"
  by (simp add: abs_pool_def)

lemma abs_pool_eqI:
  assumes "GetSize pool' = GetSize pool" and "i < GetSize pool" and "abs_backend ss' pool' i = x"
    and "\<And>k. k < GetSize pool \<Longrightarrow> k \<noteq> i \<Longrightarrow> abs_backend ss' pool' k = abs_backend ss pool k"
  shows "abs_pool ss' pool' = (abs_pool ss pool)[i := x]"
proof (rule nth_equalityI)
  fix k
  assume "k < length (abs_pool ss' pool')"
  then have "k < GetSize pool" using assms(1) by simp
  then show "abs_pool ss' pool' ! k = (abs_pool ss pool)[i := x] ! k"
    using assms by (cases "k = i") simp_all
qed (simp add: assms(1))

lemma abs_connect:
  assumes "i < GetSize pool" and "m_backend t = i"
  shows "abs_pool (ss @ [t]) (with_connection i pool) =
    (abs_pool ss pool)[i := (abs_backend ss pool i)\<lparr>ab_load := Suc (live_on i ss)\<rparr>]"
  using assms
  by (intro abs_pool_eqI) (auto simp: abs_backend_def with_connection_def IncrementConnections_def GetSize_def)

lemma abs_disconnect:
  assumes "j < length ss" and "m_backend t = m_backend (ss ! j)" and "m_backend (ss ! j) < GetSize pool"
    and "Session_destroy t pool = Inr pool'"
  shows "\<exists>n. ab_load (abs_backend ss pool (m_backend (ss ! j))) = Suc n \<and>
    abs_pool (take j ss @ drop (Suc j) ss) pool' =
      (abs_pool ss pool)[m_backend (ss ! j) := (abs_backend ss pool (m_backend (ss ! j)))\<lparr>ab_load := n\<rparr>]"
proof -
  let ?i = "m_backend (ss ! j)" and ?ss = "take j ss @ drop (Suc j) ss"
  have live: "live_on k ss = live_on k ?ss + (if ?i = k then 1 else 0)" for k using live_on_remove [OF assms(1)] .
  have p: "pool' = pool\<lparr>m_services := (m_services pool)[?i := DecrementConnections (m_services pool ! ?i)]\<rparr>"
    using assms(2-4) by (simp add: Session_destroy_def ServicePool_update_eq)
  have "m_node (DecrementConnections s) = m_node s" "m_healthy (DecrementConnections s) = m_healthy s" for s
    by (simp_all add: DecrementConnections_def Let_def)
  then have "abs_pool ?ss pool' = (abs_pool ss pool)[?i := (abs_backend ss pool ?i)\<lparr>ab_load := live_on ?i ?ss\<rparr>]"
    using assms(3) live by (intro abs_pool_eqI) (auto simp: abs_backend_def p GetSize_def)
  with live [of ?i] show ?thesis by (auto simp: abs_backend_def)
qed

lemma probe_result_up:
  "m_healthy (probe_result config ec svc) = (if is_error ec then m_healthy (probe_result config ec svc) \<and> m_healthy svc else True)"
  by (auto simp: probe_result_def accessors Let_def)

lemma abs_probe:
  assumes "ServicePool_update pool i (probe_result config ec) = Inr pool'"
  shows "i < GetSize pool \<and> (\<exists>v. (v \<longrightarrow> is_error ec \<longrightarrow> m_healthy (m_services pool ! i)) \<and> (\<not> is_error ec \<longrightarrow> v) \<and>
    abs_pool ss pool' = (abs_pool ss pool)[i := (abs_backend ss pool i)\<lparr>ab_up := v\<rparr>])"
proof -
  have i: "i < GetSize pool" and p: "pool' = pool\<lparr>m_services := (m_services pool)[i := probe_result config ec (m_services pool ! i)]\<rparr>"
    using assms by (auto simp: ServicePool_update_Inr GetSize_def)
  let ?v = "m_healthy (probe_result config ec (m_services pool ! i))"
  have "abs_pool ss pool' = (abs_pool ss pool)[i := (abs_backend ss pool i)\<lparr>ab_up := ?v\<rparr>]"
    using i by (intro abs_pool_eqI) (auto simp: abs_backend_def p GetSize_def)
  with i probe_result_up [of config ec "m_services pool ! i"] show ?thesis by (intro conjI exI [of _ ?v]) auto
qed

section \<open>Each step of the process is a step of the specification\<close>

definition simulates :: "'a process \<Rightarrow> 'a lb_event \<Rightarrow> 'a process \<Rightarrow> bool" where
  "simulates p e q \<longleftrightarrow> spec_step (balancer_abs p) (spec_event_of p e q) (balancer_abs q)"

lemma simulates_exit: "simulates (Running lb) e (Exited n)"
  by (simp add: simulates_def balancer_abs_def spec_stopped)

lemma accept_simulates:
  assumes ready: "strategy_ready (lb_strategy lb) (lb_pool lb)"
    and acc: "accept_complete strategy_select make_address opened remote ec
      (lb_pool lb) (lb_strategy lb) (lb_proxy lb) = Some r"
  shows "simulates (Running lb) (AcceptDone opened ec remote) (process_of (and_then r (\<lambda>r. Inr (accept_done r lb))))"
proof (cases r)
  case (Inl e)
  then show ?thesis by (simp add: simulates_exit)
next
  case (Inr x)
  let ?p = "(lb_proxy lb)\<lparr>p_accepts := remove1 opened (p_accepts (lb_proxy lb))\<rparr>"
  have same: ?thesis if "fst x = lb_pool lb" and "snd (snd (snd x)) = None"
    using that Inr spec_internal
    by (cases x) (simp add: simulates_def balancer_abs_def accept_done_def)
  show ?thesis
  proof (cases ec)
    case success
    show ?thesis
    proof (cases remote)
      case None
      with acc success Inr show ?thesis by (auto simp: accept_complete_def)
    next
      case (Some key)
      from ready show ?thesis
      proof (cases rule: strategy.OnAccept_success_cases [where key = key and make_address = make_address and p = ?p])
        case (dropped st')
        with acc success Some Inr have "x = (lb_pool lb, st', AcceptNext ?p, None)"
          by (simp add: accept_complete_def)
        then show ?thesis by (intro same) simp_all
      next
        case (routed i st')
        then obtain t where t: "started_session make_address (lb_pool lb) i ?p = Inr t"
          and x: "x = (with_connection i (lb_pool lb), st', AcceptNext ?p, Some t)"
          using acc success Some Inr by (auto simp: accept_complete_def and_then_eq_Inr_iff)
        have i: "i < GetSize (lb_pool lb)" "m_healthy (m_services (lb_pool lb) ! i)"
          using routed(2) by (simp_all add: healthy_at_def accessors)
        have b: "m_backend t = i" using started_session_inv [OF t] by simp
        let ?b = "abs_pool (lb_sessions lb) (lb_pool lb)"
        have "spec_step (Some ?b) (Connected i) (Some (?b[i := (?b ! i)\<lparr>ab_load := Suc (ab_load (?b ! i))\<rparr>]))"
          using i by (intro spec_connected) (simp_all add: abs_backend_def)
        with i b show ?thesis
          by (simp add: simulates_def balancer_abs_def Inr x accept_done_def abs_connect) (simp add: abs_backend_def)
      qed
    qed
  next
    case operation_aborted
    with acc Inr have "fst x = lb_pool lb" "snd (snd (snd x)) = None" by (auto simp: accept_complete_def)
    then show ?thesis by (rule same)
  next
    case (io_error n)
    with acc Inr have "fst x = lb_pool lb" "snd (snd (snd x)) = None" by (auto simp: accept_complete_def)
    then show ?thesis by (rule same)
  qed
qed

lemma session_simulates:
  assumes inv: "lb_inv max_files nodes lb" and i: "i < length (lb_sessions lb)"
    and step: "session_step (lb_sessions lb ! i) e t"
  shows "simulates (Running lb) (SessionDone i e) (process_of (session_done i t lb))"
proof -
  note b = session_step_backend [OF step]
  have pi: "pool_inv nodes (lb_sessions lb) (lb_pool lb)" using inv by (simp add: lb_inv_def)
  then have bound: "m_backend (lb_sessions lb ! i) < GetSize (lb_pool lb)" using i by (simp add: pool_inv_def)
  show ?thesis
  proof (cases "s_pending t = []")
    case True
    obtain pool' where p: "Session_destroy t (lb_pool lb) = Inr pool'" using pool_inv_disconnect [OF pi i b] by blast
    obtain n where n: "ab_load (abs_backend (lb_sessions lb) (lb_pool lb) (m_backend (lb_sessions lb ! i))) = Suc n"
      "abs_pool (take i (lb_sessions lb) @ drop (Suc i) (lb_sessions lb)) pool' =
        (abs_pool (lb_sessions lb) (lb_pool lb))[m_backend (lb_sessions lb ! i) :=
          (abs_backend (lb_sessions lb) (lb_pool lb) (m_backend (lb_sessions lb ! i)))\<lparr>ab_load := n\<rparr>]"
      using abs_disconnect [OF i b bound p] by blast
    let ?b = "abs_pool (lb_sessions lb) (lb_pool lb)" and ?k = "m_backend (lb_sessions lb ! i)"
    have "spec_step (Some ?b) (Disconnected ?k) (Some (?b[?k := (?b ! ?k)\<lparr>ab_load := n\<rparr>]))"
      using bound n(1) by (intro spec_disconnected) simp_all
    moreover have "length (lb_sessions lb) - Suc 0 < length (lb_sessions lb)" using i by simp
    ultimately show ?thesis using True p n(2) bound i
      by (simp add: simulates_def balancer_abs_def session_done_def)
  next
    case False
    have "live_on k ((lb_sessions lb)[i := t]) = live_on k (lb_sessions lb)" for k using live_on_update [OF i b] .
    then have "abs_pool ((lb_sessions lb)[i := t]) (lb_pool lb) = abs_pool (lb_sessions lb) (lb_pool lb)"
      by (simp add: abs_pool_def abs_backend_def)
    with False show ?thesis by (simp add: simulates_def balancer_abs_def session_done_def spec_internal)
  qed
qed

lemma checker_simulates:
  assumes "h \<in> set (m_pending hc)"
  shows "simulates (Running lb) (CheckerDone h ec)
    (process_of (and_then (hc_complete make_address h ec (lb_pool lb) hc) (\<lambda>r. Inr (checker_done r lb))))"
proof (cases "hc_complete make_address h ec (lb_pool lb) hc")
  case (Inl e)
  then show ?thesis by (simp add: simulates_exit)
next
  case (Inr r)
  show ?thesis
  proof (cases h)
    case (ProbeConnect i n a port)
    then obtain pool' where p: "ServicePool_update (lb_pool lb) i (probe_result (m_config hc) ec) = Inr pool'" "fst r = pool'"
      using Inr by (auto simp: hc_complete_def OnProbeConnect_def OnProbeResult_def Let_def and_then_eq_Inr_iff)
    let ?b = "abs_pool (lb_sessions lb) (lb_pool lb)"
    obtain v where v: "i < GetSize (lb_pool lb)" "v \<longrightarrow> is_error ec \<longrightarrow> m_healthy (m_services (lb_pool lb) ! i)" "\<not> is_error ec \<longrightarrow> v"
      "abs_pool (lb_sessions lb) pool' = ?b[i := (abs_backend (lb_sessions lb) (lb_pool lb) i)\<lparr>ab_up := v\<rparr>]"
      using abs_probe [OF p(1)] by blast
    have "spec_step (Some ?b) (if is_error ec then ProbeFailed i else ProbeOk i) (Some (?b[i := (?b ! i)\<lparr>ab_up := v\<rparr>]))"
    proof (cases "is_error ec")
      case True
      with v show ?thesis using spec_probe_failed [of i ?b v] by (simp add: abs_backend_def)
    next
      case False
      with v show ?thesis using spec_probe_ok [of i ?b] by simp
    qed
    with v p(2) ProbeConnect Inr show ?thesis by (simp add: simulates_def balancer_abs_def checker_done_def)
  next
    case RoundTimer
    with Inr have "fst r = lb_pool lb" by (auto simp: hc_complete_def and_then_eq_Inr_iff)
    with RoundTimer Inr show ?thesis by (simp add: simulates_def balancer_abs_def checker_done_def spec_internal)
  next
    case (ProbeTimeout n)
    with Inr have "fst r = lb_pool lb" by (auto simp: hc_complete_def Let_def)
    with ProbeTimeout Inr show ?thesis by (simp add: simulates_def balancer_abs_def checker_done_def spec_internal)
  qed
qed

lemma lb_step_simulates:
  assumes "process_inv max_files nodes p" and "lb_step make_address max_files p e q"
  shows "simulates p e q"
  using assms(2)
proof (cases rule: lb_step.cases)
  case (step_accept opened lb ec remote r)
  with assms(1) accept_simulates [of lb make_address opened remote ec r] show ?thesis by (simp add: lb_inv_def)
next
  case (step_session i lb e t)
  with assms(1) session_simulates [of max_files nodes lb i e t] show ?thesis by simp
next
  case (step_checker lb hc h ec)
  with checker_simulates show ?thesis by auto
next
  case (step_signal lb ec)
  then show ?thesis by (simp add: simulates_def balancer_abs_def on_signal_def spec_internal)
next
  case (step_end lb)
  then show ?thesis by (simp add: simulates_exit)
qed

lemma started_simulates:
  assumes "started pf config p"
  shows "spec_init (m_nodes config) (balancer_abs p)"
proof (cases p)
  case (Exited n)
  then show ?thesis by (simp add: balancer_abs_def spec_init_def)
next
  case (Running lb)
  with assms have "main_configured pf config = Running lb" by (simp add: started_def)
  then show ?thesis
  proof (cases rule: main_configured_Running)
    case (1 strategy proxy)
    have "abs_pool [] (ServicePool_new nodes) = map (\<lambda>node. \<lparr>ab_node = node, ab_up = True, ab_load = 0\<rparr>) nodes" for nodes
      by (rule nth_equalityI) (simp_all add: abs_backend_def ServicePool_new_def ServiceState_new_def GetSize_def)
    with 1 Running show ?thesis by (simp add: balancer_abs_def spec_init_def)
  qed
qed

text \<open>Processes whose platform and descriptor limit are as presumed throughout.\<close>

definition proper_start :: "('a, 'n, 'f) platform \<Rightarrow> nat \<Rightarrow> LoadBalancerConfig \<Rightarrow> 'a process \<Rightarrow> bool" where
  "proper_start pf max_files config p \<longleftrightarrow> started pf config p \<and> dist_ok (pf_dist pf) \<and> max_files < 2 ^ 64"

lemma proper_reach:
  assumes "reach (proper_start pf max_files config) (lb_step (pf_make_address pf) max_files) p"
  shows "process_inv max_files (m_nodes config) p \<and> max_files < 2 ^ 64"
  using assms
proof (induction rule: reach.induct)
  case (reach_init s)
  then show ?case using started_inv by (auto simp: proper_start_def)
next
  case (reach_step s e t)
  then show ?case using lb_step_inv by blast
qed

interpretation balancer: refinement "proper_start pf max_files config" "lb_step (pf_make_address pf) max_files"
    "process_inv max_files (m_nodes config)" "spec_init (m_nodes config)" spec_step balancer_abs spec_event_of
  for pf max_files config
proof
  fix p q e
  show "reach (proper_start pf max_files config) (lb_step (pf_make_address pf) max_files) p \<Longrightarrow>
      process_inv max_files (m_nodes config) p"
    using proper_reach by blast
  show "proper_start pf max_files config p \<Longrightarrow> spec_init (m_nodes config) (balancer_abs p)"
    unfolding proper_start_def by (blast intro: started_simulates)
  show "process_inv max_files (m_nodes config) p \<Longrightarrow> lb_step (pf_make_address pf) max_files p e q \<Longrightarrow>
      spec_step (balancer_abs p) (spec_event_of p e q) (balancer_abs q)"
    using lb_step_simulates unfolding simulates_def by blast
qed

section \<open>Properties\<close>

lemma reach_proper:
  assumes "reach (started pf config) step p" and "dist_ok (pf_dist pf)" and "max_files < 2 ^ 64"
  shows "reach (proper_start pf max_files config) step p"
  using assms(1)
proof (induction rule: reach.induct)
  case (reach_init p)
  with assms(2,3) show ?case by (intro reach.reach_init) (simp add: proper_start_def)
next
  case (reach_step p e q)
  then show ?case by (blast intro: reach.reach_step)
qed

text \<open>
  C2: the process refines the specification. Whatever the order and outcome of its completions, it is
  at any time in a state the specification reaches from all backends up and idle, and each of its
  steps is the step of the specification named by \<open>spec_event_of\<close>: a new session is a connection to
  a backend that is up, a session that ends is a disconnection from its own backend, a probe changes
  the availability of the probed backend only (and a failed one never brings it up), everything else
  is invisible, until the process stops.
\<close>

theorem process_refines_balancer:
  assumes "reach (started pf config) (lb_step (pf_make_address pf) max_files) p"
    and "dist_ok (pf_dist pf)" and "max_files < 2 ^ 64"
  shows "reach (spec_init (m_nodes config)) spec_step (balancer_abs p) \<and>
    (\<forall>e q. lb_step (pf_make_address pf) max_files p e q \<longrightarrow>
       spec_step (balancer_abs p) (spec_event_of p e q) (balancer_abs q))"
proof -
  note p = reach_proper [OF assms]
  have "reach (spec_init (m_nodes config)) spec_step (balancer_abs p)" using p by (rule balancer.reach_sim)
  moreover have "spec_step (balancer_abs p) (spec_event_of p e q) (balancer_abs q)"
    if "lb_step (pf_make_address pf) max_files p e q" for e q
    using p that by (rule balancer.reachable_step_sim)
  ultimately show ?thesis by blast
qed

theorem process_refines_balancer_witness:
  "\<exists>lb :: string LoadBalancer. length (lb_sessions lb) = 1 \<and>
     spec_step (Some [\<lparr>ab_node = ServiceNode_new ''web-1'' ''10.0.0.1'' 8080 1, ab_up = True, ab_load = 0\<rparr>])
       (Connected (m_backend (last (lb_sessions lb)))) (balancer_abs (Running lb)) \<and>
     balancer_abs (Running lb) = Some [\<lparr>ab_node = ServiceNode_new ''web-1'' ''10.0.0.1'' 8080 1, ab_up = True, ab_load = 1\<rparr>]"
proof -
  obtain lb where step: "lb_step (pf_make_address demo_platform) 1024 (Running demo_process)
      (AcceptDone True success (Some ''10.9.9.9'')) (Running lb)" and one: "length (lb_sessions lb) = 1"
    using demo_accept by auto
  have start: "balancer_abs (Running demo_process) =
      Some [\<lparr>ab_node = ServiceNode_new ''web-1'' ''10.0.0.1'' 8080 1, ab_up = True, ab_load = 0\<rparr>]"
    by (simp add: balancer_abs_def demo_process_def demo_config_def accessors ServicePool_new_def ServiceState_new_def
        abs_pool_def abs_backend_def GetSize_def)
  have ev: "spec_event_of (Running demo_process) (AcceptDone True success (Some ''10.9.9.9'')) (Running lb) =
      Connected (m_backend (last (lb_sessions lb)))"
    using one by (simp add: demo_process_def)
  have "(1024 :: nat) < 2 ^ 64" by simp
  from process_refines_balancer [OF demo_process_reach demo_platform_ok(1) this] step
  have s: "spec_step (balancer_abs (Running demo_process))
      (spec_event_of (Running demo_process) (AcceptDone True success (Some ''10.9.9.9'')) (Running lb)) (balancer_abs (Running lb))"
    by blast
  then have "spec_step (Some [\<lparr>ab_node = ServiceNode_new ''web-1'' ''10.0.0.1'' 8080 1, ab_up = True, ab_load = 0\<rparr>])
      (Connected (m_backend (last (lb_sessions lb)))) (balancer_abs (Running lb))" unfolding start ev .
  then have "balancer_abs (Running lb) =
      Some [\<lparr>ab_node = ServiceNode_new ''web-1'' ''10.0.0.1'' 8080 1, ab_up = True, ab_load = 1\<rparr>]"
    by (elim spec_connectedE) (simp only: list.size add_0 less_one One_nat_def [symmetric] nth_Cons_0 list_update.simps
        nat.case backend.simps simp_thms option.inject)
  with one s start ev show ?thesis by auto
qed

end
