(* ===== verification/Session_Spec.thy ===== *)
theory Session_Spec
  imports Session
begin

text \<open>
  What a session of \<open>core/proxy/Session\<close> promises, as a state machine of its own: a relay with a bounded
  pipe in each direction. The session, with its buffers, sockets, timers and outstanding operations,
  refines it.
\<close>

section \<open>The relay\<close>

text \<open>The bytes in each pipe, \<open>rl_up\<close> towards the backend, and whether the relay is still open.\<close>

record relay =
  rl_open :: bool
  rl_up :: string
  rl_down :: string

datatype relay_event =
    UpIn string
  | UpOut string
  | UpBreak string
  | DownIn string
  | DownOut string
  | DownBreak string
  | Close
  | Idle

text \<open>
  A pipe takes in a chunk only when it is empty, at most a buffer, and gives it out whole and unchanged;
  or it breaks after giving out a part of it, which closes the relay. A closed relay stays closed.
\<close>

inductive relay_step :: "relay \<Rightarrow> relay_event \<Rightarrow> relay \<Rightarrow> bool" where
  up_in: "rl_up r = [] \<Longrightarrow> bs \<noteq> [] \<Longrightarrow> length bs \<le> 8192 \<Longrightarrow> relay_step r (UpIn bs) (r\<lparr>rl_up := bs\<rparr>)"
| up_out: "rl_up r = bs \<Longrightarrow> relay_step r (UpOut bs) (r\<lparr>rl_up := []\<rparr>)"
| up_break: "rl_up r = bs @ rest \<Longrightarrow> relay_step r (UpBreak bs) (r\<lparr>rl_open := False, rl_up := rest\<rparr>)"
| down_in: "rl_down r = [] \<Longrightarrow> bs \<noteq> [] \<Longrightarrow> length bs \<le> 8192 \<Longrightarrow> relay_step r (DownIn bs) (r\<lparr>rl_down := bs\<rparr>)"
| down_out: "rl_down r = bs \<Longrightarrow> relay_step r (DownOut bs) (r\<lparr>rl_down := []\<rparr>)"
| down_break: "rl_down r = bs @ rest \<Longrightarrow> relay_step r (DownBreak bs) (r\<lparr>rl_open := False, rl_down := rest\<rparr>)"
| close: "relay_step r Close (r\<lparr>rl_open := False\<rparr>)"
| idle: "relay_step r Idle r"

definition relay_init :: "relay \<Rightarrow> bool" where
  "relay_init r \<longleftrightarrow> r = \<lparr>rl_open = True, rl_up = [], rl_down = []\<rparr>"

text \<open>What a run takes in and gives out towards the backend.\<close>

fun up_taken :: "relay_event list \<Rightarrow> string" where
  "up_taken [] = []"
| "up_taken (UpIn bs # es) = bs @ up_taken es"
| "up_taken (_ # es) = up_taken es"

fun up_given :: "relay_event list \<Rightarrow> string" where
  "up_given [] = []"
| "up_given (UpOut bs # es) = bs @ up_given es"
| "up_given (UpBreak bs # es) = bs @ up_given es"
| "up_given (_ # es) = up_given es"

inductive relay_run :: "relay \<Rightarrow> relay_event list \<Rightarrow> relay \<Rightarrow> bool" where
  relay_run_nil: "relay_run r [] r"
| relay_run_cons: "relay_step r e r1 \<Longrightarrow> relay_run r1 es r2 \<Longrightarrow> relay_run r (e # es) r2"

text \<open>What went in is what came out, in order, and what is still in the pipe.\<close>

lemma relay_run_fifo: "relay_run r es r' \<Longrightarrow> rl_up r @ up_taken es = up_given es @ rl_up r'"
proof (induction rule: relay_run.induct)
  case (relay_run_cons r e r1 es r2)
  from relay_run_cons.hyps(1) relay_run_cons.IH show ?case by (cases rule: relay_step.cases) auto
qed simp

section \<open>The session as a relay\<close>

definition relay_abs :: "'a Session \<Rightarrow> relay" where
  "relay_abs s =
     \<lparr>rl_open = (\<not> m_shuttingDown s), rl_up = drop (length (s_toBackend s)) (s_fromClient s),
      rl_down = drop (length (s_toClient s)) (s_fromBackend s)\<rparr>"

fun relay_event_of :: "'a session_event \<Rightarrow> relay_event" where
  "relay_event_of ((ClientRead, _), ec, bs) = (if is_error ec then Close else UpIn bs)"
| "relay_event_of ((BackendWrite _, _), ec, bs) = (if is_error ec then UpBreak bs else UpOut bs)"
| "relay_event_of ((BackendRead, _), ec, bs) = (if is_error ec then Close else DownIn bs)"
| "relay_event_of ((ClientWrite _, _), ec, bs) = (if is_error ec then DownBreak bs else DownOut bs)"
| "relay_event_of ((Connect _ _, _), ec, bs) = (if is_error ec then Close else Idle)"
| "relay_event_of ((_, _), ec, bs) = (if is_error ec then Idle else Close)"

text \<open>What the invariant says of a direction while an operation of it completes.\<close>

lemma client_direction:
  assumes "session_inv s" and "(h, l) \<in> set (s_pending s)" and "client_op h"
  shows "(case writes_backend h of
      Some n \<Rightarrow> n \<le> BUFFER_SIZE \<and> s_fromClient s = s_toBackend s @ take n (m_clientBuf s)
    | None \<Rightarrow> s_fromClient s = s_toBackend s)"
proof -
  have d: "direction_inv writes_backend (client_ops s) (s_fromClient s) (s_toBackend s) (m_clientBuf s)"
    using assms(1) by (simp add: session_inv_def)
  have "client_ops s = [h]"
    using ops_remove_own [of h l "s_pending s" client_op] assms(2,3) direction_inv_length [OF d] by (simp add: client_ops_def)
  with d show ?thesis by simp
qed

lemma backend_direction:
  assumes "session_inv s" and "(h, l) \<in> set (s_pending s)" and "backend_op h"
  shows "(case writes_client h of
      Some n \<Rightarrow> n \<le> BUFFER_SIZE \<and> s_fromBackend s = s_toClient s @ take n (m_backendBuf s)
    | None \<Rightarrow> s_fromBackend s = s_toClient s)"
proof -
  have d: "direction_inv writes_client (backend_ops s) (s_fromBackend s) (s_toClient s) (m_backendBuf s)"
    using assms(1) by (simp add: session_inv_def)
  have "backend_ops s = [h]"
    using ops_remove_own [of h l "s_pending s" backend_op] assms(2,3) direction_inv_length [OF d] by (simp add: backend_ops_def)
  with d show ?thesis by simp
qed

lemma relay_stepI: "relay_step r e r1 \<Longrightarrow> r1 = r2 \<Longrightarrow> relay_step r e r2"
  by simp

lemma take_split: "k \<le> n \<Longrightarrow> take n b = take k b @ drop k (take n b)"
  by (metis append_take_drop_id min.absorb1 take_take)

text \<open>One lemma per direction: a read fills the empty pipe, a write empties it.\<close>

lemma client_sim:
  assumes inv: "session_inv s" and h: "(h, l) \<in> set (s_pending s)" and ok: "completion_ok (h, l) ec bs s"
    and op: "h = ClientRead \<or> (\<exists>n. h = BackendWrite n)"
  shows "relay_step (relay_abs s) (relay_event_of ((h, l), ec, bs)) (relay_abs (session_complete (h, l) ec bs s))"
  using op
proof (elim disjE exE)
  assume read: "h = ClientRead"
  with client_direction [OF inv h] have sent: "s_fromClient s = s_toBackend s" by simp
  show ?thesis
  proof (cases "is_error ec")
    case False
    with ok read have "bs \<noteq> []" "length bs \<le> 8192" by (simp_all add: completion_ok_def BUFFER_SIZE_def)
    from up_in [OF _ this, of "relay_abs s"] sent False read show ?thesis
      by (simp add: relay_abs_def handlers Let_def)
  next
    case True
    with ok read close [of "relay_abs s"] show ?thesis
      by (cases "m_shuttingDown s") (simp_all add: completion_ok_def relay_abs_def handlers Let_def)
  qed
next
  fix n assume writes: "h = BackendWrite n"
  with client_direction [OF inv h] have sent: "s_fromClient s = s_toBackend s @ take n (m_clientBuf s)" by simp
  show ?thesis
  proof (cases "is_error ec")
    case False
    with ok writes have "bs = take n (m_clientBuf s)" by (simp add: completion_ok_def)
    with up_out [of "relay_abs s", OF refl] sent False writes show ?thesis
      by (simp add: relay_abs_def handlers Let_def)
  next
    case True
    with ok writes obtain k where k: "k \<le> n" "bs = take k (m_clientBuf s)" by (auto simp: completion_ok_def)
    define rest where "rest = drop k (take n (m_clientBuf s))"
    with sent k take_split [of k n "m_clientBuf s"] have rest: "s_fromClient s = s_toBackend s @ bs @ rest" by simp
    with up_break [of "relay_abs s" bs rest] True writes show ?thesis
      by (cases "m_shuttingDown s") (simp_all add: relay_abs_def handlers Let_def)
  qed
qed

lemma backend_sim:
  assumes inv: "session_inv s" and h: "(h, l) \<in> set (s_pending s)" and ok: "completion_ok (h, l) ec bs s"
    and op: "h = BackendRead \<or> (\<exists>n. h = ClientWrite n)"
  shows "relay_step (relay_abs s) (relay_event_of ((h, l), ec, bs)) (relay_abs (session_complete (h, l) ec bs s))"
  using op
proof (elim disjE exE)
  assume read: "h = BackendRead"
  with backend_direction [OF inv h] have sent: "s_fromBackend s = s_toClient s" by simp
  show ?thesis
  proof (cases "is_error ec")
    case False
    with ok read have "bs \<noteq> []" "length bs \<le> 8192" by (simp_all add: completion_ok_def BUFFER_SIZE_def)
    from down_in [OF _ this, of "relay_abs s"] sent False read show ?thesis
      by (simp add: relay_abs_def handlers Let_def)
  next
    case True
    with ok read close [of "relay_abs s"] show ?thesis
      by (cases "m_shuttingDown s") (simp_all add: completion_ok_def relay_abs_def handlers Let_def)
  qed
next
  fix n assume writes: "h = ClientWrite n"
  with backend_direction [OF inv h] have sent: "s_fromBackend s = s_toClient s @ take n (m_backendBuf s)" by simp
  show ?thesis
  proof (cases "is_error ec")
    case False
    with ok writes have "bs = take n (m_backendBuf s)" by (simp add: completion_ok_def)
    with down_out [of "relay_abs s", OF refl] sent False writes show ?thesis
      by (simp add: relay_abs_def handlers Let_def)
  next
    case True
    with ok writes obtain k where k: "k \<le> n" "bs = take k (m_backendBuf s)" by (auto simp: completion_ok_def)
    define rest where "rest = drop k (take n (m_backendBuf s))"
    with sent k take_split [of k n "m_backendBuf s"] have rest: "s_fromBackend s = s_toClient s @ bs @ rest" by simp
    with down_break [of "relay_abs s" bs rest] True writes show ?thesis
      by (cases "m_shuttingDown s") (simp_all add: relay_abs_def handlers Let_def)
  qed
qed

lemma other_sim:
  assumes ok: "completion_ok (h, l) ec bs s" and "h = ConnectTimer \<or> h = IdleTimer \<or> (\<exists>a port. h = Connect a port)"
  shows "relay_step (relay_abs s) (relay_event_of ((h, l), ec, bs)) (relay_abs (session_complete (h, l) ec bs s))"
  using assms(2) idle [of "relay_abs s"] close [of "relay_abs s"]
  by (elim disjE exE; cases "is_error ec"; cases "m_shuttingDown s") (simp_all add: relay_abs_def handlers Let_def)

lemma session_step_sim:
  assumes "session_inv s" and "session_step s e t"
  shows "relay_step (relay_abs s) (relay_event_of e) (relay_abs t)"
proof -
  obtain h l ec bs where e: "e = ((h, l), ec, bs)" by (cases e) auto
  with assms(2) have "(h, l) \<in> set (s_pending s)" "completion_ok (h, l) ec bs s"
    and t: "t = session_complete (h, l) ec bs s" by auto
  then show ?thesis
    using client_sim [OF assms(1), of h l ec bs] backend_sim [OF assms(1), of h l ec bs] other_sim [of h l ec bs s]
    unfolding e t by (cases h) blast+
qed

lemma session_init_relay: "session_init make_address s \<Longrightarrow> relay_init (relay_abs s)"
  by (auto simp: session_init_def Session_Start_eq relay_init_def relay_abs_def split: option.splits)
     (simp_all add: Session_new_def)

interpretation relay: refinement "session_init make_address" session_step session_inv relay_init relay_step
    relay_abs "\<lambda>s e t. relay_event_of e"
  for make_address :: "'a address_parser"
  by unfold_locales (fact session.reachable_inv, fact session_init_relay, fact session_step_sim)

section \<open>Property\<close>

text \<open>
  C4: a session refines the relay. Every handler of a session the proxy can have, whatever the I/O
  service reports, is a step of a relay with a bounded pipe in each direction that is open exactly while
  the session has not shut down; and what such a relay takes in towards the backend, in whole runs, is
  what it gives out, in order, and what is still in the pipe.
\<close>

theorem session_refines_relay:
  assumes "reach (session_init make_address) session_step s" and "session_step s e t"
  shows "relay_step (relay_abs s) (relay_event_of e) (relay_abs t) \<and> reach relay_init relay_step (relay_abs s) \<and>
    (\<forall>es r. relay_run (relay_abs s) es r \<longrightarrow> rl_up (relay_abs s) @ up_taken es = up_given es @ rl_up r)"
  using relay.reachable_step_sim [OF assms] relay.reach_sim [OF assms(1)] relay_run_fifo by blast

theorem session_refines_relay_witness:
  "relay_step (relay_abs demo_written) Close (relay_abs demo_closed) \<and> rl_open (relay_abs demo_written)"
  using session_refines_relay [OF demo_reach(1) demo_steps(4)] demo_logs(5)
  by (simp add: relay_abs_def is_error_def)

end
