(* ===== verification/Session_Timers.thy ===== *)
theory Session_Timers
  imports Session
begin

text \<open>
  The two timers of a session: which waits are live (not cancelled) in a reachable state. An open
  session always has exactly one, so that it ends without traffic; a session that has shut down may
  have one too, which nothing cancels any more.
\<close>

section \<open>Live waits\<close>

definition live_waits :: "'a session_op \<Rightarrow> ('a session_op \<times> bool) list \<Rightarrow> nat" where
  "live_waits h xs = count_list xs (h, True)"

fun is_connect :: "'a session_op \<Rightarrow> bool" where
  "is_connect (Connect a port) = True"
| "is_connect _ = False"

definition connecting :: "'a Session \<Rightarrow> bool" where
  "connecting s \<longleftrightarrow> (\<exists>h\<in>set (client_ops s). is_connect h)"

text \<open>The waits an open session has.\<close>

definition timer_inv :: "'a Session \<Rightarrow> bool" where
  "timer_inv s \<longleftrightarrow>
     live_waits ConnectTimer (s_pending s) \<le> 1 \<and> live_waits IdleTimer (s_pending s) \<le> 1 \<and>
     (\<not> m_shuttingDown s \<longrightarrow>
        live_waits ConnectTimer (s_pending s) = (if connecting s then 1 else 0) \<and>
        live_waits IdleTimer (s_pending s) = (if \<not> connecting s \<and> 0 < m_idleTimeoutMs s then 1 else 0))"

lemma live_waits_simps [simp]:
  "live_waits h [] = 0"
  "live_waits h (x # xs) = (if x = (h, True) then 1 else 0) + live_waits h xs"
  "live_waits h (xs @ ys) = live_waits h xs + live_waits h ys"
  by (simp_all add: live_waits_def)

lemma live_waits_cancel [simp]:
  "live_waits h (cancel_in g xs) = (if h = g then 0 else live_waits h xs)"
  by (induction xs) (auto simp: prod_eq_iff)

lemma live_waits_remove1:
  "p \<in> set xs \<Longrightarrow> live_waits h xs = (if p = (h, True) then 1 else 0) + live_waits h (remove1 p xs)"
  by (induction xs) auto

lemma live_waits_pos: "0 < live_waits h xs \<longleftrightarrow> (h, True) \<in> set xs"
  by (induction xs) auto

lemma timer_step:
  assumes "session_inv s" and "timer_inv s" and "session_step s e t"
  shows "timer_inv t"
proof -
  obtain h l ec bs where e: "e = ((h, l), ec, bs)" by (cases e) auto
  with assms(3) have h: "(h, l) \<in> set (s_pending s)" and ok: "completion_ok (h, l) ec bs s"
    and t: "t = session_complete (h, l) ec bs s" by auto
  have len: "length (client_ops s) \<le> 1"
    using assms(1) by (auto simp: session_inv_def dest!: direction_inv_length)
  have c: "if client_op h then client_ops s = [h] \<and> ops_of client_op (remove1 (h, l) (s_pending s)) = []
     else ops_of client_op (remove1 (h, l) (s_pending s)) = client_ops s"
    using ops_remove_own [OF h, of client_op] ops_remove_other [of client_op h l] len by (simp add: client_ops_def)
  note w = live_waits_remove1 [OF h, of ConnectTimer] live_waits_remove1 [OF h, of IdleTimer]
  show ?thesis
    using assms(2) ok c w unfolding t
    by (cases h; cases "is_error ec"; cases l; cases "m_shuttingDown s")
       (auto simp: timer_inv_def connecting_def completion_ok_def handlers Let_def client_ops_def split: if_splits)
qed

lemma timer_init:
  assumes "session_init make_address s"
  shows "timer_inv s"
  using assms unfolding session_init_def Session_Start_eq
  by (auto simp: timer_inv_def connecting_def client_ops_def Session_new_def)

interpretation timers: inductive_invariant "session_init make_address" session_step "\<lambda>s. session_inv s \<and> timer_inv s"
  for make_address :: "'a address_parser"
proof unfold_locales
  show "session_inv s \<and> timer_inv s" if "session_init make_address s" for s
    using session_init_inv [OF that] timer_init [OF that] ..
  show "session_inv t \<and> timer_inv t" if "session_inv s \<and> timer_inv s" "session_step s e t" for s e t
    using session_step_inv [OF conjunct1 [OF that(1)] that(2)]
      timer_step [OF conjunct1 [OF that(1)] conjunct2 [OF that(1)] that(2)] ..
qed

section \<open>Waits after a shutdown\<close>

lemma shutdown_keeps_live_wait:
  assumes "m_shuttingDown s" and "(IdleTimer, True) \<in> set (s_pending s)" and "session_step s e t"
    and "fst e \<noteq> (IdleTimer, True)"
  shows "m_shuttingDown t \<and> (IdleTimer, True) \<in> set (s_pending t)"
proof -
  obtain h l ec bs where e: "e = ((h, l), ec, bs)" by (cases e) auto
  with assms(3) have h: "(h, l) \<in> set (s_pending s)" and t: "t = session_complete (h, l) ec bs s" by auto
  have "0 < live_waits IdleTimer (remove1 (h, l) (s_pending s))"
    using live_waits_remove1 [OF h, of IdleTimer] assms(2,4) e live_waits_pos [of IdleTimer "s_pending s"] by auto
  with assms(1) show ?thesis unfolding t live_waits_pos [symmetric]
    by (cases h; cases "is_error ec") (auto simp: handlers Let_def)
qed

lemma shutdown_run_keeps_live_wait:
  assumes "session_run s es t" and "m_shuttingDown s" and "(IdleTimer, True) \<in> set (s_pending s)"
    and "\<forall>e\<in>set es. fst e \<noteq> (IdleTimer, True)"
  shows "m_shuttingDown t \<and> (IdleTimer, True) \<in> set (s_pending t)"
  using assms
proof (induction rule: session_run.induct)
  case (session_run_nil s)
  then show ?case by simp
next
  case (session_run_cons s e t es u)
  with shutdown_keeps_live_wait [OF session_run_cons.prems(1,2) session_run_cons.hyps(1)] show ?case by simp
qed

text \<open>
  A session whose backend ends the stream while the last write to it has already succeeded: the
  handler of the write finds the session shut down and arms the idle timer again.
\<close>

definition demo_backend_gone :: "string Session" where
  "demo_backend_gone = session_complete (BackendRead, True) (io_error 2) [] demo_read"

definition demo_lingering :: "string Session" where
  "demo_lingering = session_complete (BackendWrite 2, True) success ''hi'' demo_backend_gone"

lemma demo_lingering_pending:
  "s_pending demo_backend_gone = [(ConnectTimer, False), (IdleTimer, False), (BackendWrite 2, True)]"
  "s_pending demo_lingering = [(ConnectTimer, False), (IdleTimer, False), (IdleTimer, True), (ClientRead, False)]"
  "m_clientBuf demo_backend_gone = m_clientBuf demo_read" "m_shuttingDown demo_lingering"
  by (simp_all add: demo_lingering_def demo_backend_gone_def demo_started_def demo_connected_def demo_read_def
      Session_new_def handlers Let_def)

lemma demo_lingering_reach: "reach (session_init Some) session_step demo_lingering"
proof -
  have "session_step demo_read ((BackendRead, True), io_error 2, []) demo_backend_gone"
    unfolding demo_backend_gone_def by (rule session_stepI) (simp_all add: demo_pending completion_ok_def)
  moreover have "session_step demo_backend_gone ((BackendWrite 2, True), success, ''hi'') demo_lingering"
    unfolding demo_lingering_def using demo_logs(3)
    by (intro session_stepI) (auto simp: demo_lingering_pending completion_ok_def intro!: exI [of _ 2])
  ultimately show ?thesis
    using demo_steps(1,2) reach_init [of "session_init Some", OF demo_init] by (meson reach_step)
qed

section \<open>Properties\<close>

text \<open>
  C14: an open session can always end without traffic. While it connects, exactly one wait on the
  connect timer is live; once connected, that wait is cancelled and, when an idle timeout is
  configured, exactly one wait on the idle timer is live, however many waits were cancelled; and a
  live wait ends only by its timer's expiry, which shuts the session down.
\<close>

theorem session_timers_armed:
  assumes "reach (session_init make_address) session_step s" and "\<not> m_shuttingDown s"
  shows "(if \<exists>a port l. (Connect a port, l) \<in> set (s_pending s)
      then count_list (s_pending s) (ConnectTimer, True) = 1 \<and> count_list (s_pending s) (IdleTimer, True) = 0
      else count_list (s_pending s) (ConnectTimer, True) = 0 \<and>
           count_list (s_pending s) (IdleTimer, True) = (if 0 < m_idleTimeoutMs s then 1 else 0)) \<and>
    (\<forall>h ec bs t. session_step s ((h, True), ec, bs) t \<and> (h = ConnectTimer \<or> h = IdleTimer) \<longrightarrow>
       ec = success \<and> m_shuttingDown t)"
proof -
  have inv: "timer_inv s" using timers.reachable_inv [OF assms(1)] by simp
  have c: "connecting s \<longleftrightarrow> (\<exists>a port l. (Connect a port, l) \<in> set (s_pending s))"
    by (force simp: connecting_def client_ops_def ops_of_def elim!: is_connect.elims intro: rev_bexI)
  have ends: "ec = success \<and> m_shuttingDown t"
    if "session_step s ((h, True), ec, bs) t" "h = ConnectTimer \<or> h = IdleTimer" for h ec bs t
    using that by (cases ec) (auto simp: completion_ok_def handlers Let_def)
  have "if \<exists>a port l. (Connect a port, l) \<in> set (s_pending s)
      then count_list (s_pending s) (ConnectTimer, True) = 1 \<and> count_list (s_pending s) (IdleTimer, True) = 0
      else count_list (s_pending s) (ConnectTimer, True) = 0 \<and>
           count_list (s_pending s) (IdleTimer, True) = (if 0 < m_idleTimeoutMs s then 1 else 0)"
    using inv assms(2) unfolding timer_inv_def live_waits_def c by (simp split: if_splits)
  moreover have "\<forall>h ec bs t. session_step s ((h, True), ec, bs) t \<and> (h = ConnectTimer \<or> h = IdleTimer) \<longrightarrow>
      ec = success \<and> m_shuttingDown t" by (intro allI impI, elim conjE, rule ends)
  ultimately show ?thesis by (rule conjI)
qed

theorem session_timers_armed_witness:
  "count_list (s_pending demo_written) (IdleTimer, True) = 1 \<and> 0 < m_idleTimeoutMs demo_written \<and>
   count_list (s_pending demo_started) (ConnectTimer, True) = 1"
proof -
  have "\<not> m_shuttingDown demo_started" "0 < m_idleTimeoutMs demo_written"
    by (simp_all add: demo_written_def demo_read_def demo_connected_def demo_started_def Session_new_def handlers Let_def)
  with session_timers_armed [OF demo_reach(1) demo_logs(5)]
    session_timers_armed [OF reach_init [of "session_init Some", OF demo_init]]
  show ?thesis by (auto simp: demo_pending)
qed

text \<open>
  C15: a session can outlive its shutdown by the whole idle timeout. When the handler of a write to the
  backend that had succeeded runs after the shutdown, it arms the idle timer, and nothing cancels
  that wait: until the timer expires the session is held, and counted on its backend.
\<close>

theorem session_lingers_after_shutdown:
  assumes "m_shuttingDown s" and "0 < m_idleTimeoutMs s"
    and "session_step s ((BackendWrite n, l), success, bs) s1"
    and "session_run s1 es t" and "\<forall>e\<in>set es. fst e \<noteq> (IdleTimer, True)"
  shows "m_shuttingDown t \<and> (IdleTimer, True) \<in> set (s_pending t) \<and>
    (\<forall>ec u bs. session_step t ((IdleTimer, True), ec, bs) u \<longrightarrow> ec = success)"
proof -
  have "m_shuttingDown s1 \<and> (IdleTimer, True) \<in> set (s_pending s1)"
    using assms(1-3) by (auto simp: handlers Let_def)
  from shutdown_run_keeps_live_wait [OF assms(4) _ _ assms(5)] this
  have t: "m_shuttingDown t" "(IdleTimer, True) \<in> set (s_pending t)" by auto
  moreover have "ec = success" if "session_step t ((IdleTimer, True), ec, bs) u" for ec u bs
    using that by (cases ec) (auto simp: completion_ok_def)
  ultimately show ?thesis by auto
qed

theorem session_lingers_after_shutdown_witness:
  "\<exists>t. session_run demo_lingering [((ClientRead, False), io_error 9, [])] t \<and>
     reach (session_init Some) session_step demo_lingering \<and> m_shuttingDown t \<and> (IdleTimer, True) \<in> set (s_pending t)"
proof -
  let ?t = "session_complete (ClientRead, False) (io_error 9) [] demo_lingering"
  have "session_step demo_lingering ((ClientRead, False), io_error 9, []) ?t"
    by (rule session_stepI) (simp_all add: demo_lingering_pending completion_ok_def)
  then have run: "session_run demo_lingering [((ClientRead, False), io_error 9, [])] ?t"
    by (rule session_run_cons) (rule session_run_nil)
  have written: "session_step demo_backend_gone ((BackendWrite 2, True), success, ''hi'') demo_lingering"
    unfolding demo_lingering_def using demo_logs(3)
    by (intro session_stepI) (auto simp: demo_lingering_pending completion_ok_def intro!: exI [of _ 2])
  have "m_shuttingDown demo_backend_gone" "0 < m_idleTimeoutMs demo_backend_gone"
    by (simp_all add: demo_backend_gone_def demo_read_def demo_connected_def demo_started_def Session_new_def handlers Let_def)
  from session_lingers_after_shutdown [OF this written run] run demo_lingering_reach show ?thesis by auto
qed

end
