(* ===== verification/Graceful_Shutdown.thy ===== *)
theory Graceful_Shutdown
  imports Load_Balancer "HOL-Library.Multiset"
begin

text \<open>
  What a signal does to the whole process of \<open>core/main.cpp\<close>. Its handler stops the checker and closes
  the acceptor, but no session: those end by themselves. Once the outstanding accept has been aborted
  the process is \<open>draining\<close>, and stays so; the lemmas here say what it can still do, and how long it can
  take after the last session has shut down.
\<close>

section \<open>Draining\<close>

definition draining :: "'a LoadBalancer \<Rightarrow> bool" where
  "draining lb \<longleftrightarrow>
     p_accepts (lb_proxy lb) = [] \<and> \<not> lb_signalPending lb \<and>
     (\<forall>hc. lb_checker lb = Some hc \<longrightarrow> m_stopped hc)"

text \<open>The backends of the connections that are open.\<close>

definition open_on :: "'a LoadBalancer \<Rightarrow> nat multiset" where
  "open_on lb = mset (map m_backend (lb_sessions lb))"

text \<open>How many handlers can still run when every session has shut down; one more ends the loop.\<close>

definition checker_weight :: "'a HealthChecker option \<Rightarrow> nat" where
  "checker_weight c = (case c of None \<Rightarrow> 0 | Some hc \<Rightarrow> length (m_pending hc))"

definition drain_weight :: "'a LoadBalancer \<Rightarrow> nat" where
  "drain_weight lb = sum_list (map session_weight (lb_sessions lb)) + checker_weight (lb_checker lb) + 1"

fun process_weight :: "'a process \<Rightarrow> nat" where
  "process_weight (Running lb) = drain_weight lb"
| "process_weight (Exited n) = 0"

definition all_shut :: "'a LoadBalancer \<Rightarrow> bool" where
  "all_shut lb \<longleftrightarrow> (\<forall>s\<in>set (lb_sessions lb). m_shuttingDown s)"

lemma drain_weight_pos: "0 < drain_weight lb"
  by (simp add: drain_weight_def)

lemma drain_weight_nonzero [simp]: "drain_weight lb \<noteq> 0"
  by (simp add: drain_weight_def)

text \<open>A run of the process.\<close>

inductive lb_run ::
    "'a address_parser \<Rightarrow> nat \<Rightarrow> 'a process \<Rightarrow> 'a lb_event list \<Rightarrow> 'a process \<Rightarrow> bool"
  for make_address max_files where
  lb_run_nil: "lb_run make_address max_files p [] p"
| lb_run_cons: "lb_step make_address max_files p e q \<Longrightarrow> lb_run make_address max_files q es r \<Longrightarrow>
    lb_run make_address max_files p (e # es) r"

inductive_cases lb_step_ExitedE: "lb_step make_address max_files (Exited n) e q"
inductive_cases lb_run_ConsE: "lb_run make_address max_files p (e # es) r"

section \<open>One step of a draining process\<close>

lemma sum_list_map_update:
  "i < length xs \<Longrightarrow> sum_list (map f (xs[i := x])) + f (xs ! i) = sum_list (map f xs) + f x" for f :: "'b \<Rightarrow> nat"
proof (induction xs arbitrary: i)
  case (Cons y ys)
  then show ?case by (cases i) auto
qed simp

lemma sum_list_map_drop_nth:
  fixes f :: "'b \<Rightarrow> nat"
  assumes "i < length xs"
  shows "sum_list (map f (take i xs @ drop (Suc i) xs)) + f (xs ! i) = sum_list (map f xs)"
proof -
  have "xs = take i xs @ xs ! i # drop (Suc i) xs" using assms by (rule id_take_nth_drop)
  then have "sum_list (map f xs) = sum_list (map f (take i xs @ xs ! i # drop (Suc i) xs))" by simp
  then show ?thesis by simp
qed

lemma mset_drop_nth:
  assumes "i < length xs"
  shows "mset (map f (take i xs @ drop (Suc i) xs)) \<subseteq># mset (map f xs)"
proof -
  have "mset (map f xs) = mset (map f (take i xs @ xs ! i # drop (Suc i) xs))"
    using id_take_nth_drop [OF assms] by simp
  then show ?thesis by simp
qed

text \<open>A session that takes a step stays on its backend, or leaves the list when nothing holds it.\<close>

lemma session_done_effect:
  assumes "session_done i t lb = Inr lb'" and "i < length (lb_sessions lb)"
  shows "lb_proxy lb' = lb_proxy lb \<and> lb_checker lb' = lb_checker lb \<and> lb_signalPending lb' = lb_signalPending lb \<and>
    (s_pending t = [] \<and> lb_sessions lb' = take i (lb_sessions lb) @ drop (Suc i) (lb_sessions lb) \<or>
     s_pending t \<noteq> [] \<and> lb_sessions lb' = (lb_sessions lb)[i := t])"
  using assms by (auto simp: session_done_def and_then_eq_Inr_iff split: if_splits)

lemma open_on_session_done:
  assumes "session_done i t lb = Inr lb'" and "i < length (lb_sessions lb)"
    and "m_backend t = m_backend (lb_sessions lb ! i)"
  shows "open_on lb' \<subseteq># open_on lb"
proof -
  have "map m_backend ((lb_sessions lb)[i := t]) = map m_backend (lb_sessions lb)"
    using assms(2,3) by (simp add: map_update list_update_id) (metis list_update_id nth_map)
  then have same: "mset (map m_backend ((lb_sessions lb)[i := t])) \<subseteq># mset (map m_backend (lb_sessions lb))" by simp
  note removed = mset_drop_nth [OF assms(2), of m_backend]
  from session_done_effect [OF assms(1,2)] show ?thesis
    unfolding open_on_def by (elim conjE disjE) (simp_all only: same removed)
qed

lemma all_shut_session_done:
  assumes "session_done i t lb = Inr lb'" and "i < length (lb_sessions lb)"
    and "session_weight t < session_weight (lb_sessions lb ! i)" and "m_shuttingDown t" and "all_shut lb"
  shows "all_shut lb' \<and> drain_weight lb' < drain_weight lb"
proof -
  have "set (take i (lb_sessions lb) @ drop (Suc i) (lb_sessions lb)) \<subseteq> insert t (set (lb_sessions lb))"
    by (auto dest: in_set_takeD in_set_dropD)
  with session_done_effect [OF assms(1,2)] set_update_subset_insert [of "lb_sessions lb" i t]
  have "set (lb_sessions lb') \<subseteq> insert t (set (lb_sessions lb))" by (elim conjE disjE) simp_all
  with assms(4,5) have shut: "all_shut lb'" unfolding all_shut_def by blast
  have "sum_list (map session_weight (lb_sessions lb')) < sum_list (map session_weight (lb_sessions lb))"
    using session_done_effect [OF assms(1,2)] assms(3)
      sum_list_map_update [OF assms(2), of session_weight t]
      sum_list_map_drop_nth [OF assms(2), of session_weight] by auto
  with shut session_done_effect [OF assms(1,2)] show ?thesis by (simp add: drain_weight_def)
qed

text \<open>A stopped checker never throws.\<close>

lemma stopped_complete_Inr:
  assumes "m_stopped hc" and "checker_inv pool hc" and "h \<in> set (m_pending hc)"
  shows "\<exists>pool' hc'. hc_complete make_address h ec pool hc = Inr (pool', hc')"
proof (cases h)
  case (ProbeConnect i n a port)
  then have "i < GetSize pool" using assms(2,3) unfolding checker_inv_def by blast
  with ProbeConnect show ?thesis by (simp add: handlers Let_def OnProbeResult_def ServicePool_update_eq)
qed (use assms(1) in \<open>simp_all add: handlers Let_def\<close>)

lemma draining_step:
  assumes inv: "lb_inv max_files nodes lb" and drain: "draining lb"
    and step: "lb_step make_address max_files (Running lb) e q"
  shows "q = Exited 0 \<and> no_work lb \<or>
    (\<exists>lb'. q = Running lb' \<and> draining lb' \<and> open_on lb' \<subseteq># open_on lb \<and>
       (all_shut lb \<longrightarrow> all_shut lb' \<and> drain_weight lb' < drain_weight lb))"
  using step
proof (cases rule: lb_step.cases)
  case (step_accept opened ec remote r)
  with drain show ?thesis by (simp add: draining_def)
next
  case (step_session i e t)
  have inv_s: "session_inv (lb_sessions lb ! i)" using inv step_session(3) by (simp add: lb_inv_def)
  obtain lb' where lb': "session_done i t lb = Inr lb'"
    using session_step_process_inv [OF inv step_session(3,4)] by blast
  have "all_shut lb \<longrightarrow> all_shut lb' \<and> drain_weight lb' < drain_weight lb"
  proof
    assume shut: "all_shut lb"
    then have "m_shuttingDown (lb_sessions lb ! i)" using step_session(3) by (simp add: all_shut_def)
    moreover from this inv_s have "\<not> s_clientOpen (lb_sessions lb ! i)" "\<not> s_backendOpen (lb_sessions lb ! i)"
      by (simp_all add: session_inv_def)
    ultimately have "session_weight t < session_weight (lb_sessions lb ! i)" "m_shuttingDown t"
      using shutdown_step [OF _ _ _ step_session(4)] by simp_all
    from all_shut_session_done [OF lb' step_session(3) this shut]
    show "all_shut lb' \<and> drain_weight lb' < drain_weight lb" .
  qed
  moreover have "draining lb'" using session_done_effect [OF lb' step_session(3)] drain by (simp add: draining_def)
  ultimately show ?thesis
    using step_session(2) lb' open_on_session_done [OF lb' step_session(3) session_step_backend [OF step_session(4)]]
    by simp
next
  case (step_checker hc h ec)
  have "m_stopped hc" "checker_inv (lb_pool lb) hc"
    using drain inv step_checker(3) by (simp_all add: draining_def lb_inv_def)
  then obtain pool' hc' where c: "hc_complete make_address h ec (lb_pool lb) hc = Inr (pool', hc')"
    using stopped_complete_Inr [OF _ _ step_checker(4)] by metis
  have "m_stopped hc'" "m_pending hc' = remove1 h (m_pending hc)"
    using stopped_complete [OF \<open>m_stopped hc\<close> c] by simp_all
  moreover have "length (remove1 h (m_pending hc)) < length (m_pending hc)"
    using step_checker(4) length_pos_if_in_set [OF step_checker(4)] by (simp add: length_remove1)
  ultimately show ?thesis
    using drain step_checker(2,3) c
    by (simp add: checker_done_def draining_def open_on_def all_shut_def drain_weight_def checker_weight_def)
next
  case (step_signal ec)
  with drain show ?thesis by (simp add: draining_def)
next
  case step_end
  then show ?thesis by simp
qed

section \<open>When a process drains\<close>

text \<open>
  At most one accept is outstanding, and the acceptor is only closed by the signal handler, which has
  stopped the checker by then.
\<close>

definition stop_inv :: "'a process \<Rightarrow> bool" where
  "stop_inv p \<longleftrightarrow> (case p of Exited n \<Rightarrow> True | Running lb \<Rightarrow>
     length (p_accepts (lb_proxy lb)) \<le> 1 \<and>
     (\<not> p_acceptorOpen (lb_proxy lb) \<longrightarrow>
        \<not> lb_signalPending lb \<and> (\<forall>hc. lb_checker lb = Some hc \<longrightarrow> m_stopped hc)))"

lemma stop_inv_simps [simp]:
  "stop_inv (Exited n)"
  "stop_inv (Running lb) \<longleftrightarrow> length (p_accepts (lb_proxy lb)) \<le> 1 \<and>
     (\<not> p_acceptorOpen (lb_proxy lb) \<longrightarrow>
        \<not> lb_signalPending lb \<and> (\<forall>hc. lb_checker lb = Some hc \<longrightarrow> m_stopped hc))"
  by (simp_all add: stop_inv_def)

lemma OnAccept_proxy:
  "OnAccept select make_address remote ec pool st p = Some (Inr (pool', st', p', session)) \<Longrightarrow>
   p' = p \<or> p' = AcceptNext p"
  by (auto simp: OnAccept_def and_then_eq_Inr_iff split: if_splits option.splits prod.splits sum.splits)

lemma accept_stop_inv:
  assumes "stop_inv (Running lb)" and "opened \<in> set (p_accepts (lb_proxy lb))"
    and "accept_complete strategy_select make_address opened remote ec (lb_pool lb) (lb_strategy lb) (lb_proxy lb) = Some r"
  shows "stop_inv (process_of (and_then r (\<lambda>r. Inr (accept_done r lb))))"
proof (cases r)
  case (Inr r')
  obtain pool st p session where r': "r' = (pool, st, p, session)" by (cases r') auto
  let ?p = "(lb_proxy lb)\<lparr>p_accepts := remove1 opened (p_accepts (lb_proxy lb))\<rparr>"
  have "p_accepts ?p = []"
    using assms(1,2) by (cases "p_accepts (lb_proxy lb)") auto
  moreover have "p = ?p \<or> p = AcceptNext ?p"
    using assms(3) unfolding accept_complete_def Inr r' by (rule OnAccept_proxy)
  ultimately show ?thesis
    using assms(1) by (auto simp: Inr r' accept_done_def AcceptNext_def)
qed simp

lemma stopped_stays:
  assumes "hc_complete make_address h ec pool hc = Inr (pool', hc')" and "m_stopped hc"
  shows "m_stopped hc'"
  using stopped_complete [OF assms(2,1)] by simp

lemma stop_inv_step:
  assumes "stop_inv p" and "lb_step make_address max_files p e q"
  shows "stop_inv q"
  using assms(2)
proof (cases rule: lb_step.cases)
  case (step_accept opened lb ec remote r)
  with assms(1) accept_stop_inv [of lb opened make_address remote ec r] show ?thesis by simp
next
  case (step_session i lb e t)
  with assms(1) show ?thesis
    by (cases "session_done i t lb") (auto dest: session_done_effect)
next
  case (step_checker lb hc h ec)
  with assms(1) show ?thesis
    by (cases "hc_complete make_address h ec (lb_pool lb) hc") (auto simp: checker_done_def dest: stopped_stays)
next
  case (step_signal lb ec)
  with assms(1) show ?thesis
    by (cases "lb_checker lb") (auto simp: on_signal_def TcpProxy_Stop_def HealthChecker_Stop_def)
next
  case (step_end lb)
  then show ?thesis by simp
qed

lemma started_stop_inv: "started pf config p \<Longrightarrow> stop_inv p"
proof (cases p)
  case (Running lb)
  assume "started pf config p"
  with Running have "main_configured pf config = Running lb" by (simp add: started_def)
  from main_initial_state [OF this] show ?thesis by (simp add: Running)
qed simp

interpretation stop: inductive_invariant "started pf config" "lb_step (pf_make_address pf) max_files" stop_inv
  for pf :: "('a, 'n, 'f) platform" and config and max_files
  by unfold_locales (fact started_stop_inv, fact stop_inv_step)

text \<open>An aborted accept on the closed acceptor starts no other.\<close>

lemma aborted_accept_drains:
  assumes "stop_inv (Running lb)" and "\<not> p_acceptorOpen (lb_proxy lb)"
    and "lb_step make_address max_files (Running lb) (AcceptDone opened operation_aborted remote) q"
  shows "\<exists>lb'. q = Running lb' \<and> draining lb' \<and> lb_sessions lb' = lb_sessions lb"
  using assms(3)
proof (cases rule: lb_step.cases)
  case (step_accept r)
  then have r: "r = Inr (lb_pool lb, lb_strategy lb,
      (lb_proxy lb)\<lparr>p_accepts := remove1 opened (p_accepts (lb_proxy lb))\<rparr>, None)"
    by (simp add: accept_complete_def)
  moreover have "remove1 opened (p_accepts (lb_proxy lb)) = []"
    using assms(1) step_accept by (cases "p_accepts (lb_proxy lb)") auto
  ultimately show ?thesis
    using step_accept assms(1,2) by (auto simp: accept_done_def draining_def)
qed

section \<open>Runs of a draining process\<close>

lemma draining_run:
  assumes "lb_run make_address max_files (Running lb) es q" and "lb_inv max_files nodes lb" and "draining lb"
    and "max_files < 2 ^ 64"
  shows "q = Exited 0 \<or> (\<exists>lb'. q = Running lb' \<and> lb_inv max_files nodes lb' \<and> draining lb' \<and> open_on lb' \<subseteq># open_on lb)"
  using assms
proof (induction "Running lb" es q arbitrary: lb rule: lb_run.induct)
  case lb_run_nil
  then show ?case by simp
next
  case (lb_run_cons e q es r)
  from draining_step [OF lb_run_cons.prems(1,2) lb_run_cons.hyps(1)] show ?case
  proof (elim disjE conjE exE)
    assume "q = Exited 0"
    with lb_run_cons.hyps(2) have "r = Exited 0" by (cases rule: lb_run.cases) (auto elim: lb_step_ExitedE)
    then show ?thesis by simp
  next
    fix lb' assume lb': "q = Running lb'" "draining lb'" "open_on lb' \<subseteq># open_on lb"
    have "process_inv max_files nodes q"
      by (rule lb_step_inv [OF _ lb_run_cons.prems(3) lb_run_cons.hyps(1)]) (simp add: lb_run_cons.prems(1))
    then have "lb_inv max_files nodes lb'" by (simp add: lb'(1))
    from lb_run_cons.hyps(3) [OF lb'(1) this lb'(2) lb_run_cons.prems(3)] lb'(3) show ?thesis
      by (auto intro: subset_mset.order_trans)
  qed
qed

lemma shut_run:
  assumes "lb_run make_address max_files (Running lb) es q" and "lb_inv max_files nodes lb" and "draining lb"
    and "max_files < 2 ^ 64" and "all_shut lb"
  shows "length es + process_weight q \<le> drain_weight lb"
  using assms
proof (induction "Running lb" es q arbitrary: lb rule: lb_run.induct)
  case lb_run_nil
  then show ?case by simp
next
  case (lb_run_cons e q es r)
  from draining_step [OF lb_run_cons.prems(1,2) lb_run_cons.hyps(1)] show ?case
  proof (elim disjE conjE exE)
    assume q: "q = Exited 0"
    with lb_run_cons.hyps(2) have "r = Exited 0 \<and> es = []" by (cases rule: lb_run.cases) (auto elim: lb_step_ExitedE)
    with drain_weight_pos [of lb] show ?thesis by simp
  next
    fix lb' assume lb': "q = Running lb'" "draining lb'"
      "all_shut lb \<longrightarrow> all_shut lb' \<and> drain_weight lb' < drain_weight lb"
    have "process_inv max_files nodes q"
      by (rule lb_step_inv [OF _ lb_run_cons.prems(3) lb_run_cons.hyps(1)]) (simp add: lb_run_cons.prems(1))
    then have "lb_inv max_files nodes lb'" by (simp add: lb'(1))
    from lb_run_cons.hyps(3) [OF lb'(1) this lb'(2) lb_run_cons.prems(3)] lb'(3) lb_run_cons.prems(4) show ?thesis
      by auto
  qed
qed

section \<open>A process without a health checker\<close>

lemma no_checker_step:
  "lb_step make_address max_files (Running lb) e (Running lb') \<Longrightarrow> lb_checker lb = None \<Longrightarrow> lb_checker lb' = None"
proof (cases rule: lb_step.cases, assumption, goal_cases)
  case (1 opened lb0 ec remote r)
  then show ?case by (cases r) (auto simp: process_of_def accept_done_def)
next
  case (2 i lb0 ev t)
  then show ?case by (auto simp: process_of_def session_done_def and_then_eq_Inr_iff split: sum.splits if_splits)
qed (auto simp: process_of_def on_signal_def)

text \<open>Drained, without sessions and without a checker, the process can only end.\<close>

lemma drained_process_ends:
  assumes "draining lb" and "lb_sessions lb = []" and "lb_checker lb = None"
  shows "lb_step make_address max_files (Running lb) e q \<longleftrightarrow> e = LoopEnds \<and> q = Exited 0"
proof
  show "e = LoopEnds \<and> q = Exited 0" if "lb_step make_address max_files (Running lb) e q"
    using that assms by (cases rule: lb_step.cases) (auto simp: draining_def)
  have "no_work lb" using assms by (simp add: draining_def no_work_def)
  then show "lb_step make_address max_files (Running lb) e q" if "e = LoopEnds \<and> q = Exited 0"
    using that by (auto intro: step_end)
qed

lemma lb_run_reach:
  assumes "lb_run (pf_make_address pf) max_files p es q"
    and "reach (started pf config) (lb_step (pf_make_address pf) max_files) p"
  shows "reach (started pf config) (lb_step (pf_make_address pf) max_files) q"
  using assms by (induction rule: lb_run.induct) (auto intro: reach_step)

lemma no_checker_run:
  assumes "lb_run make_address max_files p es (Running lb')" and "p = Running lb" and "lb_checker lb = None"
  shows "lb_checker lb' = None"
  using assms
proof (induction p es "Running lb'" arbitrary: lb rule: lb_run.induct)
  case lb_run_nil
  then show ?case by simp
next
  case (lb_run_cons p e q es)
  show ?case
  proof (cases q)
    case (Running lb1)
    with lb_run_cons no_checker_step show ?thesis by blast
  next
    case (Exited n)
    with lb_run_cons.hyps(2) show ?thesis by (cases rule: lb_run.cases) (auto elim: lb_step_ExitedE)
  qed
qed

text \<open>
  The balancer the benchmark starts has no health checker. When its clients are gone and the
  outstanding accept has been aborted after the signal, its next step is the last, and its status 0:
  the driver's wait for it returns.
\<close>

lemma idle_balancer_stops:
  assumes "started pf config (Running lb0)" and "lb_checker lb0 = None"
    and "lb_run (pf_make_address pf) max_files (Running lb0) es (Running lb)"
    and "lb_sessions lb = []" and "\<not> p_acceptorOpen (lb_proxy lb)"
    and "lb_step (pf_make_address pf) max_files (Running lb) (AcceptDone opened operation_aborted remote) p"
  shows "lb_step (pf_make_address pf) max_files p e q \<longleftrightarrow> e = LoopEnds \<and> q = Exited 0"
proof -
  have "reach (started pf config) (lb_step (pf_make_address pf) max_files) (Running lb)"
    by (rule lb_run_reach [OF assms(3)]) (rule reach_init, fact)
  from aborted_accept_drains [OF stop.reachable_inv [OF this] assms(5,6)] obtain lb' where
    lb': "p = Running lb'" "draining lb'" "lb_sessions lb' = []" using assms(4) by auto
  have "lb_checker lb = None" by (rule no_checker_run [OF assms(3) refl assms(2)])
  with no_checker_step assms(6) lb'(1) have "lb_checker lb' = None" by blast
  with drained_process_ends [OF lb'(2,3)] show ?thesis unfolding lb'(1) by blast
qed

section \<open>Property\<close>

text \<open>
  C7: a signal shuts the process down gracefully. Once the acceptor is closed and the outstanding
  accept has been aborted, whatever happens next the process never ends with an error and never opens a
  connection; it can always make a step until it ends with status 0; and as soon as the sessions that
  were still open have shut down, it ends after at most \<open>drain_weight\<close> more handlers.
\<close>

theorem graceful_shutdown:
  assumes "reach (started pf config) (lb_step (pf_make_address pf) max_files) (Running lb)"
    and "dist_ok (pf_dist pf)" and "max_files < 2 ^ 64" and "\<not> p_acceptorOpen (lb_proxy lb)"
    and "lb_step (pf_make_address pf) max_files (Running lb) (AcceptDone opened operation_aborted remote) p"
    and "lb_run (pf_make_address pf) max_files p es q"
  shows "q = Exited 0 \<or>
    (\<exists>lb'. q = Running lb' \<and> open_on lb' \<subseteq># open_on lb \<and>
       (\<exists>e q'. lb_step (pf_make_address pf) max_files q e q') \<and>
       (all_shut lb' \<longrightarrow> (\<forall>es' q'. lb_run (pf_make_address pf) max_files q es' q' \<longrightarrow>
          length es' \<le> drain_weight lb' \<and> (length es' = drain_weight lb' \<longrightarrow> q' = Exited 0))))"
proof -
  note inv = reachable_lb_inv [OF assms(1-3)]
  obtain lb1 where lb1: "p = Running lb1" "draining lb1" "lb_sessions lb1 = lb_sessions lb"
    using aborted_accept_drains [OF stop.reachable_inv [OF assms(1)] assms(4,5)] by blast
  have "lb_inv max_files (m_nodes config) lb1"
    using lb_step_inv [OF _ assms(3,5), of "m_nodes config"] inv by (simp add: lb1(1))
  from draining_run [OF assms(6) [unfolded lb1(1)] this lb1(2) assms(3)]
  show ?thesis
  proof (elim disjE exE conjE)
    fix lb' assume lb': "q = Running lb'" "lb_inv max_files (m_nodes config) lb'" "draining lb'"
      "open_on lb' \<subseteq># open_on lb1"
    have "length es' \<le> drain_weight lb' \<and> (length es' = drain_weight lb' \<longrightarrow> q' = Exited 0)"
      if shut: "all_shut lb'" and run: "lb_run (pf_make_address pf) max_files q es' q'" for es' q'
      using shut_run [OF run [unfolded lb'(1)] lb'(2,3) assms(3) shut]
        draining_run [OF run [unfolded lb'(1)] lb'(2,3) assms(3)]
      by (cases q') auto
    with lb' lb1(3) lb_inv_can_step [OF lb'(2)] show ?thesis by (auto simp: open_on_def)
  qed simp
qed

theorem graceful_shutdown_witness:
  "\<exists>lb p. lb_step Some 1024 (Running demo_process) (SignalDone success) (Running lb) \<and>
     lb_step Some 1024 (Running lb) (AcceptDone True operation_aborted None) p \<and>
     (\<forall>es q. lb_run Some 1024 p es q \<and> length es = 2 \<longrightarrow> q = Exited 0)"
proof -
  let ?lb = "on_signal success (demo_process\<lparr>lb_signalPending := False\<rparr>)"
  let ?lb1 = "?lb\<lparr>lb_proxy := (lb_proxy ?lb)\<lparr>p_accepts := []\<rparr>\<rparr>"
  have signal: "lb_step Some 1024 (Running demo_process) (SignalDone success) (Running ?lb)"
    by (rule step_signal) (simp add: demo_process_def)
  have accepts: "p_accepts (lb_proxy ?lb) = [True]" "\<not> p_acceptorOpen (lb_proxy ?lb)" "lb_sessions ?lb = []"
    "drain_weight ?lb1 = 2"
    by (simp_all add: on_signal_def demo_process_def TcpProxy_Stop_def HealthChecker_Stop_def drain_weight_def
        checker_weight_def ScheduleNextRound_def HealthChecker_new_def)
  have "lb_step Some 1024 (Running ?lb) (AcceptDone True operation_aborted None)
      (process_of (and_then (Inr (lb_pool ?lb, lb_strategy ?lb, (lb_proxy ?lb)\<lparr>p_accepts := []\<rparr>, None))
        (\<lambda>r. Inr (accept_done r ?lb))))"
    by (rule step_accept) (simp_all add: accepts(1,2) accept_complete_def)
  then have abort: "lb_step Some 1024 (Running ?lb) (AcceptDone True operation_aborted None) (Running ?lb1)"
    by (simp add: accept_done_def)
  have reached: "reach (started demo_platform demo_config) (lb_step (pf_make_address demo_platform) 1024) (Running ?lb)"
    using demo_process_reach signal by (simp only: demo_platform_ok(2)) (rule reach_step)
  have "q = Exited 0" if "lb_run Some 1024 (Running ?lb1) es q" "length es = 2" for es q
    using graceful_shutdown [OF reached demo_platform_ok(1) _ accepts(2), of True None "Running ?lb1" "[]" "Running ?lb1"]
      abort that accepts(3,4) by (simp add: lb_run_nil all_shut_def)
  with signal abort show ?thesis by blast
qed

end
