(* ===== verification/Process_Console.thy ===== *)
theory Process_Console
  imports Load_Balancer
begin

text \<open>
  What the process of \<open>core\<close> prints: the messages of \<open>main\<close> before and at its start, and those of the
  handlers of the proxy, the sessions and the health checker. The texts of error codes and of exceptions
  of the libraries (\<open>message()\<close>, \<open>what()\<close>) are parameters. The lemmas tie the lines to what happened:
  a start that fails says so, and a line about a service's health is printed exactly when it changes.
\<close>

section \<open>The start\<close>

text \<open>\<open>what()\<close>, given that of the library's exceptions.\<close>

definition exn_what :: "(cpp_exn \<Rightarrow> string) \<Rightarrow> cpp_exn \<Rightarrow> string" where
  "exn_what lib_what e = (case e of
     HashCollisionError i \<Rightarrow> ''Hash ring collision detected at vnode '' @ to_decimal i
   | _ \<Rightarrow> lib_what e)"

text \<open>The constructor of the ring reports a collision before it throws.\<close>

definition collision_line :: "cpp_exn \<Rightarrow> string" where
  "collision_line e = (case e of
     HashCollisionError i \<Rightarrow> println (''Fatal: hash collision at vnode '' @ to_decimal i @ '' '' @
       [CHR 0xE2, CHR 0x80, CHR 0x94] @ '' ring integrity compromised'')
   | _ \<Rightarrow> [])"

definition fatal_line :: "(cpp_exn \<Rightarrow> string) \<Rightarrow> cpp_exn \<Rightarrow> string" where
  "fatal_line lib_what e = println (''Fatal: '' @ exn_what lib_what e)"

definition unknown_algorithm_line :: "string \<Rightarrow> string" where
  "unknown_algorithm_line algorithm =
     println (''Error: unknown routing algorithm '' @ [CHR 0x27] @ algorithm @ [CHR 0x27])"

text \<open>The standard error of \<open>main\<close> up to the event loop, branch by branch.\<close>

definition run_stderr ::
    "(cpp_exn \<Rightarrow> string) \<Rightarrow> ('a, 'n, 'f) platform \<Rightarrow> LoadBalancerConfig \<Rightarrow> string" where
  "run_stderr lib_what pf config =
     (let conn = GetConnection config in
      case TcpProxy_new (pf_make_address pf) (pf_bind pf) (GetListenAddress config) (GetListenPort config)
             (GetConnectTimeoutMs conn) (GetIdleTimeoutMs conn) of
        Inl e \<Rightarrow> fatal_line lib_what e
      | Inr proxy \<Rightarrow> [])"

definition configured_stderr ::
    "(cpp_exn \<Rightarrow> string) \<Rightarrow> ('a, 'n, 'f) platform \<Rightarrow> LoadBalancerConfig \<Rightarrow> string" where
  "configured_stderr lib_what pf config =
     (if GetServiceCount config = 0 then println ''Error: No services defined in config''
      else case strategyFactory (pf_dist pf) (pf_random_device pf) (ServicePool_new (GetServices config))
                  (GetRoutingAlgorithm config) of
             None \<Rightarrow> unknown_algorithm_line (GetRoutingAlgorithm config)
           | Some (Inl e) \<Rightarrow> collision_line e @ fatal_line lib_what e
           | Some (Inr strategy) \<Rightarrow> run_stderr lib_what pf config)"

definition main_stderr ::
    "(cpp_exn \<Rightarrow> string) \<Rightarrow> ('a, 'n, 'f) platform \<Rightarrow> string list \<Rightarrow> string" where
  "main_stderr lib_what pf argv =
     (if length argv < 2 then println ''Usage: bit_bridge_lb <config-file>''
      else case Load (pf_yaml pf) (pf_files pf) LoadBalancerConfig_default (argv ! 1) of
             (config, Inl msg) \<Rightarrow> println (''Error: '' @ msg)
           | (config, Inr _) \<Rightarrow> configured_stderr lib_what pf config)"

text \<open>The standard output of a process that reaches its event loop.\<close>

definition service_line :: "ServiceNode \<Rightarrow> string" where
  "service_line svc =
     println (''    - '' @ ServiceNode_GetName svc @ '' ('' @ ServiceNode_GetIp svc @ '':'' @
       to_decimal (unat (ServiceNode_GetPort svc)) @ '')'')"

definition start_banner :: "LoadBalancerConfig \<Rightarrow> string" where
  "start_banner config =
     (if GetEnabled (GetHealthCheck config)
      then println (''Health checker enabled (interval: '' @
             to_decimal (unat (GetIntervalMs (GetHealthCheck config))) @ ''ms)'')
      else []) @
     println (''Bit Bridge LB - '' @ GetName config) @
     println (''  Listen:    '' @ GetListenAddress config @ '':'' @ to_decimal (unat (GetListenPort config))) @
     println (''  Algorithm: '' @ GetRoutingAlgorithm config) @
     println (''  Services:  '' @ to_decimal (GetServiceCount config)) @
     concat (map service_line (GetServices config))"

section \<open>The handlers\<close>

text \<open>A line goes to the standard output or to the standard error.\<close>

datatype console_line = OnStdout string | OnStderr string

definition signal_line :: "nat \<Rightarrow> string" where
  "signal_line signum = println (newline @ ''Signal '' @ to_decimal signum @ '': shutting down'')"

definition probe_lines :: "HealthCheckConfig \<Rightarrow> error_code \<Rightarrow> ServiceState \<Rightarrow> console_line list" where
  "probe_lines config ec svc =
     (if is_error ec
      then let svc = IncrementFailures svc;
               thresholdReached = GetConsecutiveFailures svc \<ge> ucast (GetUnhealthyThreshold config)
           in if thresholdReached \<and> IsHealthy svc
              then [OnStderr (println (''HealthChecker: '' @ ServiceNode_GetName (GetNode svc) @ '' marked unhealthy''))]
              else []
      else if \<not> IsHealthy svc
           then [OnStdout (println (''HealthChecker: '' @ ServiceNode_GetName (GetNode svc) @ '' recovered''))]
           else [])"

definition accept_lines ::
    "(error_code \<Rightarrow> string) \<Rightarrow> ('st \<Rightarrow> ServicePool \<Rightarrow> string \<Rightarrow> 'st selection) \<Rightarrow> string option \<Rightarrow> error_code \<Rightarrow>
     ServicePool \<Rightarrow> 'st \<Rightarrow> console_line list" where
  "accept_lines message select remote ec pool st =
     (if ec = operation_aborted then []
      else if is_error ec then [OnStderr (println (''TcpProxy: accept error: '' @ message ec))]
      else case remote of
        None \<Rightarrow> []
      | Some routingKey \<Rightarrow>
          (case select st pool routingKey of
             Some (Inr (Inl err), st') \<Rightarrow>
               [OnStderr (println (''TcpProxy: no healthy backend for '' @ routingKey @ '', dropping connection''))]
           | _ \<Rightarrow> []))"

definition connected_lines :: "(error_code \<Rightarrow> string) \<Rightarrow> error_code \<Rightarrow> console_line list" where
  "connected_lines message ec =
     (if is_error ec then [OnStderr (println (''Session: backend connect failed: '' @ message ec))] else [])"

section \<open>Lemmas\<close>

lemma println_not_Nil [simp]: "println s \<noteq> []"
  by (simp add: println_def newline_def)

lemma fatal_line_not_Nil [simp]: "fatal_line lib_what e \<noteq> []" "unknown_algorithm_line a \<noteq> []"
  by (simp_all add: fatal_line_def unknown_algorithm_line_def)

text \<open>A start fails with status 1 and a message, or reaches the event loop without one.\<close>

lemma failed_start_explains_itself:
  "(main_start pf argv = Exited 1 \<and> main_stderr lib_what pf argv \<noteq> []) \<or>
   (\<exists>lb. main_start pf argv = Running lb \<and> main_stderr lib_what pf argv = [])"
proof (cases "length argv < 2")
  case True
  then show ?thesis by (simp add: main_start_def main_stderr_def)
next
  case False
  obtain config r where load: "Load (pf_yaml pf) (pf_files pf) LoadBalancerConfig_default (argv ! 1) = (config, r)"
    by fastforce
  have "(main_configured pf config = Exited 1 \<and> configured_stderr lib_what pf config \<noteq> []) \<or>
      (\<exists>lb. main_configured pf config = Running lb \<and> configured_stderr lib_what pf config = [])"
    by (simp add: main_configured_def configured_stderr_def main_run_def run_stderr_def Let_def
        split: option.split sum.split)
  with False load show ?thesis by (cases r) (simp_all add: main_start_def main_stderr_def)
qed

text \<open>
  The health of a service is reported when it changes, once, and not otherwise: a failure on the
  standard error, a recovery on the standard output.
\<close>

lemma probe_lines_iff_change:
  "probe_lines config ec svc =
    (if IsHealthy (probe_result config ec svc) = IsHealthy svc then []
     else if IsHealthy svc
     then [OnStderr (println (''HealthChecker: '' @ m_name (m_node svc) @ '' marked unhealthy''))]
     else [OnStdout (println (''HealthChecker: '' @ m_name (m_node svc) @ '' recovered''))])"
  by (auto simp: probe_lines_def probe_result_def Let_def accessors)

text \<open>A client is dropped with a line that names it; a routed client, like an aborted accept, prints nothing.\<close>

lemma accept_lines_dropped:
  assumes "OnAccept select make_address (Some key) success pool st p = Some (Inr (pool', st', p', session))"
  shows "accept_lines message select (Some key) success pool st =
    (if session = None
     then [OnStderr (println (''TcpProxy: no healthy backend for '' @ key @ '', dropping connection''))] else [])"
  using assms
  by (auto simp: OnAccept_def accept_lines_def and_then_eq_Inr_iff split: option.splits sum.splits prod.splits)

end
