(* ===== verification/App_Settings.thy ===== *)
theory App_Settings
  imports Config
begin

text \<open>
  \<open>ui/AppSettings\<close>: the defaults of the configuration editor, kept in a TOML file. toml++ is
  third-party code, so parsing and lookup are a record of functions; the text that \<open>SaveToFile\<close>
  writes is the source's own.
\<close>

section \<open>The class\<close>

record AppSettings =
  m_configFilePath :: string
  m_defaultName :: string
  m_defaultListenAddress :: string
  m_defaultListenPort :: uint16
  m_defaultRoutingAlgorithm :: string
  m_defaultHealthCheckEnabled :: bool
  m_defaultHealthCheckIntervalMs :: uint32
  m_defaultHealthCheckTimeoutMs :: uint32
  m_defaultHealthCheckUnhealthyThreshold :: uint32
  m_defaultMaxPerService :: uint32
  m_defaultIdleTimeoutMs :: uint32
  m_defaultConnectTimeoutMs :: uint32

definition AppSettings_new :: AppSettings where
  "AppSettings_new =
     \<lparr>m_configFilePath = ''bitbridge-config.yaml'', m_defaultName = ''my-bit-bridge-lb'',
      m_defaultListenAddress = ''0.0.0.0'', m_defaultListenPort = 8080,
      m_defaultRoutingAlgorithm = ''p2c'', m_defaultHealthCheckEnabled = True,
      m_defaultHealthCheckIntervalMs = 5000, m_defaultHealthCheckTimeoutMs = 2000,
      m_defaultHealthCheckUnhealthyThreshold = 3, m_defaultMaxPerService = 1024,
      m_defaultIdleTimeoutMs = 30000, m_defaultConnectTimeoutMs = 5000\<rparr>"

definition GetConfigFilePath :: "AppSettings \<Rightarrow> string" where
  "GetConfigFilePath s = m_configFilePath s"

definition GetDefaultName :: "AppSettings \<Rightarrow> string" where
  "GetDefaultName s = m_defaultName s"

definition GetDefaultListenAddress :: "AppSettings \<Rightarrow> string" where
  "GetDefaultListenAddress s = m_defaultListenAddress s"

definition GetDefaultListenPort :: "AppSettings \<Rightarrow> uint16" where
  "GetDefaultListenPort s = m_defaultListenPort s"

definition GetDefaultRoutingAlgorithm :: "AppSettings \<Rightarrow> string" where
  "GetDefaultRoutingAlgorithm s = m_defaultRoutingAlgorithm s"

definition GetDefaultHealthCheckEnabled :: "AppSettings \<Rightarrow> bool" where
  "GetDefaultHealthCheckEnabled s = m_defaultHealthCheckEnabled s"

definition GetDefaultHealthCheckIntervalMs :: "AppSettings \<Rightarrow> uint32" where
  "GetDefaultHealthCheckIntervalMs s = m_defaultHealthCheckIntervalMs s"

definition GetDefaultHealthCheckTimeoutMs :: "AppSettings \<Rightarrow> uint32" where
  "GetDefaultHealthCheckTimeoutMs s = m_defaultHealthCheckTimeoutMs s"

definition GetDefaultHealthCheckUnhealthyThreshold :: "AppSettings \<Rightarrow> uint32" where
  "GetDefaultHealthCheckUnhealthyThreshold s = m_defaultHealthCheckUnhealthyThreshold s"

definition GetDefaultMaxPerService :: "AppSettings \<Rightarrow> uint32" where
  "GetDefaultMaxPerService s = m_defaultMaxPerService s"

definition GetDefaultIdleTimeoutMs :: "AppSettings \<Rightarrow> uint32" where
  "GetDefaultIdleTimeoutMs s = m_defaultIdleTimeoutMs s"

definition GetDefaultConnectTimeoutMs :: "AppSettings \<Rightarrow> uint32" where
  "GetDefaultConnectTimeoutMs s = m_defaultConnectTimeoutMs s"

lemmas AppSettings_accessors [accessors] =
  GetConfigFilePath_def GetDefaultName_def GetDefaultListenAddress_def GetDefaultListenPort_def
  GetDefaultRoutingAlgorithm_def GetDefaultHealthCheckEnabled_def GetDefaultHealthCheckIntervalMs_def
  GetDefaultHealthCheckTimeoutMs_def GetDefaultHealthCheckUnhealthyThreshold_def
  GetDefaultMaxPerService_def GetDefaultIdleTimeoutMs_def GetDefaultConnectTimeoutMs_def

section \<open>Saving\<close>

definition settings_text :: "AppSettings \<Rightarrow> string" where
  "settings_text s =
     ''# Bit Bridge - User Interface Settings'' @ newline @
     ''# These values configure the UI defaults, not the load balancer itself.'' @ newline @ newline @
     ''# Path to the load balancer configuration file (YAML)'' @ newline @
     ''config_file_path = '' @ quoted (m_configFilePath s) @ newline @ newline @
     ''# Default values pre-filled when creating a new configuration'' @ newline @
     ''[defaults]'' @ newline @
     ''name = '' @ quoted (m_defaultName s) @ newline @
     ''listen_address = '' @ quoted (m_defaultListenAddress s) @ newline @
     ''listen_port = '' @ to_decimal (unat (m_defaultListenPort s)) @ newline @
     ''routing_algorithm = '' @ quoted (m_defaultRoutingAlgorithm s) @ newline @ newline @
     ''[defaults.health_check]'' @ newline @
     ''enabled = '' @ (if m_defaultHealthCheckEnabled s then ''true'' else ''false'') @ newline @
     ''interval_ms = '' @ to_decimal (unat (m_defaultHealthCheckIntervalMs s)) @ newline @
     ''timeout_ms = '' @ to_decimal (unat (m_defaultHealthCheckTimeoutMs s)) @ newline @
     ''unhealthy_threshold = '' @ to_decimal (unat (m_defaultHealthCheckUnhealthyThreshold s)) @ newline @ newline @
     ''[defaults.connection]'' @ newline @
     ''max_per_service = '' @ to_decimal (unat (m_defaultMaxPerService s)) @ newline @
     ''idle_timeout_ms = '' @ to_decimal (unat (m_defaultIdleTimeoutMs s)) @ newline @
     ''connect_timeout_ms = '' @ to_decimal (unat (m_defaultConnectTimeoutMs s)) @ newline"

text \<open>Files are maps from paths to texts; \<open>writable\<close> tells which paths can be opened for writing.\<close>

definition SaveToFile ::
    "(string \<Rightarrow> bool) \<Rightarrow> AppSettings \<Rightarrow> string \<Rightarrow> (string \<Rightarrow> string option) \<Rightarrow>
     bool \<times> (string \<Rightarrow> string option)" where
  "SaveToFile writable s filePath files =
     (if writable filePath then (True, files(filePath \<mapsto> settings_text s)) else (False, files))"

section \<open>Loading\<close>

text \<open>
  toml++: \<open>toml_parse\<close> is \<open>None\<close> for a \<open>parse_error\<close>; the others look a key up in a table and are
  \<open>None\<close> where the node is absent or of another kind (where \<open>value_or\<close> takes the default).
\<close>

record 't toml_lib =
  toml_parse :: "string \<Rightarrow> 't option"
  toml_table :: "'t \<Rightarrow> string \<Rightarrow> 't option"
  toml_string :: "'t \<Rightarrow> string \<Rightarrow> string option"
  toml_bool :: "'t \<Rightarrow> string \<Rightarrow> bool option"
  toml_int :: "'t \<Rightarrow> string \<Rightarrow> int option"

definition toml_value_or :: "'v option \<Rightarrow> 'v \<Rightarrow> 'v" where
  "toml_value_or node dflt = (case node of Some v \<Rightarrow> v | None \<Rightarrow> dflt)"

text \<open>\<open>static_cast\<close> of the \<open>int64_t\<close> keeps its low bits.\<close>

definition load_defaults :: "'t toml_lib \<Rightarrow> 't \<Rightarrow> AppSettings \<Rightarrow> AppSettings" where
  "load_defaults lib defaults s =
     (let s = s\<lparr>m_defaultName := toml_value_or (toml_string lib defaults ''name'') (m_defaultName s)\<rparr>;
          s = s\<lparr>m_defaultListenAddress :=
                toml_value_or (toml_string lib defaults ''listen_address'') (m_defaultListenAddress s)\<rparr>;
          s = s\<lparr>m_defaultListenPort :=
                word_of_int (toml_value_or (toml_int lib defaults ''listen_port'') (uint (m_defaultListenPort s)))\<rparr>
      in s\<lparr>m_defaultRoutingAlgorithm :=
            toml_value_or (toml_string lib defaults ''routing_algorithm'') (m_defaultRoutingAlgorithm s)\<rparr>)"

definition load_health_check :: "'t toml_lib \<Rightarrow> 't \<Rightarrow> AppSettings \<Rightarrow> AppSettings" where
  "load_health_check lib hc s =
     (let s = s\<lparr>m_defaultHealthCheckEnabled :=
                toml_value_or (toml_bool lib hc ''enabled'') (m_defaultHealthCheckEnabled s)\<rparr>;
          s = s\<lparr>m_defaultHealthCheckIntervalMs :=
                word_of_int (toml_value_or (toml_int lib hc ''interval_ms'') (uint (m_defaultHealthCheckIntervalMs s)))\<rparr>;
          s = s\<lparr>m_defaultHealthCheckTimeoutMs :=
                word_of_int (toml_value_or (toml_int lib hc ''timeout_ms'') (uint (m_defaultHealthCheckTimeoutMs s)))\<rparr>
      in s\<lparr>m_defaultHealthCheckUnhealthyThreshold :=
            word_of_int (toml_value_or (toml_int lib hc ''unhealthy_threshold'')
              (uint (m_defaultHealthCheckUnhealthyThreshold s)))\<rparr>)"

definition load_connection :: "'t toml_lib \<Rightarrow> 't \<Rightarrow> AppSettings \<Rightarrow> AppSettings" where
  "load_connection lib conn s =
     (let s = s\<lparr>m_defaultMaxPerService :=
                word_of_int (toml_value_or (toml_int lib conn ''max_per_service'') (uint (m_defaultMaxPerService s)))\<rparr>;
          s = s\<lparr>m_defaultIdleTimeoutMs :=
                word_of_int (toml_value_or (toml_int lib conn ''idle_timeout_ms'') (uint (m_defaultIdleTimeoutMs s)))\<rparr>
      in s\<lparr>m_defaultConnectTimeoutMs :=
            word_of_int (toml_value_or (toml_int lib conn ''connect_timeout_ms'')
              (uint (m_defaultConnectTimeoutMs s)))\<rparr>)"

text \<open>A sub-table of \<open>defaults\<close>, absent when \<open>defaults\<close> is no table.\<close>

definition defaults_table :: "'t toml_lib \<Rightarrow> 't \<Rightarrow> string \<Rightarrow> 't option" where
  "defaults_table lib tbl key =
     (case toml_table lib tbl ''defaults'' of None \<Rightarrow> None | Some d \<Rightarrow> toml_table lib d key)"

definition load_table :: "'t toml_lib \<Rightarrow> 't \<Rightarrow> AppSettings \<Rightarrow> AppSettings" where
  "load_table lib tbl s =
     (let s = s\<lparr>m_configFilePath := toml_value_or (toml_string lib tbl ''config_file_path'') (m_configFilePath s)\<rparr>;
          s = (case toml_table lib tbl ''defaults'' of None \<Rightarrow> s | Some d \<Rightarrow> load_defaults lib d s);
          s = (case defaults_table lib tbl ''health_check'' of None \<Rightarrow> s | Some hc \<Rightarrow> load_health_check lib hc s)
      in (case defaults_table lib tbl ''connection'' of None \<Rightarrow> s | Some conn \<Rightarrow> load_connection lib conn s))"

text \<open>A missing file is created from the current values; nothing changes on a parse error.\<close>

definition LoadFromFile ::
    "'t toml_lib \<Rightarrow> (string \<Rightarrow> bool) \<Rightarrow> AppSettings \<Rightarrow> string \<Rightarrow> (string \<Rightarrow> string option) \<Rightarrow>
     bool \<times> AppSettings \<times> (string \<Rightarrow> string option)" where
  "LoadFromFile lib writable s filePath files =
     (case files filePath of
        None \<Rightarrow> (let (ok, files') = SaveToFile writable s filePath files in (ok, s, files'))
      | Some text \<Rightarrow>
          (case toml_parse lib text of
             None \<Rightarrow> (False, s, files)
           | Some tbl \<Rightarrow> (True, load_table lib tbl s, files)))"

section \<open>Lemmas\<close>

lemma uint_word_of_int_uint16: "uint (word_of_int v :: uint16) = v mod 65536"
  by (simp add: uint_word_of_int)

lemma uint_word_of_int_uint32: "uint (word_of_int v :: uint32) = v mod 4294967296"
  by (simp add: uint_word_of_int)

lemma load_health_check_keeps [simp]:
  "m_defaultListenPort (load_health_check lib hc s) = m_defaultListenPort s"
  by (simp add: load_health_check_def Let_def)

lemma load_connection_keeps [simp]:
  "m_defaultListenPort (load_connection lib conn s) = m_defaultListenPort s"
  "m_defaultHealthCheckIntervalMs (load_connection lib conn s) = m_defaultHealthCheckIntervalMs s"
  by (simp_all add: load_connection_def Let_def)

section \<open>Properties\<close>

text \<open>
  A port in the settings file is taken modulo 65536 and an interval modulo 2 to the 32, and the
  file is still reported as loaded: values out of range, negative ones included, are not rejected.
\<close>

lemma settings_numbers_wrap:
  assumes "files path = Some text" and "toml_parse lib text = Some tbl"
    and "toml_table lib tbl ''defaults'' = Some d" and "toml_table lib d ''health_check'' = Some hc"
    and "toml_int lib d ''listen_port'' = Some v" and "toml_int lib hc ''interval_ms'' = Some w"
  shows "\<exists>s'. LoadFromFile lib writable s path files = (True, s', files) \<and>
    uint (m_defaultListenPort s') = v mod 65536 \<and>
    uint (m_defaultHealthCheckIntervalMs s') = w mod 4294967296"
  using assms
  by (auto simp: LoadFromFile_def load_table_def defaults_table_def load_defaults_def load_health_check_def
      toml_value_or_def Let_def uint_word_of_int_uint16 uint_word_of_int_uint32 split: option.splits)

lemma settings_numbers_wrap_witness:
  "let lib = \<lparr>toml_parse = (\<lambda>text. Some ''root''), toml_table = (\<lambda>t key. Some key),
       toml_string = (\<lambda>t key. None), toml_bool = (\<lambda>t key. None),
       toml_int = (\<lambda>t key. if key = ''listen_port'' then Some 70000
                          else if key = ''interval_ms'' then Some (- 1) else None)\<rparr>
   in \<exists>s'. LoadFromFile lib (\<lambda>_. True) AppSettings_new ''s.toml'' [''s.toml'' \<mapsto> []] =
        (True, s', [''s.toml'' \<mapsto> []]) \<and>
      uint (m_defaultListenPort s') = 4464 \<and> uint (m_defaultHealthCheckIntervalMs s') = 4294967295"
proof -
  let ?lib = "\<lparr>toml_parse = (\<lambda>text. Some ''root''), toml_table = (\<lambda>t key. Some key),
       toml_string = (\<lambda>t key. None), toml_bool = (\<lambda>t key. None),
       toml_int = (\<lambda>t key. if key = ''listen_port'' then Some 70000
                          else if key = ''interval_ms'' then Some (- 1) else None)\<rparr> :: string toml_lib"
  have "\<exists>s'. LoadFromFile ?lib (\<lambda>_. True) AppSettings_new ''s.toml'' [''s.toml'' \<mapsto> []] =
        (True, s', [''s.toml'' \<mapsto> []]) \<and>
      uint (m_defaultListenPort s') = 70000 mod 65536 \<and>
      uint (m_defaultHealthCheckIntervalMs s') = (- 1) mod 4294967296"
    by (rule settings_numbers_wrap [where d = "''defaults''" and hc = "''health_check''" and tbl = "''root''"])
      simp_all
  then show ?thesis by (simp add: Let_def)
qed

end
