(* ===== verification/Main_Frame.thy ===== *)
theory Main_Frame
  imports Yaml_Serializer App_Settings "HOL-Library.Signed_Division"
begin

text \<open>
  \<open>ui/MainFrame\<close> and \<open>ui/BitBridgeApp\<close>: the configuration editor. The state keeps what the
  handlers read and write: the configuration, the rows of the list control, the four text fields, the
  focus, the unsaved flag with its label, where the two overlaid labels are, the status text and the
  message boxes shown so far. Sizes come from the window system (\<open>geometry\<close>); fonts
  and colours are not modelled, and \<open>Editor_Layout\<close> has the sizers. wxWidgets' number parsing (\<open>ToULong\<close>), the enumeration of selected rows
  (\<open>GetNextItem\<close>) and the existence test are parameters; \<open>ToStdString\<close> is taken to return the text
  that was typed.
\<close>

section \<open>The window's state\<close>

text \<open>The controls that take the focus, in the order of the constructor, and the keys handlers ask for.\<close>

datatype control =
  ServiceList | NameInput | IpInput | PortInput | WeightInput |
  AddButton | RemoveButton | SaveButton | LoadButton

datatype key = Key_Tab | Key_Delete | Key_Back | Key_Other nat

text \<open>
  What the window system reports: the client size of the list and the best size of the label on it,
  the rectangle (left, top, width, height) of the second status field and the size of its label.
\<close>

record geometry =
  g_listSize :: "int \<times> int"
  g_emptyLabelSize :: "int \<times> int"
  g_fieldRect :: "int \<times> int \<times> int \<times> int"
  g_unsavedLabelSize :: "int \<times> int"

text \<open>A row shows name, address, port and weight; a message box has a text and a title.\<close>

type_synonym row = "string \<times> string \<times> string \<times> string"

record MainFrame =
  f_settings :: AppSettings
  f_config :: LoadBalancerConfig
  f_rows :: "row list"
  f_emptyShown :: bool
  f_name :: string
  f_ip :: string
  f_port :: string
  f_weight :: string
  f_unsaved :: bool
  f_unsavedShown :: bool
  f_status :: string
  f_boxes :: "(string \<times> string) list"
  f_focus :: "control option"
  f_geometry :: geometry
  f_emptyPos :: "int \<times> int"
  f_unsavedPos :: "int \<times> int"

type_synonym to_ulong = "string \<Rightarrow> nat option"

definition show_box :: "string \<Rightarrow> string \<Rightarrow> MainFrame \<Rightarrow> MainFrame" where
  "show_box message title f = f\<lparr>f_boxes := f_boxes f @ [(message, title)]\<rparr>"

definition service_row :: "ServiceNode \<Rightarrow> row" where
  "service_row s =
     (ServiceNode_GetName s, ServiceNode_GetIp s, to_decimal (unat (ServiceNode_GetPort s)),
      to_decimal (unat (ServiceNode_GetWeight s)))"

definition RepositionEmptyLabel :: "MainFrame \<Rightarrow> MainFrame" where
  "RepositionEmptyLabel f =
     (if \<not> f_emptyShown f then f
      else
        (let (listWidth, listHeight) = g_listSize (f_geometry f);
             (labelWidth, labelHeight) = g_emptyLabelSize (f_geometry f);
             x = (listWidth - labelWidth) sdiv 2;
             y = (listHeight - labelHeight) sdiv 3
         in f\<lparr>f_emptyPos := (x, y)\<rparr>))"

definition RefreshServiceList :: "MainFrame \<Rightarrow> MainFrame" where
  "RefreshServiceList f =
     (let services = GetServices (f_config f);
          f = f\<lparr>f_rows := map service_row services\<rparr>;
          empty = (services = []);
          f = f\<lparr>f_emptyShown := empty\<rparr>
      in if empty then RepositionEmptyLabel f else f)"

definition MarkUnsaved :: "MainFrame \<Rightarrow> MainFrame" where
  "MarkUnsaved f =
     (let (left, top', width, height) = g_fieldRect (f_geometry f);
          (labelWidth, labelHeight) = g_unsavedLabelSize (f_geometry f);
          x = left + width - labelWidth - 4;
          y = top' + (height - labelHeight) sdiv 2
      in f\<lparr>f_unsaved := True, f_unsavedPos := (x, y), f_unsavedShown := True\<rparr>)"

definition MarkSaved :: "MainFrame \<Rightarrow> MainFrame" where
  "MarkSaved f = f\<lparr>f_unsaved := False, f_unsavedShown := False\<rparr>"

definition SetStatusText :: "string \<Rightarrow> MainFrame \<Rightarrow> MainFrame" where
  "SetStatusText text f = f\<lparr>f_status := text\<rparr>"

section \<open>Adding a service\<close>

text \<open>The message of the failed check, or \<open>None\<close> when the input is valid.\<close>

definition ValidateInput :: "to_ulong \<Rightarrow> string \<Rightarrow> string \<Rightarrow> string \<Rightarrow> string \<Rightarrow> string option" where
  "ValidateInput ulong name ip port weight =
     (if name = [] then Some ''Service name cannot be empty.''
      else if ip = [] then Some ''IP address cannot be empty.''
      else if port = [] then Some ''Port cannot be empty.''
      else case ulong port of
        None \<Rightarrow> Some ''Port must be a number between 1 and 65535.''
      | Some portVal \<Rightarrow>
          if portVal = 0 \<or> portVal > 65535 then Some ''Port must be a number between 1 and 65535.''
          else if (case ulong weight of None \<Rightarrow> True | Some weightVal \<Rightarrow> weightVal = 0 \<or> weightVal > 65535)
          then Some ''Weight must be a number between 1 and 65535.''
          else if \<not> IsValid (ServiceNode_new ''test'' ip (of_nat portVal) 1)
          then Some ''Invalid IP address format. Expected: x.x.x.x (0-255 per octet).''
          else None)"

text \<open>The duplicate check: the message for the first service that clashes.\<close>

fun find_duplicate :: "string \<Rightarrow> string \<Rightarrow> nat \<Rightarrow> ServiceNode list \<Rightarrow> string option" where
  "find_duplicate name ip portVal [] = None"
| "find_duplicate name ip portVal (existing # rest) =
     (if ServiceNode_GetName existing = name
      then Some (''A service named '' @ [CHR 0x27] @ name @ [CHR 0x27] @ '' already exists.'')
      else if ServiceNode_GetIp existing = ip \<and> ServiceNode_GetPort existing = of_nat portVal
      then Some (''A service with address '' @ ip @ '':'' @ to_decimal portVal @ '' already exists.'')
      else find_duplicate name ip portVal rest)"

text \<open>\<open>ToULong\<close> into a variable that already has a value.\<close>

definition ulong_into :: "to_ulong \<Rightarrow> string \<Rightarrow> nat \<Rightarrow> nat" where
  "ulong_into ulong s initial = (case ulong s of None \<Rightarrow> initial | Some v \<Rightarrow> v)"

definition OnAddService :: "to_ulong \<Rightarrow> MainFrame \<Rightarrow> MainFrame" where
  "OnAddService ulong f =
     (let name = f_name f; ip = f_ip f; portStr = f_port f; weightStr = f_weight f in
      case ValidateInput ulong name ip portStr weightStr of
        Some message \<Rightarrow> show_box message ''Validation Error'' f
      | None \<Rightarrow>
          (let portVal = ulong_into ulong portStr 0; weightVal = ulong_into ulong weightStr 1 in
           case find_duplicate name ip portVal (GetServices (f_config f)) of
             Some message \<Rightarrow> show_box message ''Duplicate Service'' f
           | None \<Rightarrow>
               (let service = ServiceNode_new name ip (of_nat portVal) (of_nat weightVal);
                    f = f\<lparr>f_config := AddService service (f_config f)\<rparr>;
                    f = MarkUnsaved (RefreshServiceList f);
                    f = f\<lparr>f_name := [], f_ip := [], f_port := [], f_weight := ''1''\<rparr>;
                    f = f\<lparr>f_focus := Some NameInput\<rparr>
                in SetStatusText (''Service added: '' @ name @ '' ('' @ ip @ '':'' @ portStr @ '')'') f)))"

section \<open>Removing services\<close>

text \<open>
  The loop over the selected indices in reverse. \<open>selected\<close> is what the list control reports,
  in ascending order.
\<close>

definition remove_reversed :: "nat list \<Rightarrow> LoadBalancerConfig \<Rightarrow> LoadBalancerConfig" where
  "remove_reversed selected config = foldl (\<lambda>c idx. RemoveService idx c) config (rev selected)"

definition OnRemoveService :: "nat list \<Rightarrow> MainFrame \<Rightarrow> MainFrame" where
  "OnRemoveService selected f =
     (if selected = []
      then show_box ''Please select one or more services to remove.'' ''No Selection'' f
      else
        (let f = f\<lparr>f_config := remove_reversed selected (f_config f)\<rparr>;
             f = MarkUnsaved (RefreshServiceList f)
         in SetStatusText (if length selected = 1 then ''1 service removed''
                           else to_decimal (length selected) @ '' services removed'') f))"

section \<open>Loading and saving\<close>

definition OnLoadConfig ::
    "('n, 'f) yaml_lib \<Rightarrow> (string \<Rightarrow> bool) \<Rightarrow> 'f files \<Rightarrow> MainFrame \<Rightarrow> MainFrame" where
  "OnLoadConfig lib exists_file files f =
     (let configPath = GetConfigFilePath (f_settings f) in
      if \<not> exists_file configPath
      then show_box (''Configuration file not found: '' @ configPath) ''Load Error'' f
      else case Load lib files LoadBalancerConfig_default configPath of
        (newConfig, Inr _) \<Rightarrow>
          SetStatusText (''Configuration loaded from '' @ configPath)
            (MarkSaved (RefreshServiceList (f\<lparr>f_config := newConfig\<rparr>)))
      | (_, Inl _) \<Rightarrow> show_box ''Failed to parse configuration file.'' ''Load Error'' f)"

definition OnSaveConfig ::
    "('n, 'f) yaml_lib \<Rightarrow> 'f os \<Rightarrow> 'f files \<Rightarrow> MainFrame \<Rightarrow> (MainFrame \<times> 'f files) throws" where
  "OnSaveConfig lib os files f =
     (let configPath = GetConfigFilePath (f_settings f) in
      and_then (Save lib os (f_config f) configPath files) (\<lambda>(result, files').
        case result of
          Inr _ \<Rightarrow> Inr (SetStatusText (''Configuration saved to '' @ configPath) (MarkSaved f), files')
        | Inl _ \<Rightarrow> Inr (show_box ''Failed to save configuration file.'' ''Save Error'' f, files')))"

definition ApplyDefaultConfig :: "MainFrame \<Rightarrow> MainFrame" where
  "ApplyDefaultConfig f =
     (let s = f_settings f;
          c = SetName (GetDefaultName s) (f_config f);
          c = SetListenAddress (GetDefaultListenAddress s) c;
          c = SetListenPort (GetDefaultListenPort s) c;
          c = SetRoutingAlgorithm (GetDefaultRoutingAlgorithm s) c;
          c = SetHealthCheck (HealthCheckConfig_new (GetDefaultHealthCheckEnabled s)
                (GetDefaultHealthCheckIntervalMs s) (GetDefaultHealthCheckTimeoutMs s)
                (GetDefaultHealthCheckUnhealthyThreshold s)) c;
          c = SetConnection (ConnectionConfig_new (GetDefaultMaxPerService s)
                (GetDefaultIdleTimeoutMs s) (GetDefaultConnectTimeoutMs s)) c
      in f\<lparr>f_config := c\<rparr>)"

text \<open>The configuration is loaded in place, so a failed load leaves it half changed.\<close>

definition LoadExistingConfig ::
    "('n, 'f) yaml_lib \<Rightarrow> (string \<Rightarrow> bool) \<Rightarrow> 'f files \<Rightarrow> MainFrame \<Rightarrow> MainFrame" where
  "LoadExistingConfig lib exists_file files f =
     (let configPath = GetConfigFilePath (f_settings f) in
      if \<not> exists_file configPath then f
      else case Load lib files (f_config f) configPath of
        (config, Inr _) \<Rightarrow>
          SetStatusText (''Configuration loaded from '' @ configPath)
            (MarkSaved (RefreshServiceList (f\<lparr>f_config := config\<rparr>)))
      | (config, Inl _) \<Rightarrow> f\<lparr>f_config := config\<rparr>)"

definition MainFrame_widgets :: "geometry \<Rightarrow> AppSettings \<Rightarrow> MainFrame" where
  "MainFrame_widgets geometry settings =
     \<lparr>f_settings = settings, f_config = LoadBalancerConfig_default, f_rows = [], f_emptyShown = True,
      f_name = [], f_ip = [], f_port = [], f_weight = ''1'', f_unsaved = False, f_unsavedShown = False,
      f_status = ''Ready'', f_boxes = [], f_focus = None, f_geometry = geometry, f_emptyPos = (0, 0),
      f_unsavedPos = (0, 0)\<rparr>"

definition MainFrame_new ::
    "('n, 'f) yaml_lib \<Rightarrow> (string \<Rightarrow> bool) \<Rightarrow> 'f files \<Rightarrow> geometry \<Rightarrow> AppSettings \<Rightarrow> MainFrame" where
  "MainFrame_new lib exists_file files geometry settings =
     (LoadExistingConfig lib exists_file files (ApplyDefaultConfig (MainFrame_widgets geometry settings)))
       \<lparr>f_focus := Some NameInput\<rparr>"

text \<open>\<open>BitBridgeApp::OnInit\<close>: the window, and the settings file afterwards.\<close>

definition OnInit ::
    "'t toml_lib \<Rightarrow> (string \<Rightarrow> bool) \<Rightarrow> (string \<Rightarrow> string option) \<Rightarrow>
     ('n, 'f) yaml_lib \<Rightarrow> (string \<Rightarrow> bool) \<Rightarrow> 'f files \<Rightarrow> geometry \<Rightarrow> MainFrame \<times> (string \<Rightarrow> string option)" where
  "OnInit toml writable settings_files lib exists_file files geometry =
     (let (_, settings, settings_files') =
            LoadFromFile toml writable AppSettings_new ''bitbridge-settings.toml'' settings_files
      in (MainFrame_new lib exists_file files geometry settings, settings_files'))"

section \<open>Keys\<close>

text \<open>The field that has the focus is searched for; its neighbour gets it. \<open>None\<close>: the event is skipped.\<close>

definition tabOrder :: "control list" where
  "tabOrder = [NameInput, IpInput, PortInput, WeightInput]"

fun tab_search :: "bool \<Rightarrow> control option \<Rightarrow> nat \<Rightarrow> control list \<Rightarrow> control option" where
  "tab_search shift focused i [] = None"
| "tab_search shift focused i (c # cs) =
     (if focused = Some c
      then let next = (if shift then (i + length tabOrder - 1) mod length tabOrder
                       else (i + 1) mod length tabOrder)
           in Some (tabOrder ! next)
      else tab_search shift focused (Suc i) cs)"

definition HandleTabNavigation :: "key \<Rightarrow> bool \<Rightarrow> MainFrame \<Rightarrow> MainFrame option" where
  "HandleTabNavigation key shift f =
     (if key \<noteq> Key_Tab then None
      else case tab_search shift (f_focus f) 0 tabOrder of
        None \<Rightarrow> None
      | Some target \<Rightarrow> Some (f\<lparr>f_focus := Some target\<rparr>))"

text \<open>
  The loop of \<open>OnRemoveService\<close> that collects the selection; \<open>next_item\<close> is \<open>GetNextItem\<close>, which
  answers \<open>-1\<close> when no selected row follows. A list control that never does loops for ever.
\<close>

partial_function (option) collect_selected :: "(int \<Rightarrow> int) \<Rightarrow> int \<Rightarrow> nat list option" where
  "collect_selected next_item item =
     (let item = next_item item in
      if item = -1 then Some []
      else Option.bind (collect_selected next_item item) (\<lambda>selected. Some (nat item # selected)))"

section \<open>What the helpers change\<close>

lemma RepositionEmptyLabel_fields [simp]:
  "f_settings (RepositionEmptyLabel f) = f_settings f"
  "f_config (RepositionEmptyLabel f) = f_config f"
  "f_name (RepositionEmptyLabel f) = f_name f"
  "f_ip (RepositionEmptyLabel f) = f_ip f"
  "f_port (RepositionEmptyLabel f) = f_port f"
  "f_weight (RepositionEmptyLabel f) = f_weight f"
  "f_status (RepositionEmptyLabel f) = f_status f"
  "f_boxes (RepositionEmptyLabel f) = f_boxes f"
  "f_focus (RepositionEmptyLabel f) = f_focus f"
  "f_geometry (RepositionEmptyLabel f) = f_geometry f"
  "f_rows (RepositionEmptyLabel f) = f_rows f"
  "f_emptyShown (RepositionEmptyLabel f) = f_emptyShown f"
  "f_unsaved (RepositionEmptyLabel f) = f_unsaved f"
  "f_unsavedShown (RepositionEmptyLabel f) = f_unsavedShown f"
  "f_unsavedPos (RepositionEmptyLabel f) = f_unsavedPos f"
  by (simp_all add: RepositionEmptyLabel_def split: prod.splits)

lemma RefreshServiceList_fields [simp]:
  "f_settings (RefreshServiceList f) = f_settings f"
  "f_config (RefreshServiceList f) = f_config f"
  "f_name (RefreshServiceList f) = f_name f"
  "f_ip (RefreshServiceList f) = f_ip f"
  "f_port (RefreshServiceList f) = f_port f"
  "f_weight (RefreshServiceList f) = f_weight f"
  "f_status (RefreshServiceList f) = f_status f"
  "f_boxes (RefreshServiceList f) = f_boxes f"
  "f_focus (RefreshServiceList f) = f_focus f"
  "f_geometry (RefreshServiceList f) = f_geometry f"
  "f_unsaved (RefreshServiceList f) = f_unsaved f"
  "f_unsavedShown (RefreshServiceList f) = f_unsavedShown f"
  "f_unsavedPos (RefreshServiceList f) = f_unsavedPos f"
  "f_rows (RefreshServiceList f) = map service_row (m_nodes (f_config f))"
  "f_emptyShown (RefreshServiceList f) = (m_nodes (f_config f) = [])"
  by (simp_all add: RefreshServiceList_def Let_def GetServices_def)

lemma MarkUnsaved_fields [simp]:
  "f_settings (MarkUnsaved f) = f_settings f"
  "f_config (MarkUnsaved f) = f_config f"
  "f_name (MarkUnsaved f) = f_name f"
  "f_ip (MarkUnsaved f) = f_ip f"
  "f_port (MarkUnsaved f) = f_port f"
  "f_weight (MarkUnsaved f) = f_weight f"
  "f_status (MarkUnsaved f) = f_status f"
  "f_boxes (MarkUnsaved f) = f_boxes f"
  "f_focus (MarkUnsaved f) = f_focus f"
  "f_geometry (MarkUnsaved f) = f_geometry f"
  "f_rows (MarkUnsaved f) = f_rows f"
  "f_emptyShown (MarkUnsaved f) = f_emptyShown f"
  "f_emptyPos (MarkUnsaved f) = f_emptyPos f"
  "f_unsaved (MarkUnsaved f) = True"
  "f_unsavedShown (MarkUnsaved f) = True"
  by (simp_all add: MarkUnsaved_def Let_def split: prod.splits)

lemmas frame_handlers [handlers] =
  show_box_def MarkSaved_def SetStatusText_def OnAddService_def OnRemoveService_def OnLoadConfig_def
  OnSaveConfig_def

section \<open>Lemmas\<close>

text \<open>Removing positions from the highest down removes exactly the selected ones.\<close>

lemma nths_split:
  assumes "x < length xs" and "S \<subseteq> {..<x}"
  shows "nths (take x xs @ drop (Suc x) xs) (- S) = nths xs (- insert x S)"
proof -
  have "xs = take x xs @ xs ! x # drop (Suc x) xs" using assms(1) by (rule id_take_nth_drop)
  then have "nths xs (- insert x S) = nths (take x xs) (- insert x S) @
      nths (drop (Suc x) xs) {j. Suc j + x \<in> - insert x S}"
    using assms(1) nths_append [of "take x xs" "xs ! x # drop (Suc x) xs" "- insert x S"]
    by (simp add: nths_Cons min_def)
  moreover have "nths (take x xs) (- insert x S) = nths (take x xs) (- S)"
    unfolding nths_def by (intro arg_cong [of _ _ "map fst"] filter_cong refl) (auto simp: set_zip)
  moreover have "nths (drop (Suc x) xs) {j. Suc j + x \<in> - insert x S} = drop (Suc x) xs"
    by (rule nths_all) (use assms(2) in auto)
  moreover have "nths (drop (Suc x) xs) {j. j + length (take x xs) \<in> - S} = drop (Suc x) xs"
    by (rule nths_all) (use assms in auto)
  ultimately show ?thesis by (simp add: nths_append)
qed

lemma remove_reversed_nths:
  assumes "sorted_wrt (<) selected" and "\<forall>i\<in>set selected. i < length (m_nodes config)"
  shows "m_nodes (remove_reversed selected config) = nths (m_nodes config) (- set selected)"
  using assms
proof (induction selected arbitrary: config rule: rev_induct)
  case Nil
  then show ?case by (simp add: remove_reversed_def nths_all)
next
  case (snoc x selected)
  then have x: "x < length (m_nodes config)" and less: "\<forall>i\<in>set selected. i < x"
    and s: "sorted_wrt (<) selected"
    by (auto simp: sorted_wrt_append)
  have nodes: "m_nodes (RemoveService x config) = take x (m_nodes config) @ drop (Suc x) (m_nodes config)"
    using x by (simp add: RemoveService_def)
  have "m_nodes (remove_reversed (selected @ [x]) config) =
      nths (m_nodes (RemoveService x config)) (- set selected)"
  proof -
    have "\<forall>i\<in>set selected. i < length (m_nodes (RemoveService x config))"
      using x less by (fastforce simp: length_RemoveService)
    from snoc.IH [OF s this] show ?thesis by (simp add: remove_reversed_def)
  qed
  also have "\<dots> = nths (m_nodes config) (- insert x (set selected))"
    unfolding nodes by (rule nths_split [OF x]) (use less in auto)
  finally show ?case by simp
qed

text \<open>What the duplicate check rules out.\<close>

lemma find_duplicate_None:
  "find_duplicate name ip portVal services = None \<longleftrightarrow>
     (\<forall>s\<in>set services. m_name s \<noteq> name \<and> (m_ip s, m_port s) \<noteq> (ip, of_nat portVal))"
  by (induction services) (auto simp: accessors)

lemma ValidateInput_None:
  assumes "ValidateInput ulong name ip port weight = None"
  shows "name \<noteq> [] \<and> (\<exists>p w. ulong port = Some p \<and> ulong weight = Some w \<and> 0 < p \<and> p \<le> 65535 \<and>
    0 < w \<and> w \<le> 65535 \<and> IsValid (ServiceNode_new name ip (of_nat p) (of_nat w)))"
  using assms
  by (auto simp: ValidateInput_def IsValid_def accessors split: if_splits option.splits)

text \<open>Services as the editor builds them.\<close>

definition services_ok :: "LoadBalancerConfig \<Rightarrow> bool" where
  "services_ok config \<longleftrightarrow>
     (\<forall>s\<in>set (m_nodes config). IsValid s \<and> m_weight s \<noteq> 0) \<and>
     distinct (map m_name (m_nodes config)) \<and>
     distinct (map (\<lambda>s. (m_ip s, m_port s)) (m_nodes config))"

lemma services_ok_RemoveService: "services_ok c \<Longrightarrow> services_ok (RemoveService i c)"
  by (auto simp: services_ok_def m_nodes_RemoveService nths_map [symmetric] distinct_nthsI dest: in_set_nthsD)

lemma services_ok_remove_reversed: "services_ok c \<Longrightarrow> services_ok (remove_reversed selected c)"
proof -
  have "services_ok c \<Longrightarrow> services_ok (foldl (\<lambda>c idx. RemoveService idx c) c xs)" for xs
    by (induction xs arbitrary: c) (auto intro: services_ok_RemoveService)
  then show "services_ok c \<Longrightarrow> services_ok (remove_reversed selected c)" by (simp add: remove_reversed_def)
qed

lemma word16_of_nat_nonzero: "0 < n \<Longrightarrow> n \<le> 65535 \<Longrightarrow> (of_nat n :: uint16) \<noteq> 0"
  by (simp add: word_of_nat_eq_0_iff dvd_eq_mod_eq_0)

text \<open>The Add button changes nothing, or adds one valid service that clashes with none.\<close>

lemma OnAddService_adds:
  shows "f_config (OnAddService ulong f) = f_config f \<or>
    (\<exists>s. f_config (OnAddService ulong f) = AddService s (f_config f) \<and> IsValid s \<and> m_weight s \<noteq> 0 \<and>
       (\<forall>t\<in>set (m_nodes (f_config f)). m_name t \<noteq> m_name s \<and> (m_ip t, m_port t) \<noteq> (m_ip s, m_port s)))"
proof (cases "ValidateInput ulong (f_name f) (f_ip f) (f_port f) (f_weight f)")
  case (Some message)
  then show ?thesis by (simp add: handlers Let_def)
next
  case None
  then obtain p w where pw: "ulong (f_port f) = Some p" "ulong (f_weight f) = Some w" "0 < w" "w \<le> 65535"
    "IsValid (ServiceNode_new (f_name f) (f_ip f) (of_nat p) (of_nat w))"
    using ValidateInput_None by blast
  then have into: "ulong_into ulong (f_port f) 0 = p" "ulong_into ulong (f_weight f) 1 = w"
    by (simp_all add: ulong_into_def)
  show ?thesis
  proof (cases "find_duplicate (f_name f) (f_ip f) p (m_nodes (f_config f))")
    case (Some message)
    with None into show ?thesis by (simp add: handlers Let_def accessors)
  next
    case dup: None
    let ?s = "ServiceNode_new (f_name f) (f_ip f) (of_nat p) (of_nat w)"
    from dup have "\<forall>t\<in>set (m_nodes (f_config f)). m_name t \<noteq> m_name ?s \<and> (m_ip t, m_port t) \<noteq> (m_ip ?s, m_port ?s)"
      by (simp only: find_duplicate_None) (simp add: ServiceNode_new_def)
    moreover have "m_weight ?s \<noteq> 0" using word16_of_nat_nonzero [OF pw(3,4)] by (simp add: ServiceNode_new_def)
    moreover have "f_config (OnAddService ulong f) = AddService ?s (f_config f)"
      using None dup into by (simp add: handlers Let_def GetServices_def)
    ultimately show ?thesis using pw(5) by blast
  qed
qed

lemma services_ok_OnAddService:
  assumes "services_ok (f_config f)"
  shows "services_ok (f_config (OnAddService ulong f))"
  using OnAddService_adds [of ulong f]
proof
  assume "\<exists>s. f_config (OnAddService ulong f) = AddService s (f_config f) \<and> IsValid s \<and> m_weight s \<noteq> 0 \<and>
       (\<forall>t\<in>set (m_nodes (f_config f)). m_name t \<noteq> m_name s \<and> (m_ip t, m_port t) \<noteq> (m_ip s, m_port s))"
  with assms show ?thesis by (fastforce simp: services_ok_def AddService_def)
qed (use assms in simp)

lemma services_ok_OnRemoveService: "services_ok (f_config f) \<Longrightarrow> services_ok (f_config (OnRemoveService selected f))"
  using services_ok_remove_reversed by (simp add: handlers Let_def)

text \<open>A window whose sizes the witnesses use.\<close>

definition demo_geometry :: geometry where
  "demo_geometry = \<lparr>g_listSize = (540, 250), g_emptyLabelSize = (140, 16),
     g_fieldRect = (410, 2, 150, 20), g_unsavedLabelSize = (120, 16)\<rparr>"

text \<open>The window shows the configuration.\<close>

definition mirrors :: "MainFrame \<Rightarrow> bool" where
  "mirrors f \<longleftrightarrow>
     f_rows f = map service_row (m_nodes (f_config f)) \<and> f_emptyShown f = (m_nodes (f_config f) = []) \<and>
     f_unsavedShown f = f_unsaved f"

section \<open>Properties\<close>

text \<open>
  Removing the selected rows, highest index first, removes exactly those services and keeps
  the others in their order.
\<close>

lemma remove_selected_exact:
  assumes "sorted_wrt (<) selected" and "\<forall>i\<in>set selected. i < length (m_nodes (f_config f))"
    and "selected \<noteq> []"
  shows "m_nodes (f_config (OnRemoveService selected f)) = nths (m_nodes (f_config f)) (- set selected) \<and>
    f_unsaved (OnRemoveService selected f)"
  using remove_reversed_nths [OF assms(1,2)] assms(3) by (simp add: handlers Let_def)

lemma remove_selected_exact_witness:
  "let node = (\<lambda>n. ServiceNode_new n ''10.0.0.1'' 80 1);
       f = (MainFrame_widgets demo_geometry AppSettings_new)\<lparr>f_config := LoadBalancerConfig_default\<lparr>m_nodes := map node [''a'', ''b'', ''c'']\<rparr>\<rparr>
   in m_nodes (f_config (OnRemoveService [0, 2] f)) = [node ''b'']"
  using remove_selected_exact [of "[0, 2]" "(MainFrame_widgets demo_geometry AppSettings_new)\<lparr>f_config :=
      LoadBalancerConfig_default\<lparr>m_nodes := map (\<lambda>n. ServiceNode_new n ''10.0.0.1'' 80 1) [''a'', ''b'', ''c'']\<rparr>\<rparr>"]
  by (simp add: nths_Cons Let_def)

text \<open>
  The editor keeps its services valid: whatever is typed and selected, after adding or removing
  every service still passes \<open>IsValid\<close> with a weight above 0, and no two share a name or an
  address and port.
\<close>

lemma editor_keeps_services_valid:
  assumes "services_ok (f_config f)"
  shows "services_ok (f_config (OnAddService ulong f)) \<and> services_ok (f_config (OnRemoveService selected f))"
proof
  show "services_ok (f_config (OnRemoveService selected f))" by (rule services_ok_OnRemoveService [OF assms])
  show "services_ok (f_config (OnAddService ulong f))" by (rule services_ok_OnAddService [OF assms])
qed

lemma editor_keeps_services_valid_witness:
  "let f = (MainFrame_widgets demo_geometry AppSettings_new)\<lparr>f_name := ''a'', f_ip := ''10.0.0.1'', f_port := ''80''\<rparr>
   in services_ok (f_config (OnAddService (\<lambda>s. Some (of_decimal s)) f))"
  using editor_keeps_services_valid [of "(MainFrame_widgets demo_geometry AppSettings_new)\<lparr>f_name := ''a'',
      f_ip := ''10.0.0.1'', f_port := ''80''\<rparr>" "\<lambda>s. Some (of_decimal s)"]
  by (simp add: services_ok_def MainFrame_widgets_def LoadBalancerConfig_default_def)

text \<open>
  Adding, removing, loading and saving keep the window showing its configuration: the rows are
  the services, the empty label appears exactly when there are none, and the unsaved label follows
  the flag. A failed load changes neither.
\<close>

lemma handlers_keep_window_in_step:
  assumes "mirrors f"
  shows "mirrors (OnAddService ulong f) \<and> mirrors (OnRemoveService selected f) \<and>
    mirrors (OnLoadConfig lib exists_file files f) \<and>
    (\<forall>f' files'. OnSaveConfig lib os files f = Inr (f', files') \<longrightarrow> mirrors f') \<and>
    (f_config (OnLoadConfig lib exists_file files f) = f_config f \<or>
     snd (Load lib files LoadBalancerConfig_default (GetConfigFilePath (f_settings f))) = Inr ())"
proof -
  have "mirrors (OnAddService ulong f)"
    using assms
    by (auto simp: mirrors_def handlers Let_def accessors split: option.splits)
  moreover have "mirrors (OnRemoveService selected f)"
    using assms by (auto simp: mirrors_def handlers Let_def accessors)
  moreover have "mirrors (OnLoadConfig lib exists_file files f)"
    using assms by (auto simp: mirrors_def handlers Let_def accessors split: prod.splits sum.splits)
  moreover have "OnSaveConfig lib os files f = Inr (f', files') \<Longrightarrow> mirrors f'" for f' files'
    using assms
    by (cases "Save lib os (f_config f) (GetConfigFilePath (f_settings f)) files")
       (auto simp: mirrors_def OnSaveConfig_def show_box_def MarkSaved_def SetStatusText_def Let_def split: sum.splits)
  moreover have "f_config (OnLoadConfig lib exists_file files f) = f_config f \<or>
     snd (Load lib files LoadBalancerConfig_default (GetConfigFilePath (f_settings f))) = Inr ()"
    by (auto simp: handlers Let_def split: prod.splits sum.splits)
  ultimately show ?thesis by blast
qed

lemma handlers_keep_window_in_step_witness:
  "mirrors (OnLoadConfig tree_lib (\<lambda>_. True) Map.empty (MainFrame_widgets demo_geometry AppSettings_new)) \<and>
   mirrors (OnRemoveService [0] (MainFrame_widgets demo_geometry AppSettings_new))"
proof -
  have "mirrors (MainFrame_widgets demo_geometry AppSettings_new)"
    by (simp add: mirrors_def MainFrame_widgets_def LoadBalancerConfig_default_def)
  from handlers_keep_window_in_step [OF this] show ?thesis by blast
qed

text \<open>Reading the scalars and the sections leaves the services alone.\<close>

definition keeps_nodes :: "LoadBalancerConfig load_step \<Rightarrow> bool" where
  "keeps_nodes step \<longleftrightarrow> (\<forall>c. m_nodes (fst (step c)) = m_nodes c)"

lemma keeps_nodes_followed_by: "keeps_nodes a \<Longrightarrow> keeps_nodes b \<Longrightarrow> keeps_nodes (followed_by a b)"
  by (auto simp: keeps_nodes_def followed_by_def split: prod.splits option.splits) (metis fst_conv)+

lemma keeps_nodes_set_if:
  assumes "\<And>v c. m_nodes (setter v c) = m_nodes c"
  shows "keeps_nodes (set_if lib node key conv setter)"
  using assms by (auto simp: keeps_nodes_def set_if_def split: sum.splits option.splits)

lemma keeps_nodes_sections: "keeps_nodes (followed_by (load_scalars lib root) (load_sections lib root))"
  unfolding load_scalars_def load_sections_def
  by (intro keeps_nodes_followed_by keeps_nodes_set_if) (simp_all add: accessors)

lemma load_services_stops:
  "list_all2 (\<lambda>n s. read_service lib n = Inr s) ns good \<Longrightarrow> read_service lib n = Inl e \<Longrightarrow>
   load_services lib (ns @ n # rest) c = (c\<lparr>m_nodes := m_nodes c @ good\<rparr>, Some e)"
proof (induction ns good arbitrary: c rule: list_all2_induct)
  case Nil
  then show ?case by simp
next
  case (Cons n' s ns good)
  then show ?case by (simp add: AddService_def)
qed

text \<open>
  C27: the start-up load is not so careful. When the rest of the configuration file is readable and its
  services are up to one that is not, the window opens with an empty list, no unsaved mark, no message
  and the status \<open>Ready\<close>, while the configuration it holds has the services before that one. Saving it
  then overwrites the file with the shortened list: the file afterwards loads without an error, and the
  service that could not be read and all after it are gone. (Of the library it is presumed that it reads
  back what it emits.)
\<close>

theorem failed_startup_load_truncates:
  assumes "files (m_configFilePath settings) = Some text" and "parse lib text = Inr root"
    and "followed_by (load_scalars lib root) (load_sections lib root)
      (ClearServices (f_config (ApplyDefaultConfig (MainFrame_widgets geometry settings)))) = (c, None)"
    and "subscript lib root ''services'' = Inr (Some services)" and "elements lib services = ns @ n # rest"
    and "list_all2 (\<lambda>n s. read_service lib n = Inr s) ns good" and "read_service lib n = Inl e"
    and "f = MainFrame_new lib (\<lambda>path. files path \<noteq> None) files geometry settings"
    and "reads_back lib" and "printable_config (f_config f)" and "open_ok os (m_configFilePath settings)"
    and "has_parent_path (m_configFilePath settings) \<longrightarrow> mkdirs_ok os (parent_path (m_configFilePath settings))"
    and "\<forall>path text. stored os path text = text"
  shows "f_rows f = [] \<and> f_emptyShown f \<and> \<not> f_unsaved f \<and> f_boxes f = [] \<and> f_status f = ''Ready'' \<and>
    m_nodes (f_config f) = good \<and>
    (\<exists>f' files' saved. OnSaveConfig lib os files f = Inr (f', files') \<and>
       Load lib files' LoadBalancerConfig_default (m_configFilePath settings) = (saved, Inr ()) \<and> m_nodes saved = good)"
proof -
  let ?f = "ApplyDefaultConfig (MainFrame_widgets geometry settings)"
  have w: "f_settings ?f = settings" "f_rows ?f = []" "f_emptyShown ?f" "\<not> f_unsaved ?f" "f_boxes ?f = []"
    "f_status ?f = ''Ready''" by (simp_all add: ApplyDefaultConfig_def Let_def MainFrame_widgets_def)
  have "m_nodes c = []"
    using keeps_nodes_sections [of lib root, unfolded keeps_nodes_def, rule_format,
        of "ClearServices (f_config ?f)"] assms(3) by (simp add: ClearServices_def)
  then have "load_service_list lib root c = (c\<lparr>m_nodes := good\<rparr>, Some e)"
    using load_services_stops [OF assms(6,7), of rest c] by (simp add: load_service_list_def assms(4,5))
  with assms(3) have "load_root lib root (f_config ?f) = (c\<lparr>m_nodes := good\<rparr>, Some e)"
    by (auto simp: load_root_def followed_by_def split: prod.splits option.splits)
  then have "Load lib files (f_config ?f) (m_configFilePath settings) = (c\<lparr>m_nodes := good\<rparr>, Inl (''YAML error: '' @ e))"
    by (simp add: Load_def LoadFile_def assms(1,2))
  then have f: "f = ?f\<lparr>f_config := c\<lparr>m_nodes := good\<rparr>, f_focus := Some NameInput\<rparr>"
    using w(1) assms(1) by (simp add: assms(8) MainFrame_new_def LoadExistingConfig_def accessors Let_def)
  have path: "m_configFilePath (f_settings f) = m_configFilePath settings" using w(1) by (simp add: f)
  obtain files' where "Save lib os (f_config f) (m_configFilePath settings) files = Inr (Inr (), files')"
    "Load lib files' LoadBalancerConfig_default (m_configFilePath settings) = (f_config f, Inr ())"
    using Load_Save [OF assms(9,10,12,11), of files LoadBalancerConfig_default] assms(13) by blast
  then have "\<exists>f' files' saved. OnSaveConfig lib os files f = Inr (f', files') \<and>
      Load lib files' LoadBalancerConfig_default (m_configFilePath settings) = (saved, Inr ()) \<and> m_nodes saved = m_nodes (f_config f)"
    by (simp add: OnSaveConfig_def Let_def accessors path)
  with w show ?thesis by (simp add: f)
qed

text \<open>Three services, of which the second has a port that is too large.\<close>

theorem failed_startup_load_truncates_witness:
  "let good = YMap [(''name'', YText ''web-1''), (''ip'', YText ''10.0.0.1''), (''port'', YNum 80)];
       bad = YMap [(''name'', YText ''web-2''), (''ip'', YText ''10.0.0.2''), (''port'', YNum 70000)];
       files = [''bitbridge-config.yaml'' \<mapsto> tokens_of (YMap [(''services'', YSeq [good, bad, good])])];
       disk = \<lparr>mkdirs_ok = (\<lambda>_. True), open_ok = (\<lambda>_. True), stored = (\<lambda>_ text. text)\<rparr>;
       f = MainFrame_new tree_lib (\<lambda>path. files path \<noteq> None) files demo_geometry AppSettings_new
   in f_rows f = [] \<and> m_nodes (f_config f) = [ServiceNode_new ''web-1'' ''10.0.0.1'' 80 1] \<and>
      (\<exists>f' files' saved. OnSaveConfig tree_lib disk files f = Inr (f', files') \<and>
         Load tree_lib files' LoadBalancerConfig_default ''bitbridge-config.yaml'' = (saved, Inr ()) \<and>
         m_nodes saved = [ServiceNode_new ''web-1'' ''10.0.0.1'' 80 1])"
proof -
  let ?good = "YMap [(''name'', YText ''web-1''), (''ip'', YText ''10.0.0.1''), (''port'', YNum 80)]"
  let ?bad = "YMap [(''name'', YText ''web-2''), (''ip'', YText ''10.0.0.2''), (''port'', YNum 70000)]"
  let ?root = "YMap [(''services'', YSeq [?good, ?bad, ?good])]"
  let ?files = "[''bitbridge-config.yaml'' \<mapsto> tokens_of ?root]"
  let ?disk = "\<lparr>mkdirs_ok = (\<lambda>_. True), open_ok = (\<lambda>_. True), stored = (\<lambda>_ text. text)\<rparr> :: yaml_token list os"
  let ?f = "MainFrame_new tree_lib (\<lambda>path. ?files path \<noteq> None) ?files demo_geometry AppSettings_new"
  have path: "m_configFilePath AppSettings_new = ''bitbridge-config.yaml''" by (simp add: AppSettings_new_def)
  obtain c where c: "followed_by (load_scalars tree_lib ?root) (load_sections tree_lib ?root)
      (ClearServices (f_config (ApplyDefaultConfig (MainFrame_widgets demo_geometry AppSettings_new)))) = (c, None)"
    by (simp add: load_scalars_def load_sections_def followed_by_def set_if_def)
  have bad: "\<exists>e. read_service tree_lib ?bad = Inl e"
    by (simp add: read_service_def value_or_def tree_lib_def)
  then obtain e where e: "read_service tree_lib ?bad = Inl e" by blast
  have good: "list_all2 (\<lambda>n s. read_service tree_lib n = Inr s) [?good] [ServiceNode_new ''web-1'' ''10.0.0.1'' 80 1]"
    by (simp add: read_service_def value_or_def)
  have p: "printable_config (f_config ?f)"
    by (simp add: MainFrame_new_def MainFrame_widgets_def ApplyDefaultConfig_def LoadExistingConfig_def
        AppSettings_new_def Load_def LoadFile_def tree_lib_def load_root_def load_scalars_def load_sections_def
        load_service_list_def followed_by_def set_if_def read_service_def value_or_def accessors printable_config_def printable_def)
  have on_disk: "?files (m_configFilePath AppSettings_new) = Some (tokens_of ?root)" by (simp add: path)
  have parsed: "parse tree_lib (tokens_of ?root) = Inr ?root"
    using parse_tokens_of [of "SeqFrame []" "[]" ?root] by (simp add: tree_lib_def)
  have services: "subscript tree_lib ?root ''services'' = Inr (Some (YSeq [?good, ?bad, ?good]))"
    "elements tree_lib (YSeq [?good, ?bad, ?good]) = [?good] @ ?bad # [?good]" by simp_all
  have os: "open_ok ?disk (m_configFilePath AppSettings_new)"
    "has_parent_path (m_configFilePath AppSettings_new) \<longrightarrow> mkdirs_ok ?disk (parent_path (m_configFilePath AppSettings_new))"
    "\<forall>path text. stored ?disk path text = text" by simp_all
  note failed_startup_load_truncates [OF on_disk parsed c services good e refl tree_lib_reads_back p os]
  then show ?thesis unfolding Let_def path by blast
qed

text \<open>
  Saving and then pressing Load brings back the configuration the window showed, with nothing
  marked unsaved, for a library that reads back what it emits.
\<close>

lemma save_then_load_in_window:
  assumes "reads_back lib" and "printable_config (f_config f)" and "open_ok os (m_configFilePath (f_settings f))"
    and "has_parent_path (m_configFilePath (f_settings f)) \<longrightarrow> mkdirs_ok os (parent_path (m_configFilePath (f_settings f)))"
    and "\<forall>path text. stored os path text = text" and "exists_file (m_configFilePath (f_settings f))"
  shows "\<exists>f1 files'. OnSaveConfig lib os files f = Inr (f1, files') \<and> \<not> f_unsaved f1 \<and>
    f_config (OnLoadConfig lib exists_file files' f1) = f_config f \<and>
    \<not> f_unsaved (OnLoadConfig lib exists_file files' f1)"
proof -
  obtain files' where "Save lib os (f_config f) (m_configFilePath (f_settings f)) files = Inr (Inr (), files')"
    "Load lib files' LoadBalancerConfig_default (m_configFilePath (f_settings f)) = (f_config f, Inr ())"
    using Load_Save [OF assms(1,2,4,3), of files LoadBalancerConfig_default] assms(5) by blast
  with assms(6) show ?thesis by (simp add: handlers Let_def accessors)
qed

lemma save_then_load_in_window_witness:
  "let disk = \<lparr>mkdirs_ok = (\<lambda>_. True), open_ok = (\<lambda>_. True), stored = (\<lambda>_ text. text)\<rparr>;
       f = (MainFrame_widgets demo_geometry AppSettings_new)\<lparr>f_config :=
         AddService (ServiceNode_new ''web-1'' ''10.0.0.1'' 80 1) LoadBalancerConfig_default\<rparr>
   in \<exists>f1 files'. OnSaveConfig tree_lib disk Map.empty f = Inr (f1, files') \<and>
        f_config (OnLoadConfig tree_lib (\<lambda>_. True) files' f1) = f_config f"
proof -
  let ?disk = "\<lparr>mkdirs_ok = (\<lambda>_. True), open_ok = (\<lambda>_. True), stored = (\<lambda>_ text. text)\<rparr> :: yaml_token list os"
  let ?f = "(MainFrame_widgets demo_geometry AppSettings_new)\<lparr>f_config :=
         AddService (ServiceNode_new ''web-1'' ''10.0.0.1'' 80 1) LoadBalancerConfig_default\<rparr>"
  have "printable_config (f_config ?f)" by (simp add: printable_config_def accessors)
  from save_then_load_in_window [OF tree_lib_reads_back this, of ?disk "\<lambda>_. True" Map.empty]
  show ?thesis unfolding Let_def by auto
qed

text \<open>
  In the four input fields, Shift+Tab undoes Tab, and four Tabs come back to the same field.
\<close>

lemma tab_search_fields:
  "tab_search shift (Some NameInput) 0 tabOrder = Some (if shift then WeightInput else IpInput)"
  "tab_search shift (Some IpInput) 0 tabOrder = Some (if shift then NameInput else PortInput)"
  "tab_search shift (Some PortInput) 0 tabOrder = Some (if shift then IpInput else WeightInput)"
  "tab_search shift (Some WeightInput) 0 tabOrder = Some (if shift then PortInput else NameInput)"
  by (simp_all add: tabOrder_def)

lemma tab_search_None_iff: "tab_search shift focused 0 tabOrder = None \<longleftrightarrow> focused \<notin> Some ` set tabOrder"
  by (auto simp: tabOrder_def)

lemma HandleTabNavigation_field:
  "tab_search shift (Some c) 0 tabOrder = Some d \<Longrightarrow>
   HandleTabNavigation Key_Tab shift (f\<lparr>f_focus := Some c\<rparr>) = Some (f\<lparr>f_focus := Some d\<rparr>)"
  by (simp add: HandleTabNavigation_def)

lemma tab_navigation_cycles:
  assumes "f_focus f = Some c" and "c \<in> set tabOrder"
  shows "Option.bind (HandleTabNavigation Key_Tab False f) (HandleTabNavigation Key_Tab True) = Some f \<and>
    ((\<lambda>r. Option.bind r (HandleTabNavigation Key_Tab False)) ^^ 4) (Some f) = Some f"
proof -
  note step = tab_search_fields [THEN HandleTabNavigation_field]
  have f: "f = f\<lparr>f_focus := Some c\<rparr>" using assms(1) by simp
  have "c = NameInput \<or> c = IpInput \<or> c = PortInput \<or> c = WeightInput"
    using assms(2) by (auto simp: tabOrder_def)
  then have "Option.bind (HandleTabNavigation Key_Tab False (f\<lparr>f_focus := Some c\<rparr>)) (HandleTabNavigation Key_Tab True) =
      Some (f\<lparr>f_focus := Some c\<rparr>) \<and>
    ((\<lambda>r. Option.bind r (HandleTabNavigation Key_Tab False)) ^^ 4) (Some (f\<lparr>f_focus := Some c\<rparr>)) =
      Some (f\<lparr>f_focus := Some c\<rparr>)"
    by (elim disjE) (simp_all add: step numeral_eq_Suc)
  with f show ?thesis by simp
qed

end
