(* ===== verification/Editor_Window.thy ===== *)
theory Editor_Window
  imports Main_Frame
begin

text \<open>
  The editor at work: which control and which key runs which handler (the \<open>Bind\<close> calls at the end of
  the constructor of \<open>MainFrame\<close>), and the window with the files on disk as a step relation whose
  events come from the user and the window system. What is proved of every reachable window is at
  the end.
\<close>

section \<open>Event bindings\<close>

datatype handler = AddHandler | RemoveHandler | SaveHandler | LoadHandler

text \<open>\<open>wxEVT_BUTTON\<close> and \<open>wxEVT_TEXT_ENTER\<close>.\<close>

fun button_binding :: "control \<Rightarrow> handler option" where
  "button_binding AddButton = Some AddHandler"
| "button_binding RemoveButton = Some RemoveHandler"
| "button_binding SaveButton = Some SaveHandler"
| "button_binding LoadButton = Some LoadHandler"
| "button_binding _ = None"

fun enter_binding :: "control \<Rightarrow> handler option" where
  "enter_binding NameInput = Some AddHandler"
| "enter_binding IpInput = Some AddHandler"
| "enter_binding PortInput = Some AddHandler"
| "enter_binding WeightInput = Some AddHandler"
| "enter_binding _ = None"

text \<open>\<open>wxEVT_KEY_DOWN\<close> on the list; \<open>None\<close> when the event is skipped.\<close>

definition list_key_down :: "key \<Rightarrow> handler option" where
  "list_key_down key = (if key = Key_Delete \<or> key = Key_Back then Some RemoveHandler else None)"

text \<open>\<open>wxEVT_SIZE\<close> on the list, after the window system has laid the window out anew.\<close>

definition list_resized :: "geometry \<Rightarrow> MainFrame \<Rightarrow> MainFrame" where
  "list_resized geometry f = RepositionEmptyLabel (f\<lparr>f_geometry := geometry\<rparr>)"

section \<open>The selection\<close>

text \<open>
  What the loop relies on: asked for the first selected row after \<open>item\<close>, the list control answers
  the least one, or \<open>-1\<close>.
\<close>

definition next_item_ok :: "(int \<Rightarrow> int) \<Rightarrow> nat set \<Rightarrow> bool" where
  "next_item_ok next_item S \<longleftrightarrow>
     (\<forall>item\<ge>-1. next_item item = -1 \<and> (\<forall>j\<in>S. int j \<le> item) \<or>
        (\<exists>j\<in>S. next_item item = int j \<and> item < int j \<and> (\<forall>k\<in>S. int k \<le> item \<or> j \<le> k)))"

lemma next_item_cases:
  assumes "next_item_ok next_item S" and "-1 \<le> item"
  obtains (last) "next_item item = -1" "{j \<in> S. item < int j} = {}"
    | (more) j where "j \<in> S" "next_item item = int j" "item < int j"
        "{k \<in> S. item < int k} = insert j {k \<in> S. int j < int k}"
        "\<forall>k\<in>{k \<in> S. int j < int k}. j < k"
proof -
  from assms consider "next_item item = -1" "\<forall>j\<in>S. int j \<le> item"
    | j where "j \<in> S" "next_item item = int j" "item < int j" "\<forall>k\<in>S. int k \<le> item \<or> j \<le> k"
    unfolding next_item_ok_def by blast
  then show ?thesis
  proof cases
    case 1
    then show ?thesis by (intro last) force+
  next
    case (2 j)
    then show ?thesis by (intro more [of j]) force+
  qed
qed

lemma collect_selected_from:
  assumes "next_item_ok next_item S" and "finite S" and "-1 \<le> item"
  shows "collect_selected next_item item = Some (sorted_list_of_set {j \<in> S. item < int j})"
  using assms(3)
proof (induction "card {j \<in> S. item < int j}" arbitrary: item rule: less_induct)
  case less
  from assms(1) less.prems show ?case
  proof (cases rule: next_item_cases)
    case last
    from last(1) show ?thesis unfolding last(2) by (subst collect_selected.simps) simp
  next
    case (more j)
    let ?rest = "{k \<in> S. int j < int k}"
    have fin: "finite ?rest" using assms(2) by simp
    have j: "j \<notin> ?rest" by simp
    have "card ?rest < card {k \<in> S. item < int k}"
      unfolding more(4) card_insert_disjoint [OF fin j] by (rule lessI)
    then have rest: "collect_selected next_item (int j) = Some (sorted_list_of_set ?rest)"
      by (rule less.hyps) simp
    have "sorted_list_of_set (insert j ?rest) = j # sorted_list_of_set ?rest"
    proof -
      have "sorted_list_of_set (insert j ?rest) = insort j (sorted_list_of_set ?rest)"
        by (rule sorted_list_of_set_insert [OF fin j])
      also have "\<dots> = j # sorted_list_of_set ?rest"
        by (rule insort_is_Cons) (use fin more(5) less_imp_le in \<open>auto simp only: set_sorted_list_of_set\<close>)
      finally show ?thesis .
    qed
    with more(2) rest show ?thesis
      unfolding more(4) by (subst collect_selected.simps) simp
  qed
qed

text \<open>So the loop ends and collects the selected rows in ascending order.\<close>

lemma collect_selected_sorted:
  assumes "next_item_ok next_item S" and "finite S"
  shows "collect_selected next_item (-1) = Some (sorted_list_of_set S)"
  using collect_selected_from [OF assms, of "-1"] by simp

section \<open>The window as a state machine\<close>

text \<open>
  The window and the files on disk. \<open>selection\<close> and \<open>next_item\<close> are the user's selection and how the
  list control enumerates it; the file system may refuse to create or open a file at any time, and
  stores what is written when it does not. A \<open>Save\<close> that throws leaves the event loop.
\<close>

type_synonym 'f editor = "MainFrame \<times> 'f files"

inductive run_handler ::
    "('n, 'f) yaml_lib \<Rightarrow> to_ulong \<Rightarrow> handler \<Rightarrow> 'f editor \<Rightarrow> 'f editor \<Rightarrow> bool"
  for lib :: "('n, 'f) yaml_lib" and ulong :: to_ulong where
  run_add: "run_handler lib ulong AddHandler (f, files) (OnAddService ulong f, files)"
| run_remove: "next_item_ok next_item selection \<Longrightarrow> selection \<subseteq> {..<length (f_rows f)} \<Longrightarrow>
    collect_selected next_item (-1) = Some selected \<Longrightarrow>
    run_handler lib ulong RemoveHandler (f, files) (OnRemoveService selected f, files)"
| run_save: "\<forall>path out. stored os path out = out \<Longrightarrow> OnSaveConfig lib os files f = Inr (f', files') \<Longrightarrow>
    run_handler lib ulong SaveHandler (f, files) (f', files')"
| run_load: "run_handler lib ulong LoadHandler (f, files)
    (OnLoadConfig lib (\<lambda>path. files path \<noteq> None) files f, files)"

inductive_cases run_handlerE: "run_handler lib ulong h s t"

text \<open>Text typed into a field, and a click that moves the focus.\<close>

fun type_text :: "control \<Rightarrow> string \<Rightarrow> MainFrame \<Rightarrow> MainFrame" where
  "type_text NameInput s f = f\<lparr>f_name := s\<rparr>"
| "type_text IpInput s f = f\<lparr>f_ip := s\<rparr>"
| "type_text PortInput s f = f\<lparr>f_port := s\<rparr>"
| "type_text WeightInput s f = f\<lparr>f_weight := s\<rparr>"
| "type_text _ s f = f"

datatype window_event =
    Click control
  | Enter control
  | KeyPress key bool
  | Type control string
  | Focus "control option"
  | Resize geometry

text \<open>The frame sees a key first (\<open>wxEVT_CHAR_HOOK\<close>); a key it skips reaches the focused control.\<close>

inductive window_step ::
    "('n, 'f) yaml_lib \<Rightarrow> to_ulong \<Rightarrow> 'f editor \<Rightarrow> window_event \<Rightarrow> 'f editor \<Rightarrow> bool"
  for lib :: "('n, 'f) yaml_lib" and ulong :: to_ulong where
  step_click: "button_binding c = Some h \<Longrightarrow> run_handler lib ulong h s t \<Longrightarrow>
    window_step lib ulong s (Click c) t"
| step_enter: "enter_binding c = Some h \<Longrightarrow> run_handler lib ulong h s t \<Longrightarrow>
    window_step lib ulong s (Enter c) t"
| step_tab: "HandleTabNavigation key shift f = Some f' \<Longrightarrow>
    window_step lib ulong (f, files) (KeyPress key shift) (f', files)"
| step_list_key: "HandleTabNavigation key shift (fst s) = None \<Longrightarrow> f_focus (fst s) = Some ServiceList \<Longrightarrow>
    list_key_down key = Some h \<Longrightarrow> run_handler lib ulong h s t \<Longrightarrow>
    window_step lib ulong s (KeyPress key shift) t"
| step_type: "printable text \<Longrightarrow> window_step lib ulong (f, files) (Type c text) (type_text c text f, files)"
| step_focus: "window_step lib ulong (f, files) (Focus focus) (f\<lparr>f_focus := focus\<rparr>, files)"
| step_resize: "window_step lib ulong (f, files) (Resize geometry) (list_resized geometry f, files)"

inductive_cases window_stepE: "window_step lib ulong s e t"

text \<open>
  What the editor answers for. \<open>K\<close> are the services it found when it opened, which \<open>Load\<close> does not
  validate: every other service is valid with a weight, and only services that were found may share
  a name or an address and port.
\<close>

definition clash :: "ServiceNode \<Rightarrow> ServiceNode \<Rightarrow> bool" where
  "clash s t \<longleftrightarrow> m_name s = m_name t \<or> (m_ip s, m_port s) = (m_ip t, m_port t)"

definition services_from :: "ServiceNode set \<Rightarrow> LoadBalancerConfig \<Rightarrow> bool" where
  "services_from K config \<longleftrightarrow>
     (\<forall>s\<in>set (m_nodes config). IsValid s \<and> m_weight s \<noteq> 0 \<or> s \<in> K) \<and>
     sorted_wrt (\<lambda>s t. clash s t \<longrightarrow> s \<in> K \<and> t \<in> K) (m_nodes config)"

definition file_config :: "('n, 'f) yaml_lib \<Rightarrow> AppSettings \<Rightarrow> 'f files \<Rightarrow> LoadBalancerConfig \<times> (string + unit)" where
  "file_config lib settings files = Load lib files LoadBalancerConfig_default (m_configFilePath settings)"

definition found :: "('n, 'f) yaml_lib \<Rightarrow> MainFrame \<Rightarrow> 'f files \<Rightarrow> ServiceNode set" where
  "found lib f0 files0 =
     set (m_nodes (f_config f0)) \<union> set (m_nodes (fst (file_config lib (f_settings f0) files0)))"

text \<open>A window that has not shown its configuration since a start-up load that failed.\<close>

definition unlisted :: "MainFrame \<Rightarrow> MainFrame \<Rightarrow> bool" where
  "unlisted f0 f \<longleftrightarrow>
     \<not> mirrors f0 \<and> f_config f = f_config f0 \<and> f_rows f = [] \<and> f_emptyShown f \<and> f_unsavedShown f = f_unsaved f"

text \<open>The window as it opens, over files whose texts survive a round trip.\<close>

definition opened :: "('n, 'f) yaml_lib \<Rightarrow> MainFrame \<Rightarrow> 'f files \<Rightarrow> 'f editor \<Rightarrow> bool" where
  "opened lib f0 files0 s \<longleftrightarrow>
     s = (f0, files0) \<and> reads_back lib \<and> printable_config (f_config f0) \<and>
     (\<forall>c. file_config lib (f_settings f0) files0 = (c, Inr ()) \<longrightarrow> printable_config c) \<and>
     printable (f_name f0) \<and> printable (f_ip f0) \<and> (mirrors f0 \<or> unlisted f0 f0)"

definition kept :: "ServiceNode set \<Rightarrow> LoadBalancerConfig \<Rightarrow> bool" where
  "kept K config \<longleftrightarrow> services_from K config \<and> printable_config config"

definition window_inv :: "('n, 'f) yaml_lib \<Rightarrow> MainFrame \<Rightarrow> 'f files \<Rightarrow> 'f editor \<Rightarrow> bool" where
  "window_inv lib f0 files0 = (\<lambda>(f, files).
     f_settings f = f_settings f0 \<and> reads_back lib \<and> printable (f_name f) \<and> printable (f_ip f) \<and>
     kept (found lib f0 files0) (f_config f) \<and>
     (\<forall>c. file_config lib (f_settings f0) files = (c, Inr ()) \<longrightarrow> kept (found lib f0 files0) c) \<and>
     (mirrors f \<or> unlisted f0 f) \<and>
     (\<not> f_unsaved f \<longrightarrow> f_config f = f_config f0 \<and> files = files0 \<or>
        file_config lib (f_settings f0) files = (f_config f, Inr ())))"

lemma services_from_found: "set (m_nodes config) \<subseteq> K \<Longrightarrow> services_from K config"
  by (auto simp: services_from_def sorted_wrt_iff_nth_less subset_iff)

lemma services_from_empty: "services_from {} config \<longleftrightarrow> services_ok config"
  by (auto simp: services_from_def services_ok_def clash_def distinct_conv_nth sorted_wrt_iff_nth_less)
     (metis nat_neq_iff)+

lemma services_from_AddService:
  assumes "services_from K c" and "IsValid s" and "m_weight s \<noteq> 0"
    and "\<forall>t\<in>set (m_nodes c). m_name t \<noteq> m_name s \<and> (m_ip t, m_port t) \<noteq> (m_ip s, m_port s)"
  shows "services_from K (AddService s c)"
  using assms by (auto simp: services_from_def AddService_def sorted_wrt_append clash_def)

lemma sorted_wrt_nths: "sorted_wrt P xs \<Longrightarrow> sorted_wrt P (nths xs A)"
  by (induction xs arbitrary: A) (auto simp: nths_Cons dest: in_set_nthsD)

lemma services_from_remove: "services_from K c \<Longrightarrow> services_from K (remove_reversed selected c)"
proof -
  have one: "services_from K c \<Longrightarrow> services_from K (RemoveService i c)" for c i
    by (auto simp: services_from_def m_nodes_RemoveService sorted_wrt_nths dest: in_set_nthsD)
  have "services_from K c \<Longrightarrow> services_from K (foldl (\<lambda>c idx. RemoveService idx c) c xs)" for xs
    by (induction xs arbitrary: c) (simp_all add: one)
  then show "services_from K c \<Longrightarrow> services_from K (remove_reversed selected c)" by (simp add: remove_reversed_def)
qed

lemma window_invI:
  assumes "window_inv lib f0 files0 (f, files)"
    and "f_settings f' = f_settings f" and "f_config f' = f_config f" and "f_unsaved f' = f_unsaved f"
    and "f_rows f' = f_rows f" and "f_emptyShown f' = f_emptyShown f" and "f_unsavedShown f' = f_unsavedShown f"
    and "printable (f_name f')" and "printable (f_ip f')"
  shows "window_inv lib f0 files0 (f', files)"
  using assms by (simp add: window_inv_def mirrors_def unlisted_def)

text \<open>Events that only change what is typed, focused or where labels are.\<close>

lemma printable_Nil: "printable []" by (simp add: printable_def)

lemma HandleTabNavigation_Some:
  "HandleTabNavigation key shift f = Some f' \<Longrightarrow> \<exists>c. f' = f\<lparr>f_focus := Some c\<rparr>"
  by (auto simp: HandleTabNavigation_def split: if_splits option.splits)

lemma focus_inv:
  assumes "window_inv lib f0 files0 (f, files)"
  shows "window_inv lib f0 files0 (f\<lparr>f_focus := focus\<rparr>, files)"
  by (rule window_invI [OF assms]) (use assms in \<open>simp_all add: window_inv_def\<close>)

lemma type_text_inv:
  assumes "window_inv lib f0 files0 (f, files)" and "printable text"
  shows "window_inv lib f0 files0 (type_text c text f, files)"
  by (rule window_invI [OF assms(1)]) (use assms in \<open>(cases c; simp add: window_inv_def)+\<close>)

lemma list_resized_inv:
  assumes "window_inv lib f0 files0 (f, files)"
  shows "window_inv lib f0 files0 (list_resized geometry f, files)"
  by (rule window_invI [OF assms]) (use assms in \<open>simp_all add: list_resized_def window_inv_def\<close>)

text \<open>Adding, removing, saving and loading.\<close>

lemma OnAddService_effect:
  "f_settings (OnAddService ulong f) = f_settings f \<and>
   (f_config (OnAddService ulong f) = f_config f \<and> f_unsaved (OnAddService ulong f) = f_unsaved f \<and>
      f_name (OnAddService ulong f) = f_name f \<and> f_ip (OnAddService ulong f) = f_ip f \<or>
    (\<exists>port weight. f_config (OnAddService ulong f) =
       AddService (ServiceNode_new (f_name f) (f_ip f) port weight) (f_config f)) \<and>
      f_unsaved (OnAddService ulong f) \<and>
      f_name (OnAddService ulong f) = [] \<and> f_ip (OnAddService ulong f) = [])"
  by (auto simp: handlers Let_def split: option.splits)

lemma printable_config_AddService:
  "printable_config c \<Longrightarrow> printable name \<Longrightarrow> printable ip \<Longrightarrow>
   printable_config (AddService (ServiceNode_new name ip port weight) c)"
  by (auto simp: printable_config_def AddService_def ServiceNode_new_def)

lemma printable_config_RemoveService: "printable_config c \<Longrightarrow> printable_config (RemoveService i c)"
  unfolding printable_config_def m_nodes_RemoveService
  by (simp add: RemoveService_def) (blast dest: in_set_nthsD)

lemma printable_config_remove: "printable_config c \<Longrightarrow> printable_config (remove_reversed selected c)"
proof -
  have "printable_config c \<Longrightarrow> printable_config (foldl (\<lambda>c idx. RemoveService idx c) c xs)" for xs
    by (induction xs arbitrary: c) (simp_all add: printable_config_RemoveService)
  then show "printable_config c \<Longrightarrow> printable_config (remove_reversed selected c)"
    by (simp add: remove_reversed_def)
qed

lemma OnAddService_inv:
  assumes "window_inv lib f0 files0 (f, files)"
  shows "window_inv lib f0 files0 (OnAddService ulong f, files)"
proof -
  have "services_from (found lib f0 files0) (f_config (OnAddService ulong f))"
    using assms OnAddService_adds [of ulong f] services_from_AddService
    by (auto simp: window_inv_def kept_def)
  then have kept: "kept (found lib f0 files0) (f_config (OnAddService ulong f))"
    using assms OnAddService_effect [of ulong f] printable_config_AddService [of "f_config f" "f_name f" "f_ip f"]
    by (auto simp: window_inv_def kept_def)
  have "mirrors f \<Longrightarrow> mirrors (OnAddService ulong f)"
    using handlers_keep_window_in_step by blast
  moreover have "unlisted f0 f \<Longrightarrow> mirrors (OnAddService ulong f) \<or> unlisted f0 (OnAddService ulong f)"
    by (auto simp: unlisted_def mirrors_def handlers Let_def accessors split: option.splits)
  ultimately show ?thesis
    using assms kept OnAddService_effect [of ulong f]
    by (auto simp: window_inv_def printable_Nil)
qed

lemma OnRemoveService_inv:
  assumes "window_inv lib f0 files0 (f, files)" and "f_rows f = [] \<longrightarrow> selected = []"
  shows "window_inv lib f0 files0 (OnRemoveService selected f, files)"
proof -
  have "kept (found lib f0 files0) (f_config (OnRemoveService selected f))"
    using assms(1) services_from_remove printable_config_remove
    by (simp add: window_inv_def kept_def handlers Let_def)
  moreover have "mirrors f \<Longrightarrow> mirrors (OnRemoveService selected f)"
    using handlers_keep_window_in_step by blast
  moreover have "unlisted f0 f \<Longrightarrow> unlisted f0 (OnRemoveService selected f)"
    using assms(2) by (simp add: unlisted_def handlers)
  ultimately show ?thesis
    using assms(1) by (auto simp: window_inv_def handlers Let_def)
qed

lemma OnLoadConfig_inv:
  assumes "window_inv lib f0 files0 (f, files)"
  shows "window_inv lib f0 files0 (OnLoadConfig lib (\<lambda>path. files path \<noteq> None) files f, files)"
    (is "window_inv lib f0 files0 (?f, files)")
proof -
  have loaded: "f_config ?f = f_config f \<and> f_unsaved ?f = f_unsaved f \<or>
      file_config lib (f_settings f) files = (f_config ?f, Inr ()) \<and> \<not> f_unsaved ?f"
    by (auto simp: handlers Let_def file_config_def accessors split: prod.splits sum.splits)
  have same: "f_settings ?f = f_settings f \<and> f_name ?f = f_name f \<and> f_ip ?f = f_ip f"
    by (auto simp: handlers Let_def split: prod.splits sum.splits)
  have "mirrors f \<Longrightarrow> mirrors ?f" using handlers_keep_window_in_step by blast
  moreover have "unlisted f0 f \<Longrightarrow> mirrors ?f \<or> unlisted f0 ?f"
    by (auto simp: unlisted_def mirrors_def handlers Let_def accessors split: prod.splits sum.splits)
  ultimately show ?thesis using assms loaded same by (auto simp: window_inv_def)
qed

lemma OnSaveConfig_effect:
  assumes "OnSaveConfig lib os files f = Inr (f', files')"
    and "reads_back lib" and "printable_config (f_config f)" and "\<forall>path out. stored os path out = out"
  shows "f_settings f' = f_settings f \<and> f_config f' = f_config f \<and> f_name f' = f_name f \<and> f_ip f' = f_ip f \<and>
    (f_unsaved f' = f_unsaved f \<and> files' = files \<or>
     \<not> f_unsaved f' \<and> file_config lib (f_settings f) files' = (f_config f, Inr ()))"
proof (cases "has_parent_path (m_configFilePath (f_settings f)) \<and> \<not> mkdirs_ok os (parent_path (m_configFilePath (f_settings f)))")
  case True
  with assms(1) show ?thesis by (simp add: OnSaveConfig_def Save_def Let_def accessors)
next
  case dirs: False
  show ?thesis
  proof (cases "open_ok os (m_configFilePath (f_settings f))")
    case True
    with dirs obtain saved where "Save lib os (f_config f) (m_configFilePath (f_settings f)) files = Inr (Inr (), saved)"
      "Load lib saved LoadBalancerConfig_default (m_configFilePath (f_settings f)) = (f_config f, Inr ())"
      using Load_Save [OF assms(2,3)] assms(4) by blast
    with assms(1) show ?thesis
      by (auto simp: OnSaveConfig_def Let_def accessors file_config_def MarkSaved_def SetStatusText_def)
  next
    case False
    with dirs assms(1) show ?thesis
      by (auto simp: OnSaveConfig_def Save_def Let_def accessors show_box_def)
  qed
qed

lemma OnSaveConfig_inv:
  assumes "window_inv lib f0 files0 (f, files)" and "OnSaveConfig lib os files f = Inr (f', files')"
    and "\<forall>path out. stored os path out = out"
  shows "window_inv lib f0 files0 (f', files')"
proof -
  have "mirrors f \<Longrightarrow> mirrors f'" using handlers_keep_window_in_step assms(2) by blast
  moreover have "f_rows f' = f_rows f \<and> f_emptyShown f' = f_emptyShown f \<and> f_config f' = f_config f \<and>
      (f_unsavedShown f = f_unsaved f \<longrightarrow> f_unsavedShown f' = f_unsaved f')"
    using assms(2)
    by (cases "Save lib os (f_config f) (GetConfigFilePath (f_settings f)) files")
       (auto simp: OnSaveConfig_def show_box_def MarkSaved_def SetStatusText_def Let_def split: sum.splits)
  then have "unlisted f0 f \<Longrightarrow> unlisted f0 f'" by (simp add: unlisted_def)
  moreover have "f_settings f' = f_settings f \<and> f_config f' = f_config f \<and> f_name f' = f_name f \<and> f_ip f' = f_ip f \<and>
    (f_unsaved f' = f_unsaved f \<and> files' = files \<or>
     \<not> f_unsaved f' \<and> file_config lib (f_settings f) files' = (f_config f, Inr ()))"
    using assms(1) by (intro OnSaveConfig_effect [OF assms(2) _ _ assms(3)]) (auto simp: window_inv_def kept_def)
  ultimately show ?thesis
    using assms(1) by (auto simp: window_inv_def)
qed

text \<open>Nothing can be selected in a list without rows.\<close>

lemma nothing_selected:
  assumes "next_item_ok next_item selection" and "selection \<subseteq> {..<length (f_rows f)}"
    and "collect_selected next_item (-1) = Some selected" and "f_rows f = []"
  shows "selected = []"
  using assms collect_selected_sorted [OF assms(1)] by simp

lemma run_handler_inv:
  "run_handler lib ulong h s t \<Longrightarrow> window_inv lib f0 files0 s \<Longrightarrow> window_inv lib f0 files0 t"
proof (induction rule: run_handler.induct)
  case (run_remove next_item selection f selected files)
  then show ?case using nothing_selected [OF run_remove(1-3)] by (intro OnRemoveService_inv) auto
qed (assumption | erule OnAddService_inv OnLoadConfig_inv | rule OnSaveConfig_inv)+

lemma window_step_inv:
  assumes "window_inv lib f0 files0 s" and "window_step lib ulong s e t"
  shows "window_inv lib f0 files0 t"
  using assms(2,1)
proof (induction rule: window_step.induct)
  case (step_tab key shift f f' files)
  then show ?case
    by (auto dest!: HandleTabNavigation_Some intro: focus_inv)
next
  case (step_focus f files focus)
  then show ?case by (rule focus_inv)
qed (auto intro: run_handler_inv type_text_inv list_resized_inv)

interpretation editor: inductive_invariant "opened lib f0 files0" "window_step lib ulong" "window_inv lib f0 files0"
  for lib :: "('n, 'f) yaml_lib" and ulong :: to_ulong and f0 files0
proof
  show "window_inv lib f0 files0 s" if "opened lib f0 files0 s" for s
    using that by (auto simp: opened_def window_inv_def kept_def found_def intro!: services_from_found)
qed (rule window_step_inv)

text \<open>When the window opens in step with its configuration: unless the start-up load fails.\<close>

lemma m_nodes_ApplyDefaultConfig: "m_nodes (f_config (ApplyDefaultConfig f)) = m_nodes (f_config f)"
  by (simp add: ApplyDefaultConfig_def Let_def accessors)

lemma MainFrame_new_mirrors:
  assumes "files (m_configFilePath settings) = None \<or>
    snd (Load lib files (f_config (ApplyDefaultConfig (MainFrame_widgets geometry settings))) (m_configFilePath settings)) = Inr ()"
  shows "mirrors (MainFrame_new lib (\<lambda>path. files path \<noteq> None) files geometry settings)"
proof -
  let ?f = "ApplyDefaultConfig (MainFrame_widgets geometry settings)"
  have f: "f_settings ?f = settings" "f_rows ?f = []" "f_emptyShown ?f" "f_unsavedShown ?f = f_unsaved ?f"
    by (simp_all add: ApplyDefaultConfig_def Let_def MainFrame_widgets_def)
  have "m_nodes (f_config ?f) = []"
    by (simp add: m_nodes_ApplyDefaultConfig MainFrame_widgets_def LoadBalancerConfig_default_def)
  with assms f show ?thesis
    by (auto simp: MainFrame_new_def LoadExistingConfig_def Let_def mirrors_def accessors MarkSaved_def
        SetStatusText_def split: prod.splits sum.splits)
qed

definition start_load_failed :: "('n, 'f) yaml_lib \<Rightarrow> 'f files \<Rightarrow> geometry \<Rightarrow> AppSettings \<Rightarrow> bool" where
  "start_load_failed lib files geometry settings \<longleftrightarrow>
     files (m_configFilePath settings) \<noteq> None \<and>
     snd (Load lib files (f_config (ApplyDefaultConfig (MainFrame_widgets geometry settings)))
       (m_configFilePath settings)) \<noteq> Inr ()"

lemma MainFrame_new_fields:
  "f_settings (MainFrame_new lib exists_file files geometry settings) = settings"
  "f_name (MainFrame_new lib exists_file files geometry settings) = []"
  "f_ip (MainFrame_new lib exists_file files geometry settings) = []"
  by (auto simp: MainFrame_new_def LoadExistingConfig_def ApplyDefaultConfig_def MainFrame_widgets_def
      Let_def MarkSaved_def SetStatusText_def split: prod.splits sum.splits)

lemma start_load_ok_mirrors:
  assumes "f0 = MainFrame_new lib (\<lambda>path. files path \<noteq> None) files geometry settings"
    and "\<not> start_load_failed lib files geometry settings"
  shows "mirrors f0"
  unfolding assms(1) by (rule MainFrame_new_mirrors) (use assms(2) in \<open>auto simp: start_load_failed_def\<close>)

lemma MainFrame_new_shown:
  assumes "f0 = MainFrame_new lib (\<lambda>path. files path \<noteq> None) files geometry settings"
  shows "mirrors f0 \<or> unlisted f0 f0"
proof (cases "start_load_failed lib files geometry settings")
  case True
  let ?f = "ApplyDefaultConfig (MainFrame_widgets geometry settings)"
  have f: "f_settings ?f = settings" "f_rows ?f = []" "f_emptyShown ?f" "f_unsavedShown ?f = f_unsaved ?f"
    by (simp_all add: ApplyDefaultConfig_def Let_def MainFrame_widgets_def)
  obtain c e where load: "Load lib files (f_config ?f) (m_configFilePath settings) = (c, Inl e)"
    using True by (cases "Load lib files (f_config ?f) (m_configFilePath settings)"; cases "snd (Load lib files (f_config ?f) (m_configFilePath settings))")
      (auto simp: start_load_failed_def)
  then have "f0 = ?f\<lparr>f_config := c, f_focus := Some NameInput\<rparr>"
    using True f(1) assms by (auto simp: MainFrame_new_def LoadExistingConfig_def start_load_failed_def accessors Let_def)
  with f show ?thesis by (auto simp: unlisted_def)
next
  case False
  with start_load_ok_mirrors [OF assms] show ?thesis by blast
qed

lemma reachable_window_inv:
  assumes "reads_back lib" and "f0 = MainFrame_new lib (\<lambda>path. files0 path \<noteq> None) files0 geometry settings"
    and "printable_config (f_config f0)"
    and "\<forall>c. file_config lib settings files0 = (c, Inr ()) \<longrightarrow> printable_config c"
    and "reach (\<lambda>s. s = (f0, files0)) (window_step lib ulong) (f, files)"
  shows "window_inv lib f0 files0 (f, files)"
proof -
  have "(\<lambda>s. s = (f0, files0)) = opened lib f0 files0"
    using assms(1-4) MainFrame_new_shown [OF assms(2)]
    by (auto simp: opened_def printable_Nil fun_eq_iff MainFrame_new_fields)
  with assms(5) show ?thesis using editor.reachable_inv by metis
qed

text \<open>The empty label stays inside the list when it fits into it.\<close>

lemma empty_label_inside_list:
  assumes "f_emptyShown f" and "g_listSize (f_geometry f) = (w, h)" and "g_emptyLabelSize (f_geometry f) = (lw, lh)"
    and "lw \<le> w" and "lh \<le> h" and "f_emptyPos (RepositionEmptyLabel f) = (x, y)"
  shows "0 \<le> x \<and> x + lw \<le> w \<and> 0 \<le> y \<and> y + lh \<le> h"
  using assms by (auto simp: RepositionEmptyLabel_def signed_divide_int_def sgn_if)

text \<open>
  The Load button builds its configuration on the defaults of the class, the start-up load on those of
  the settings file: with a file that leaves the name out, pressing Load in an untouched window
  changes the configuration.
\<close>

lemma load_button_drops_settings_defaults:
  "let files = [''bitbridge-config.yaml'' \<mapsto> tokens_of (YMap [(''services'', YSeq [])])];
       settings = AppSettings_new\<lparr>m_defaultName := ''edge''\<rparr>;
       f = MainFrame_new tree_lib (\<lambda>_. True) files demo_geometry settings
   in GetName (f_config f) = ''edge'' \<and> \<not> f_unsaved f \<and>
      GetName (f_config (OnLoadConfig tree_lib (\<lambda>_. True) files f)) = GetName LoadBalancerConfig_default \<and>
      GetName LoadBalancerConfig_default \<noteq> ''edge''"
  by (simp add: Let_def MainFrame_new_def MainFrame_widgets_def ApplyDefaultConfig_def LoadExistingConfig_def
      AppSettings_new_def Load_def LoadFile_def tree_lib_def load_root_def load_scalars_def load_sections_def
      load_service_list_def followed_by_def set_if_def value_or_def accessors OnLoadConfig_def
      MarkSaved_def SetStatusText_def LoadBalancerConfig_default_def)

section \<open>Properties\<close>

text \<open>
  C26: the selected rows are collected by a loop that ends, and removing them, highest index first,
  removes exactly those services, keeps the others in their order and shows them.
\<close>

theorem remove_selected_rows:
  assumes "next_item_ok next_item S" and "S \<subseteq> {..<length (m_nodes (f_config f))}" and "S \<noteq> {}"
  shows "\<exists>selected. collect_selected next_item (-1) = Some selected \<and>
    m_nodes (f_config (OnRemoveService selected f)) = nths (m_nodes (f_config f)) (- S) \<and>
    f_rows (OnRemoveService selected f) = map service_row (nths (m_nodes (f_config f)) (- S)) \<and>
    f_unsaved (OnRemoveService selected f)"
proof -
  have fin: "finite S" using assms(2) finite_subset by blast
  let ?selected = "sorted_list_of_set S"
  have "sorted_wrt (<) ?selected" "\<forall>i\<in>set ?selected. i < length (m_nodes (f_config f))" "?selected \<noteq> []"
    using fin assms(2,3) by auto
  with remove_selected_exact [OF this] collect_selected_sorted [OF assms(1) fin] fin show ?thesis
    by (simp add: handlers Let_def)
qed

theorem remove_selected_rows_witness:
  "let node = (\<lambda>n. ServiceNode_new n ''10.0.0.1'' 80 1);
       f = (MainFrame_widgets demo_geometry AppSettings_new)\<lparr>f_config :=
         LoadBalancerConfig_default\<lparr>m_nodes := map node [''a'', ''b'', ''c'']\<rparr>\<rparr>;
       next_item = (\<lambda>item. if item < 0 then 0 else if item < 2 then 2 else (-1))
   in \<exists>selected. collect_selected next_item (-1) = Some selected \<and>
        m_nodes (f_config (OnRemoveService selected f)) = [node ''b'']"
proof -
  let ?next = "\<lambda>item :: int. if item < 0 then 0 else if item < 2 then 2 else (-1 :: int)"
  let ?f = "(MainFrame_widgets demo_geometry AppSettings_new)\<lparr>f_config := LoadBalancerConfig_default\<lparr>m_nodes :=
         map (\<lambda>n. ServiceNode_new n ''10.0.0.1'' 80 1) [''a'', ''b'', ''c'']\<rparr>\<rparr>"
  have nodes: "m_nodes (f_config ?f) = map (\<lambda>n. ServiceNode_new n ''10.0.0.1'' 80 1) [''a'', ''b'', ''c'']" by simp
  have ok: "next_item_ok ?next {0, 2}" by (auto simp: next_item_ok_def)
  have sub: "{0, 2} \<subseteq> {..<length (m_nodes (f_config ?f))}" by (simp add: nodes)
  from remove_selected_rows [OF ok sub insert_not_empty] obtain selected where
    selected: "collect_selected ?next (-1) = Some selected" and
    kept: "m_nodes (f_config (OnRemoveService selected ?f)) = nths (m_nodes (f_config ?f)) (- {0, 2})"
    by blast
  have "nths (m_nodes (f_config ?f)) (- {0, 2}) = [ServiceNode_new ''b'' ''10.0.0.1'' 80 1]"
    by (simp add: nodes nths_Cons)
  with kept have "m_nodes (f_config (OnRemoveService selected ?f)) = [ServiceNode_new ''b'' ''10.0.0.1'' 80 1]"
    by (rule trans)
  with selected show ?thesis unfolding Let_def by (intro exI conjI)
qed

text \<open>
  C28: what holds whatever the user does. Every service is valid, with a weight, or was found by the
  editor when it opened, and only services that were found may share a name or an address and port: an
  editor that found none keeps them all valid and distinct. The window shows its configuration, except
  that after a start-up load that failed it shows an empty list until the configuration first changes
  or is loaded. And a window without the unsaved mark tells the truth: nothing has been changed since it opened, or its
  configuration is exactly what its file loads as. (Of the library it is presumed that it reads back
  what it emits, of the texts found that they are printable ASCII.)
\<close>

theorem editor_session_sound:
  assumes "reads_back lib" and "f0 = MainFrame_new lib (\<lambda>path. files0 path \<noteq> None) files0 geometry settings"
    and "printable_config (f_config f0)"
    and "\<forall>c. file_config lib settings files0 = (c, Inr ()) \<longrightarrow> printable_config c"
    and "reach (\<lambda>s. s = (f0, files0)) (window_step lib ulong) (f, files)"
  shows "services_from (set (m_nodes (f_config f0)) \<union> set (m_nodes (fst (file_config lib settings files0)))) (f_config f) \<and>
    (mirrors f \<or> start_load_failed lib files0 geometry settings \<and> f_config f = f_config f0 \<and> f_rows f = []) \<and>
    (\<not> f_unsaved f \<longrightarrow> f_config f = f_config f0 \<and> files = files0 \<or>
       file_config lib settings files = (f_config f, Inr ()))"
proof -
  have inv: "window_inv lib f0 files0 (f, files)" by (rule reachable_window_inv [OF assms])
  have s: "f_settings f0 = settings" by (simp add: assms(2) MainFrame_new_fields)
  have m: "\<not> mirrors f0 \<longrightarrow> start_load_failed lib files0 geometry settings"
    using start_load_ok_mirrors [OF assms(2)] by blast
  show ?thesis using inv m unfolding window_inv_def kept_def found_def unlisted_def s by auto
qed

theorem editor_session_sound_witness:
  "\<exists>f files. reach (\<lambda>s. s = (MainFrame_new tree_lib (\<lambda>_. False) Map.empty demo_geometry AppSettings_new, Map.empty))
      (window_step tree_lib (\<lambda>s. Some (of_decimal s))) (f, files) \<and>
     services_ok (f_config f) \<and> mirrors f \<and>
     \<not> f_unsaved f \<and> files \<noteq> Map.empty \<and> file_config tree_lib AppSettings_new files = (f_config f, Inr ())"
proof -
  let ?f0 = "MainFrame_new tree_lib (\<lambda>_. False) Map.empty demo_geometry AppSettings_new"
  let ?disk = "\<lparr>mkdirs_ok = (\<lambda>_. True), open_ok = (\<lambda>_. True), stored = (\<lambda>_ text. text)\<rparr> :: yaml_token list os"
  let ?step = "window_step tree_lib (\<lambda>s. Some (of_decimal s))"
  have f0: "f_settings ?f0 = AppSettings_new" "m_nodes (f_config ?f0) = []" "m_configFilePath AppSettings_new = ''bitbridge-config.yaml''"
    by (simp_all add: MainFrame_new_def LoadExistingConfig_def MainFrame_widgets_def ApplyDefaultConfig_def
        AppSettings_new_def LoadBalancerConfig_default_def accessors)
  have none: "m_nodes (fst (file_config tree_lib AppSettings_new Map.empty)) = []"
    by (simp add: file_config_def Load_def LoadFile_def LoadBalancerConfig_default_def)
  have good: "printable_config (f_config ?f0)"
    by (simp add: f0(2) printable_config_def)
       (simp add: MainFrame_new_def LoadExistingConfig_def MainFrame_widgets_def ApplyDefaultConfig_def
        AppSettings_new_def accessors printable_def)
  obtain f files where save: "OnSaveConfig tree_lib ?disk Map.empty ?f0 = Inr (f, files)"
    "\<not> f_unsaved f" "files ''bitbridge-config.yaml'' \<noteq> None"
    by (simp add: OnSaveConfig_def Save_def accessors f0 has_parent_path_def parent_path_def MarkSaved_def
        SetStatusText_def Let_def)
  have step: "?step (?f0, Map.empty) (Click SaveButton) (f, files)"
    by (rule step_click [of _ SaveHandler], simp) (rule run_save [OF _ save(1)], simp)
  have "reach (\<lambda>s. s = (?f0, Map.empty)) ?step (?f0, Map.empty)" by (rule reach_init) (rule refl)
  then have reached: "reach (\<lambda>s. s = (?f0, Map.empty)) ?step (f, files)" using step by (rule reach_step)
  have "services_from ({} \<union> {}) (f_config f) \<and>
    (mirrors f \<or> start_load_failed tree_lib Map.empty demo_geometry AppSettings_new \<and> f_config f = f_config ?f0 \<and> f_rows f = []) \<and>
    (\<not> f_unsaved f \<longrightarrow> f_config f = f_config ?f0 \<and> files = Map.empty \<or>
      file_config tree_lib AppSettings_new files = (f_config f, Inr ()))"
    using editor_session_sound [OF tree_lib_reads_back _ good _ reached, of demo_geometry AppSettings_new]
    unfolding f0(2) none by (simp add: file_config_def Load_def LoadFile_def)
  with save(2,3) reached show ?thesis by (auto simp: services_from_empty start_load_failed_def)
qed

end
