(* ===== verification/Editor_Layout.thy ===== *)
theory Editor_Layout
  imports Editor_Window
begin

text \<open>
  The first half of the constructor of \<open>MainFrame\<close>: the widgets it creates, the sizers that place them
  and the tab order it asks for. \<open>MoveAfterInTabOrder\<close> is wxWidgets' and is a parameter.
\<close>

section \<open>Widgets\<close>

text \<open>The children of the frame, in the order of their creation. The two overlaid labels are children of the list and of the status bar.\<close>

datatype widget = Control control | StaticLine | StaticText string | StatusBar

definition created :: "widget list" where
  "created =
     [Control ServiceList, StaticLine,
      StaticText ''Name:'', Control NameInput, StaticText ''IP:'', Control IpInput,
      StaticText ''Port:'', Control PortInput, StaticText ''Weight:'', Control WeightInput,
      Control AddButton, Control RemoveButton, Control SaveButton, Control LoadButton, StatusBar]"

definition list_columns :: "(string \<times> nat) list" where
  "list_columns = [(''Name'', 140), (''IP Address'', 160), (''Port'', 70), (''Weight'', 70)]"

fun button_label :: "control \<Rightarrow> string option" where
  "button_label AddButton = Some ''Add Service''"
| "button_label RemoveButton = Some ''Remove Selected''"
| "button_label SaveButton = Some ''Save Configuration''"
| "button_label LoadButton = Some ''Load Configuration''"
| "button_label _ = None"

definition status_fields :: "int list" where
  "status_fields = [- 1, 150]"

section \<open>Sizers\<close>

datatype side = LeftSide | RightSide | TopSide | BottomSide

text \<open>
  An item of a sizer: a widget or a row of items, its proportion, whether it expands, whether it is
  centred, the sides with a border, and the border.
\<close>

datatype placing = Placed widget nat bool bool "side list" nat | Row "placing list" nat bool bool "side list" nat

definition input_row :: "placing list" where
  "input_row =
     [Placed (StaticText ''Name:'') 0 False True [RightSide] 4, Placed (Control NameInput) 3 False True [RightSide] 8,
      Placed (StaticText ''IP:'') 0 False True [RightSide] 4, Placed (Control IpInput) 3 False True [RightSide] 8,
      Placed (StaticText ''Port:'') 0 False True [RightSide] 4, Placed (Control PortInput) 1 False True [RightSide] 8,
      Placed (StaticText ''Weight:'') 0 False True [RightSide] 4, Placed (Control WeightInput) 1 False True [] 0]"

definition button_row :: "placing list" where
  "button_row =
     [Placed (Control AddButton) 1 False False [RightSide] 4, Placed (Control RemoveButton) 1 False False [RightSide] 4,
      Placed (Control SaveButton) 1 False False [RightSide] 4, Placed (Control LoadButton) 1 False False [] 0]"

definition main_vertical :: "placing list" where
  "main_vertical =
     [Placed (Control ServiceList) 1 True False [LeftSide, RightSide, TopSide] 8,
      Placed StaticLine 0 True False [LeftSide, RightSide, TopSide] 8,
      Row input_row 0 True False [LeftSide, RightSide, TopSide] 8,
      Row button_row 0 True False [LeftSide, RightSide, TopSide, BottomSide] 8]"

fun placed :: "placing list \<Rightarrow> widget list" where
  "placed [] = []"
| "placed (Placed w _ _ _ _ _ # ps) = w # placed ps"
| "placed (Row qs _ _ _ _ _ # ps) = placed qs @ placed ps"

section \<open>The tab order\<close>

text \<open>\<open>move_after x y\<close> is \<open>x->MoveAfterInTabOrder(y)\<close> on the children of the frame.\<close>

definition tab_moves :: "(control \<times> control) list" where
  "tab_moves =
     [(NameInput, ServiceList), (IpInput, NameInput), (PortInput, IpInput), (WeightInput, PortInput),
      (AddButton, WeightInput), (RemoveButton, AddButton), (SaveButton, RemoveButton), (LoadButton, SaveButton)]"

definition set_tab_order :: "(widget \<Rightarrow> widget \<Rightarrow> widget list \<Rightarrow> widget list) \<Rightarrow> widget list \<Rightarrow> widget list" where
  "set_tab_order move_after ws = foldl (\<lambda>ws (x, y). move_after (Control x) (Control y) ws) ws tab_moves"

text \<open>Its documented effect: the window comes directly after the other, everything else stays in order.\<close>

definition moves_after :: "(widget \<Rightarrow> widget \<Rightarrow> widget list \<Rightarrow> widget list) \<Rightarrow> bool" where
  "moves_after move_after \<longleftrightarrow>
     (\<forall>x y ws as bs. distinct ws \<and> x \<in> set ws \<and> removeAll x ws = as @ y # bs \<longrightarrow>
        move_after x y ws = as @ y # x # bs)"

fun controls_of :: "widget list \<Rightarrow> control list" where
  "controls_of [] = []"
| "controls_of (Control c # ws) = c # controls_of ws"
| "controls_of (_ # ws) = controls_of ws"

section \<open>Lemmas\<close>

text \<open>Every child but the status bar is placed, and placed once.\<close>

lemma layout_places_all: "distinct created \<and> distinct (placed main_vertical) \<and> set created = insert StatusBar (set (placed main_vertical))"
  by (simp add: created_def main_vertical_def input_row_def button_row_def) blast

text \<open>Moving one window after the other, each behind the one before, gathers them in this order.\<close>

fun chain :: "widget \<Rightarrow> widget list \<Rightarrow> (widget \<times> widget) list" where
  "chain y [] = []"
| "chain y (x # xs) = (x, y) # chain x xs"

lemma chain_gathers:
  assumes "moves_after move_after" and "distinct (as @ y # bs)" and "set xs \<subseteq> set bs" and "distinct xs"
  shows "foldl (\<lambda>ws (x, y). move_after x y ws) (as @ y # bs) (chain y xs) = as @ y # xs @ filter (\<lambda>w. w \<notin> set xs) bs"
  using assms(2-)
proof (induction xs arbitrary: as y bs)
  case Nil
  then show ?case by simp
next
  case (Cons x xs)
  then have "removeAll x (as @ y # bs) = as @ y # removeAll x bs"
    by (auto simp: disjoint_iff intro!: removeAll_id)
  with assms(1) Cons.prems have "move_after x y (as @ y # bs) = as @ y # x # removeAll x bs"
    unfolding moves_after_def by auto
  moreover have "foldl (\<lambda>ws (x, y). move_after x y ws) ((as @ [y]) @ x # removeAll x bs) (chain x xs) =
      (as @ [y]) @ x # xs @ filter (\<lambda>w. w \<notin> set xs) (removeAll x bs)"
    by (rule Cons.IH) (use Cons.prems in \<open>auto simp: distinct_removeAll\<close>)
  ultimately show ?case by (simp add: removeAll_filter_not_eq) (metis (mono_tags, lifting) filter_cong)
qed

text \<open>
  The order the constructor asks for: the list, the fields and the buttons, whatever becomes of the
  other widgets.
\<close>

lemma constructor_tab_order:
  assumes "moves_after move_after"
  shows "controls_of (set_tab_order move_after created) =
    ServiceList # tabOrder @ [AddButton, RemoveButton, SaveButton, LoadButton]"
proof -
  let ?cs = "map Control (tabOrder @ [AddButton, RemoveButton, SaveButton, LoadButton])"
  have "chain (Control ServiceList) ?cs = map (\<lambda>(x, y). (Control x, Control y)) tab_moves"
    by (simp add: tab_moves_def tabOrder_def)
  moreover have "created = [] @ Control ServiceList # tl created" by (simp add: created_def)
  moreover have "set_tab_order move_after created =
      foldl (\<lambda>ws (x, y). move_after x y ws) created (map (\<lambda>(x, y). (Control x, Control y)) tab_moves)"
    by (simp add: set_tab_order_def tab_moves_def)
  ultimately have "set_tab_order move_after created = [] @ Control ServiceList # ?cs @ filter (\<lambda>w. w \<notin> set ?cs) (tl created)"
    using chain_gathers [OF assms, of "[]" "Control ServiceList" "tl created" ?cs]
    by (simp add: created_def tabOrder_def)
  then show ?thesis by (simp add: created_def tabOrder_def)
qed

text \<open>A list operation that does this.\<close>

definition insert_after :: "widget \<Rightarrow> widget \<Rightarrow> widget list \<Rightarrow> widget list" where
  "insert_after x y ws = (let ws = removeAll x ws in takeWhile (\<lambda>w. w \<noteq> y) ws @ y # x # drop 1 (dropWhile (\<lambda>w. w \<noteq> y) ws))"

lemma insert_after_moves: "moves_after insert_after"
proof -
  have "insert_after x y ws = as @ y # x # bs" if d: "distinct ws" and r: "removeAll x ws = as @ y # bs" for x y ws as bs
  proof -
    have "distinct (removeAll x ws)" using d by (rule distinct_removeAll)
    with r have "y \<notin> set as" by simp
    then have "takeWhile (\<lambda>w. w \<noteq> y) (as @ y # bs) = as" "dropWhile (\<lambda>w. w \<noteq> y) (as @ y # bs) = y # bs"
      by (induction as) auto
    then show ?thesis unfolding insert_after_def Let_def r by simp
  qed
  then show ?thesis unfolding moves_after_def by blast
qed

text \<open>
  The handler of the frame overrides this order: once a field has the focus (as \<open>NameInput\<close> has at the
  start), the tab key alone never leaves the four fields, so no button is reached with it.
\<close>

lemma tab_key_stays_in_fields:
  assumes "f_focus f \<in> Some ` set tabOrder" and "HandleTabNavigation Key_Tab shift f = Some f'"
  shows "f_focus f' \<in> Some ` set tabOrder"
proof -
  obtain c d where "f_focus f = Some c" "tab_search shift (Some c) 0 tabOrder = Some d" "f' = f\<lparr>f_focus := Some d\<rparr>"
    using assms by (auto simp: HandleTabNavigation_def split: option.splits)
  moreover have "c \<in> {NameInput, IpInput, PortInput, WeightInput}" using assms(1) calculation(1) by (auto simp: tabOrder_def)
  ultimately have "d \<in> {NameInput, IpInput, PortInput, WeightInput}" by (auto simp: tab_search_fields split: if_splits)
  with \<open>f' = _\<close> show ?thesis by (auto simp: tabOrder_def)
qed

lemma tab_key_never_skipped_in_fields:
  assumes "f_focus f \<in> Some ` set tabOrder"
  shows "HandleTabNavigation Key_Tab shift f \<noteq> None"
  using assms tab_search_None_iff [of shift "f_focus f"] by (auto simp: HandleTabNavigation_def split: option.splits)

end
