(* ===== verification/Bench_Args.thy ===== *)
theory Bench_Args
  imports Prelude
begin

text \<open>
  \<open>bench/main.cpp\<close>: the command line of the benchmark driver (\<open>BenchConfig\<close>, \<open>ParseArgs\<close>), with
  \<open>std::stoi\<close>, and the choice of the algorithms to run. \<open>Die\<close> prints a line on the standard error and
  ends the process with status 1; an exception that \<open>main\<close> does not catch ends it too, and a wait may never return; these are values of
  the result.
\<close>

section \<open>How the driver ends\<close>

text \<open>With a status and a last line on the standard error, or otherwise.\<close>

datatype bench_end =
    ExitStatus nat string
  | Uncaught cpp_exn
  | Undefined
  | Hangs

type_synonym 'a bench = "bench_end + 'a"

definition k_ansiRed :: string where
  "k_ansiRed = CHR 0x1B # ''[0;31m''"

definition k_ansiReset :: string where
  "k_ansiReset = CHR 0x1B # ''[0m''"

definition error_line :: "string \<Rightarrow> string" where
  "error_line msg = k_ansiRed @ ''[error]'' @ k_ansiReset @ '' '' @ msg @ newline"

definition Die :: "string \<Rightarrow> 'a bench" where
  "Die msg = Inl (ExitStatus 1 (error_line msg))"

definition may_throw :: "'a throws \<Rightarrow> 'a bench" where
  "may_throw m = (case m of Inl e \<Rightarrow> Inl (Uncaught e) | Inr v \<Rightarrow> Inr v)"

definition bench_bind :: "'a bench \<Rightarrow> ('a \<Rightarrow> 'b bench) \<Rightarrow> 'b bench" where
  "bench_bind m k = (case m of Inl e \<Rightarrow> Inl e | Inr v \<Rightarrow> k v)"

lemma bench_bind_simps [simp]: "bench_bind (Inl e) k = Inl e" "bench_bind (Inr v) k = k v"
  by (simp_all add: bench_bind_def)

lemma may_throw_simps [simp]: "may_throw (Inl e) = Inl (Uncaught e)" "may_throw (Inr v) = Inr v"
  by (simp_all add: may_throw_def)

section \<open>Numbers\<close>

text \<open>\<open>std::format("{}", n)\<close> of an \<open>int\<close>.\<close>

definition int_to_string :: "int \<Rightarrow> string" where
  "int_to_string n = (if n < 0 then CHR ''-'' # to_decimal (nat (- n)) else to_decimal (nat n))"

definition is_space :: "char \<Rightarrow> bool" where
  "is_space c \<longleftrightarrow> (of_char c :: nat) \<in> {9, 10, 11, 12, 13, 32}"

text \<open>
  \<open>std::stoi\<close>: white space, an optional sign, and the longest run of digits; it throws when there is
  no digit or the value does not fit an \<open>int\<close>, and ignores what follows.
\<close>

definition stoi_sign :: "string \<Rightarrow> int \<times> string" where
  "stoi_sign s = (case s of
     c # rest \<Rightarrow> if c = CHR ''-'' then (- 1, rest) else if c = CHR ''+'' then (1, rest) else (1, s)
   | [] \<Rightarrow> (1, s))"

definition stoi :: "string \<Rightarrow> int throws" where
  "stoi s =
     (let (sign, rest) = stoi_sign (dropWhile is_space s);
          digits = takeWhile is_digit rest;
          value = sign * int (of_decimal digits)
      in if digits = [] then Inl InvalidArgument
         else if value < - (2 ^ 31) \<or> 2 ^ 31 \<le> value then Inl OutOfRange
         else Inr value)"

section \<open>The command line\<close>

record BenchConfig =
  b_lbBinary :: string
  b_algo :: string
  b_concurrency :: int
  b_requests :: int
  b_services :: int
  b_thresholdPct :: int
  b_backendDelayMs :: int
  b_baseline :: bool
  b_compare :: bool
  b_baselineFile :: string

definition BenchConfig_default :: BenchConfig where
  "BenchConfig_default =
     \<lparr>b_lbBinary = [], b_algo = ''both'', b_concurrency = 50, b_requests = 1000, b_services = 5,
      b_thresholdPct = 15, b_backendDelayMs = 0, b_baseline = False, b_compare = False,
      b_baselineFile = ''bench/baselines/baseline.json''\<rparr>"

text \<open>The table of handlers: a flag, or an option that takes the next argument.\<close>

datatype arg_handler =
    Flag "BenchConfig \<Rightarrow> BenchConfig"
  | NextStr "string \<Rightarrow> BenchConfig \<Rightarrow> BenchConfig"
  | NextInt "int \<Rightarrow> BenchConfig \<Rightarrow> BenchConfig"

definition arg_handlers :: "string \<Rightarrow> arg_handler option" where
  "arg_handlers = map_of
     [(''--baseline'', Flag (\<lambda>cfg. cfg\<lparr>b_baseline := True\<rparr>)),
      (''--compare'', Flag (\<lambda>cfg. cfg\<lparr>b_compare := True\<rparr>)),
      (''--algo'', NextStr (\<lambda>s cfg. cfg\<lparr>b_algo := s\<rparr>)),
      (''--concurrency'', NextInt (\<lambda>n cfg. cfg\<lparr>b_concurrency := n\<rparr>)),
      (''--requests'', NextInt (\<lambda>n cfg. cfg\<lparr>b_requests := n\<rparr>)),
      (''--services'', NextInt (\<lambda>n cfg. cfg\<lparr>b_services := n\<rparr>)),
      (''--threshold-pct'', NextInt (\<lambda>n cfg. cfg\<lparr>b_thresholdPct := n\<rparr>)),
      (''--baseline-file'', NextStr (\<lambda>s cfg. cfg\<lparr>b_baselineFile := s\<rparr>)),
      (''--backend-delay-ms'', NextInt (\<lambda>n cfg. cfg\<lparr>b_backendDelayMs := n\<rparr>))]"

definition starts_with_dash :: "string \<Rightarrow> bool" where
  "starts_with_dash arg \<longleftrightarrow> (case arg of c # _ \<Rightarrow> c = CHR ''-'' | [] \<Rightarrow> False)"

fun parse_args :: "string list \<Rightarrow> BenchConfig \<Rightarrow> BenchConfig bench" where
  "parse_args [] cfg = Inr cfg"
| "parse_args (arg # args) cfg =
     (case arg_handlers arg of
        Some (Flag h) \<Rightarrow> parse_args args (h cfg)
      | Some (NextStr h) \<Rightarrow> (case args of [] \<Rightarrow> Die (arg @ '' requires an argument'') | s # args' \<Rightarrow> parse_args args' (h s cfg))
      | Some (NextInt h) \<Rightarrow>
          (case args of [] \<Rightarrow> Die (arg @ '' requires an argument'')
           | s # args' \<Rightarrow> bench_bind (may_throw (stoi s)) (\<lambda>n. parse_args args' (h n cfg)))
      | None \<Rightarrow>
          parse_args args
            (if \<not> starts_with_dash arg \<and> b_lbBinary cfg = [] then cfg\<lparr>b_lbBinary := arg\<rparr> else cfg))"

definition usage_text :: string where
  "usage_text =
     ''Usage: bit_bridge_bench [options] <lb-binary>'' @ newline @
     ''  --baseline            Save results as new baseline'' @ newline @
     ''  --compare             Compare against baseline, exit 1 on regression'' @ newline @
     ''  --algo                p2c|consistent-hash|both (default: both)'' @ newline @
     ''  --concurrency N       Parallel connections (default: 50)'' @ newline @
     ''  --requests N          Total requests per algo (default: 1000)'' @ newline @
     ''  --services N          Backend count (default: 5)'' @ newline @
     ''  --backend-delay-ms N  Simulated backend processing delay (default: 0)'' @ newline @
     ''  --threshold-pct N     Regression threshold % (default: 15)'' @ newline @
     ''  --baseline-file P     Baseline JSON path (default: bench/baselines/baseline.json)''"

text \<open>\<open>file_exists\<close> is the file system's answer; \<open>args\<close> are the arguments after the program's name.\<close>

definition ParseArgs :: "(string \<Rightarrow> bool) \<Rightarrow> string list \<Rightarrow> BenchConfig bench" where
  "ParseArgs file_exists args =
     bench_bind (parse_args args BenchConfig_default) (\<lambda>cfg.
       if b_lbBinary cfg = [] then Die usage_text
       else if \<not> file_exists (b_lbBinary cfg) then Die (''LB binary not found: '' @ b_lbBinary cfg)
       else Inr cfg)"

text \<open>The algorithms \<open>main\<close> runs.\<close>

definition bench_algos :: "BenchConfig \<Rightarrow> string list" where
  "bench_algos cfg =
     (if b_algo cfg = ''p2c'' then [''p2c'']
      else if b_algo cfg = ''consistent-hash'' then [''consistent-hash'']
      else [''p2c'', ''consistent-hash''])"

section \<open>Lemmas\<close>

lemma is_digit_not_sign [simp]: "\<not> is_digit (CHR ''-'')" "\<not> is_digit (CHR ''+'')"
  by code_simp+

lemma digit_not_space: "is_digit c \<Longrightarrow> \<not> is_space c"
  by (auto simp: is_digit_def is_space_def)

lemma to_decimal_Cons:
  obtains c s where "to_decimal n = c # s" and "is_digit c"
  using to_decimal_digits [of _ n] by (cases "to_decimal n") auto

lemma takeWhile_to_decimal: "takeWhile is_digit (to_decimal n @ s) = to_decimal n @ takeWhile is_digit s"
  using to_decimal_digits by (simp add: takeWhile_append2)

text \<open>Reading a printed number back, whatever follows it.\<close>

lemma stoi_int_to_string:
  assumes "- (2 ^ 31) \<le> n" and "n < 2 ^ 31" and "takeWhile is_digit s = []"
  shows "stoi (int_to_string n @ s) = Inr n"
proof -
  obtain c t where c: "to_decimal (nat \<bar>n\<bar>) = c # t" "is_digit c" by (rule to_decimal_Cons)
  then have sp: "\<not> is_space c" "c \<noteq> CHR ''-''" "c \<noteq> CHR ''+''" by (auto dest: digit_not_space)
  have dash: "\<not> is_space (CHR ''-'')" by code_simp
  have tw: "takeWhile is_digit (c # t @ s) = to_decimal (nat \<bar>n\<bar>)"
    using takeWhile_to_decimal [of "nat \<bar>n\<bar>" s] assms(3) c by simp
  have "stoi_sign (dropWhile is_space (int_to_string n @ s)) = (if n < 0 then - 1 else 1, c # t @ s)"
    using c sp dash by (cases "n < 0") (simp_all add: int_to_string_def stoi_sign_def)
  with tw assms(1,2) show ?thesis by (simp add: stoi_def)
qed

lemma stoi_printed: "- (2 ^ 31) \<le> n \<Longrightarrow> n < 2 ^ 31 \<Longrightarrow> stoi (int_to_string n) = Inr n"
  using stoi_int_to_string [of n "[]"] by simp

lemma stoi_range: "stoi s = Inr n \<Longrightarrow> - (2 ^ 31) \<le> n \<and> n < 2 ^ 31"
  by (auto simp: stoi_def Let_def split: prod.splits if_splits)

lemma arg_handlers_dash: "arg_handlers arg = Some h \<Longrightarrow> starts_with_dash arg"
  unfolding arg_handlers_def by (auto simp: starts_with_dash_def split: if_splits dest!: map_of_SomeD)

lemma arg_handlers_simps [simp]:
  "arg_handlers ''--baseline'' = Some (Flag (\<lambda>cfg. cfg\<lparr>b_baseline := True\<rparr>))"
  "arg_handlers ''--compare'' = Some (Flag (\<lambda>cfg. cfg\<lparr>b_compare := True\<rparr>))"
  "arg_handlers ''--algo'' = Some (NextStr (\<lambda>s cfg. cfg\<lparr>b_algo := s\<rparr>))"
  "arg_handlers ''--concurrency'' = Some (NextInt (\<lambda>n cfg. cfg\<lparr>b_concurrency := n\<rparr>))"
  "arg_handlers ''--requests'' = Some (NextInt (\<lambda>n cfg. cfg\<lparr>b_requests := n\<rparr>))"
  "arg_handlers ''--services'' = Some (NextInt (\<lambda>n cfg. cfg\<lparr>b_services := n\<rparr>))"
  "arg_handlers ''--threshold-pct'' = Some (NextInt (\<lambda>n cfg. cfg\<lparr>b_thresholdPct := n\<rparr>))"
  "arg_handlers ''--baseline-file'' = Some (NextStr (\<lambda>s cfg. cfg\<lparr>b_baselineFile := s\<rparr>))"
  "arg_handlers ''--backend-delay-ms'' = Some (NextInt (\<lambda>n cfg. cfg\<lparr>b_backendDelayMs := n\<rparr>))"
  by (simp_all add: arg_handlers_def)

text \<open>What every accepted command line guarantees about the configuration.\<close>

definition int_fits :: "int \<Rightarrow> bool" where
  "int_fits n \<longleftrightarrow> - (2 ^ 31) \<le> n \<and> n < 2 ^ 31"

definition ints_fit :: "BenchConfig \<Rightarrow> bool" where
  "ints_fit cfg \<longleftrightarrow>
     (\<forall>n\<in>set [b_concurrency cfg, b_requests cfg, b_services cfg, b_thresholdPct cfg, b_backendDelayMs cfg]. int_fits n)"

definition binary_from :: "string set \<Rightarrow> BenchConfig \<Rightarrow> bool" where
  "binary_from args cfg \<longleftrightarrow>
     b_lbBinary cfg = [] \<or> b_lbBinary cfg \<in> args \<and> \<not> starts_with_dash (b_lbBinary cfg)"

text \<open>A handler changes the one field its option names.\<close>

lemma handler_keeps:
  assumes "ints_fit cfg"
  shows "arg_handlers arg = Some (Flag f) \<Longrightarrow> ints_fit (f cfg) \<and> b_lbBinary (f cfg) = b_lbBinary cfg"
    and "arg_handlers arg = Some (NextStr g) \<Longrightarrow> ints_fit (g s cfg) \<and> b_lbBinary (g s cfg) = b_lbBinary cfg"
    and "arg_handlers arg = Some (NextInt h) \<Longrightarrow> int_fits n \<Longrightarrow>
      ints_fit (h n cfg) \<and> b_lbBinary (h n cfg) = b_lbBinary cfg"
  using assms by (auto simp: arg_handlers_def ints_fit_def split: if_splits)

lemma parse_args_wf:
  "parse_args args cfg = Inr cfg' \<Longrightarrow> ints_fit cfg \<Longrightarrow> binary_from A cfg \<Longrightarrow> set args \<subseteq> A \<Longrightarrow>
   ints_fit cfg' \<and> binary_from A cfg'"
proof (induction args cfg rule: parse_args.induct)
  case (1 cfg)
  then show ?case by simp
next
  case (2 arg args cfg)
  show ?case
  proof (cases "arg_handlers arg")
    case None
    let ?cfg = "if \<not> starts_with_dash arg \<and> b_lbBinary cfg = [] then cfg\<lparr>b_lbBinary := arg\<rparr> else cfg"
    have "ints_fit ?cfg" "binary_from A ?cfg"
      using 2(6-8) by (simp_all add: ints_fit_def binary_from_def)
    with 2(1) [OF None] 2(5,8) None show ?thesis by simp
  next
    case (Some h)
    note keeps = handler_keeps [OF 2(6)]
    show ?thesis
    proof (cases h)
      case (Flag f)
      with Some keeps(1) [of arg f] 2 show ?thesis by (simp add: binary_from_def)
    next
      case (NextStr g)
      then obtain s args' where args: "args = s # args'" using Some 2(5) by (cases args) (simp_all add: Die_def)
      with Some NextStr keeps(2) [of arg g s] 2 show ?thesis by (simp add: binary_from_def)
    next
      case (NextInt g)
      then obtain s args' where args: "args = s # args'" using Some 2(5) by (cases args) (simp_all add: Die_def)
      obtain n where n: "stoi s = Inr n" using Some NextInt args 2(5) by (cases "stoi s") simp_all
      then have "int_fits n" using stoi_range by (simp add: int_fits_def)
      with Some NextInt args n keeps(3) [of arg g n] 2 show ?thesis by (simp add: binary_from_def)
    qed
  qed
qed

section \<open>Properties\<close>

text \<open>
  C39: an accepted command line gives a well-formed configuration: every number fits an \<open>int\<close>, the
  binary is one of the arguments, is no option and names an existing file, and there is at least
  one algorithm to run, each of them one the balancer knows, without repetition.
\<close>

theorem ParseArgs_well_formed:
  assumes "ParseArgs file_exists args = Inr cfg"
  shows "ints_fit cfg \<and> b_lbBinary cfg \<in> set args \<and> \<not> starts_with_dash (b_lbBinary cfg) \<and>
    file_exists (b_lbBinary cfg) \<and> bench_algos cfg \<noteq> [] \<and> distinct (bench_algos cfg) \<and>
    set (bench_algos cfg) \<subseteq> {''p2c'', ''consistent-hash''}"
proof -
  obtain cfg' where p: "parse_args args BenchConfig_default = Inr cfg'"
    using assms by (cases "parse_args args BenchConfig_default") (simp_all add: ParseArgs_def)
  with assms have c: "cfg' = cfg" "b_lbBinary cfg \<noteq> []" "file_exists (b_lbBinary cfg)"
    by (simp_all add: ParseArgs_def Die_def split: if_splits)
  have "ints_fit BenchConfig_default" "binary_from (set args) BenchConfig_default"
    by (simp_all add: ints_fit_def int_fits_def binary_from_def BenchConfig_default_def)
  with parse_args_wf [OF p] c show ?thesis by (simp add: binary_from_def bench_algos_def)
qed

theorem ParseArgs_well_formed_witness:
  "ParseArgs (\<lambda>f. f = ''lb'') [''--requests'', '' -7x'', ''--algo'', ''p2c'', ''--typo'', ''lb'', ''other''] =
     Inr (BenchConfig_default\<lparr>b_requests := - 7, b_algo := ''p2c'', b_lbBinary := ''lb''\<rparr>) \<and>
   ints_fit (BenchConfig_default\<lparr>b_requests := - 7, b_algo := ''p2c'', b_lbBinary := ''lb''\<rparr>)"
proof -
  have "stoi '' -7x'' = Inr (- 7)" by code_simp
  then have "ParseArgs (\<lambda>f. f = ''lb'') [''--requests'', '' -7x'', ''--algo'', ''p2c'', ''--typo'', ''lb'', ''other''] =
      Inr (BenchConfig_default\<lparr>b_requests := - 7, b_algo := ''p2c'', b_lbBinary := ''lb''\<rparr>)"
    by (simp add: ParseArgs_def BenchConfig_default_def arg_handlers_def starts_with_dash_def)
  from this ParseArgs_well_formed [OF this] show ?thesis by simp
qed

text \<open>A configuration written as a command line.\<close>

definition print_args :: "BenchConfig \<Rightarrow> string list" where
  "print_args cfg =
     (if b_baseline cfg then [''--baseline''] else []) @ (if b_compare cfg then [''--compare''] else []) @
     [''--algo'', b_algo cfg, ''--concurrency'', int_to_string (b_concurrency cfg),
      ''--requests'', int_to_string (b_requests cfg), ''--services'', int_to_string (b_services cfg),
      ''--threshold-pct'', int_to_string (b_thresholdPct cfg), ''--baseline-file'', b_baselineFile cfg,
      ''--backend-delay-ms'', int_to_string (b_backendDelayMs cfg), b_lbBinary cfg]"

text \<open>
  Every configuration can be given on the command line, and is read back as it was written, as
  long as its numbers fit an \<open>int\<close> and its binary exists and does not look like an option.
\<close>

lemma ParseArgs_print_args:
  assumes "ints_fit cfg" and "b_lbBinary cfg \<noteq> []" and "\<not> starts_with_dash (b_lbBinary cfg)"
    and "file_exists (b_lbBinary cfg)"
  shows "ParseArgs file_exists (print_args cfg) = Inr cfg"
proof -
  have n: "stoi (int_to_string n) = Inr n" if "int_fits n" for n
    using stoi_printed that by (simp add: int_fits_def)
  have ints: "int_fits (b_concurrency cfg)" "int_fits (b_requests cfg)" "int_fits (b_services cfg)"
    "int_fits (b_thresholdPct cfg)" "int_fits (b_backendDelayMs cfg)" using assms(1) by (simp_all add: ints_fit_def)
  have bin: "arg_handlers (b_lbBinary cfg) = None" using arg_handlers_dash assms(3) by (metis not_Some_eq)
  have "parse_args (print_args cfg) BenchConfig_default = Inr cfg"
    using ints assms(3) bin by (simp add: print_args_def n BenchConfig_default_def)
  then show ?thesis using assms(2,4) by (simp add: ParseArgs_def)
qed

lemma ParseArgs_print_args_witness:
  "ParseArgs (\<lambda>f. f = ''build/lb'')
     (print_args (BenchConfig_default\<lparr>b_lbBinary := ''build/lb'', b_algo := ''--odd'', b_services := - 3, b_compare := True\<rparr>)) =
   Inr (BenchConfig_default\<lparr>b_lbBinary := ''build/lb'', b_algo := ''--odd'', b_services := - 3, b_compare := True\<rparr>)"
  by (rule ParseArgs_print_args)
     (simp_all add: ints_fit_def int_fits_def BenchConfig_default_def starts_with_dash_def)

end
