(* ===== verification/Bench_Load.thy ===== *)
theory Bench_Load
  imports Prelude
begin

text \<open>
  \<open>bench/main.cpp\<close>: the load generator of the benchmark driver (\<open>RunLoad\<close> and its handlers), the
  statistics it reports and its command line. The handlers run one at a time on one strand. The
  latencies are values of any linear order, because only their order is used here; the average and
  the throughput, computed in floating point, are not modelled. A connect timer only makes its
  pending connection fail, which the environment may do anyway.
\<close>

section \<open>The load generator\<close>

record 'm ConnResult =
  c_ok :: bool
  c_ms :: 'm
  c_bytes :: int

text \<open>What a connection is waiting for; a read carries the bytes received so far.\<close>

datatype load_op = LoadConnect | LoadWrite | LoadRead int

datatype load_outcome = OpDone nat | OpEof | OpReset | OpFailed

record 'm LoadContext =
  l_results :: "'m ConnResult list"
  l_inflight :: int
  l_peakInflight :: int
  l_launched :: int
  l_done :: int
  l_bytesReceived :: int
  l_total :: int
  l_concurrency :: int
  l_pending :: "load_op list"
  l_stopped :: bool

text \<open>The compare-and-swap loop on the peak, which no other thread disturbs.\<close>

definition update_peak :: "int \<Rightarrow> 'm LoadContext \<Rightarrow> 'm LoadContext" where
  "update_peak current ctx =
     (if current > l_peakInflight ctx then ctx\<lparr>l_peakInflight := current\<rparr> else ctx)"

text \<open>One round of the launching loop: the counters and the new connection.\<close>

definition launch_one :: "'m LoadContext \<Rightarrow> 'm LoadContext" where
  "launch_one ctx =
     (let current = l_inflight ctx + 1;
          ctx = ctx\<lparr>l_inflight := current, l_launched := l_launched ctx + 1\<rparr>;
          ctx = update_peak current ctx
      in ctx\<lparr>l_pending := l_pending ctx @ [LoadConnect]\<rparr>)"

lemma launch_one_simps [simp]:
  "l_inflight (launch_one ctx) = l_inflight ctx + 1"
  "l_launched (launch_one ctx) = l_launched ctx + 1"
  "l_peakInflight (launch_one ctx) = max (l_peakInflight ctx) (l_inflight ctx + 1)"
  "l_pending (launch_one ctx) = l_pending ctx @ [LoadConnect]"
  "l_results (launch_one ctx) = l_results ctx" "l_done (launch_one ctx) = l_done ctx"
  "l_bytesReceived (launch_one ctx) = l_bytesReceived ctx" "l_total (launch_one ctx) = l_total ctx"
  "l_concurrency (launch_one ctx) = l_concurrency ctx" "l_stopped (launch_one ctx) = l_stopped ctx"
  by (simp_all add: launch_one_def update_peak_def Let_def)

function launch_loop :: "'m LoadContext \<Rightarrow> 'm LoadContext" where
  "launch_loop ctx =
     (if l_inflight ctx < l_concurrency ctx \<and> l_launched ctx < l_total ctx
      then launch_loop (launch_one ctx) else ctx)"
  by pat_completeness auto
termination by (relation "measure (\<lambda>ctx. nat (l_total ctx - l_launched ctx))") auto

declare launch_loop.simps [simp del]

definition LaunchWave :: "'m LoadContext \<Rightarrow> 'm LoadContext" where
  "LaunchWave ctx = (if l_launched ctx \<ge> l_total ctx then ctx else launch_loop ctx)"

text \<open>
  The end of a connection, the same in \<open>OnConnect\<close>, \<open>OnWriteDone\<close> and \<open>OnReadSome\<close>: record the
  result, count, launch more, and stop the loop after the last one.
\<close>

definition finish_connection :: "bool \<Rightarrow> 'm \<Rightarrow> int \<Rightarrow> 'm LoadContext \<Rightarrow> 'm LoadContext" where
  "finish_connection ok ms bytes ctx =
     (let ctx = ctx\<lparr>l_results := l_results ctx @ [\<lparr>c_ok = ok, c_ms = ms, c_bytes = bytes\<rparr>]\<rparr>;
          ctx = (if ok then ctx\<lparr>l_bytesReceived := l_bytesReceived ctx + bytes\<rparr> else ctx);
          ctx = ctx\<lparr>l_inflight := l_inflight ctx - 1\<rparr>;
          ctx = ctx\<lparr>l_done := l_done ctx + 1\<rparr>;
          ctx = LaunchWave ctx
      in if l_done ctx \<ge> l_total ctx then ctx\<lparr>l_stopped := True\<rparr> else ctx)"

definition load_initiate :: "load_op \<Rightarrow> 'm LoadContext \<Rightarrow> 'm LoadContext" where
  "load_initiate h ctx = ctx\<lparr>l_pending := l_pending ctx @ [h]\<rparr>"

definition OnConnect :: "'m \<Rightarrow> load_outcome \<Rightarrow> 'm LoadContext \<Rightarrow> 'm LoadContext" where
  "OnConnect ms ec ctx =
     (case ec of OpDone _ \<Rightarrow> load_initiate LoadWrite ctx | _ \<Rightarrow> finish_connection False ms 0 ctx)"

definition ReadResponse :: "int \<Rightarrow> 'm LoadContext \<Rightarrow> 'm LoadContext" where
  "ReadResponse bytesRead ctx = load_initiate (LoadRead bytesRead) ctx"

definition OnWriteDone :: "'m \<Rightarrow> load_outcome \<Rightarrow> 'm LoadContext \<Rightarrow> 'm LoadContext" where
  "OnWriteDone ms writeEc ctx =
     (case writeEc of OpDone _ \<Rightarrow> ReadResponse 0 ctx | _ \<Rightarrow> finish_connection False ms 0 ctx)"

definition OnReadSome :: "'m \<Rightarrow> int \<Rightarrow> load_outcome \<Rightarrow> 'm LoadContext \<Rightarrow> 'm LoadContext" where
  "OnReadSome ms bytesRead ec ctx =
     (case ec of
        OpDone n \<Rightarrow> ReadResponse (bytesRead + int n) ctx
      | OpEof \<Rightarrow> finish_connection True ms bytesRead ctx
      | OpReset \<Rightarrow> finish_connection True ms bytesRead ctx
      | OpFailed \<Rightarrow> finish_connection False ms bytesRead ctx)"

definition load_complete :: "load_op \<Rightarrow> load_outcome \<Rightarrow> 'm \<Rightarrow> 'm LoadContext \<Rightarrow> 'm LoadContext" where
  "load_complete h ec ms ctx =
     (let ctx = ctx\<lparr>l_pending := remove1 h (l_pending ctx)\<rparr> in
      case h of
        LoadConnect \<Rightarrow> OnConnect ms ec ctx
      | LoadWrite \<Rightarrow> OnWriteDone ms ec ctx
      | LoadRead b \<Rightarrow> OnReadSome ms b ec ctx)"

text \<open>
  \<open>RunLoad\<close>: reserving room for a negative number of results throws; otherwise the counters start
  at 0 and the first wave is posted to the loop. \<open>LoadResult\<close> is what it returns when the loop ends.
\<close>

definition LoadContext_start :: "int \<Rightarrow> int \<Rightarrow> 'm LoadContext" where
  "LoadContext_start requests concurrency =
     \<lparr>l_results = [], l_inflight = 0, l_peakInflight = 0, l_launched = 0, l_done = 0, l_bytesReceived = 0,
      l_total = requests, l_concurrency = concurrency, l_pending = [], l_stopped = False\<rparr>"

definition RunLoad :: "int \<Rightarrow> int \<Rightarrow> 'm LoadContext throws" where
  "RunLoad requests concurrency =
     (if requests < 0 then Inl LengthError else Inr (LaunchWave (LoadContext_start requests concurrency)))"

record 'm LoadResult =
  lr_conns :: "'m ConnResult list"
  lr_peakConnections :: int
  lr_bytesReceived :: int

definition RunLoad_result :: "'m LoadContext \<Rightarrow> 'm LoadResult" where
  "RunLoad_result ctx =
     \<lparr>lr_conns = l_results ctx, lr_peakConnections = l_peakInflight ctx, lr_bytesReceived = l_bytesReceived ctx\<rparr>"

text \<open>The loop runs until \<open>stop\<close>; a work guard keeps it from returning otherwise.\<close>

inductive loadgen_step ::
    "'m LoadContext \<Rightarrow> load_op \<times> load_outcome \<times> 'm \<Rightarrow> 'm LoadContext \<Rightarrow> bool" where
  loadgen_stepI: "\<not> l_stopped ctx \<Longrightarrow> h \<in> set (l_pending ctx) \<Longrightarrow>
     loadgen_step ctx (h, ec, ms) (load_complete h ec ms ctx)"

inductive_cases loadgen_stepE [elim!]: "loadgen_step ctx e ctx'"

definition load_init :: "int \<Rightarrow> int \<Rightarrow> 'm LoadContext \<Rightarrow> bool" where
  "load_init requests concurrency ctx \<longleftrightarrow> RunLoad requests concurrency = Inr ctx"

text \<open>A run given as its list of completions; \<open>None\<close> when one of them cannot happen.\<close>

fun load_execute :: "'m LoadContext \<Rightarrow> (load_op \<times> load_outcome \<times> 'm) list \<Rightarrow> 'm LoadContext option" where
  "load_execute ctx [] = Some ctx"
| "load_execute ctx ((h, ec, ms) # es) =
     (if \<not> l_stopped ctx \<and> h \<in> set (l_pending ctx) then load_execute (load_complete h ec ms ctx) es else None)"

definition received_data :: "load_op \<times> load_outcome \<times> 'm \<Rightarrow> bool" where
  "received_data e \<longleftrightarrow> (case e of (LoadRead _, OpDone _, _) \<Rightarrow> True | _ \<Rightarrow> False)"

lemmas load_handlers [handlers] =
  load_initiate_def OnConnect_def ReadResponse_def OnWriteDone_def OnReadSome_def load_complete_def

section \<open>Lemmas\<close>

text \<open>How many connections the loop launches, and what it changes.\<close>

definition wave_size :: "'m LoadContext \<Rightarrow> int" where
  "wave_size ctx = max 0 (min (l_concurrency ctx - l_inflight ctx) (l_total ctx - l_launched ctx))"

lemma launch_loop_fields:
  "l_inflight (launch_loop ctx) = l_inflight ctx + wave_size ctx \<and>
   l_launched (launch_loop ctx) = l_launched ctx + wave_size ctx \<and>
   l_peakInflight (launch_loop ctx) =
     (if 0 < wave_size ctx then max (l_peakInflight ctx) (l_inflight ctx + wave_size ctx) else l_peakInflight ctx) \<and>
   int (length (l_pending (launch_loop ctx))) = int (length (l_pending ctx)) + wave_size ctx \<and>
   l_results (launch_loop ctx) = l_results ctx \<and> l_done (launch_loop ctx) = l_done ctx \<and>
   l_bytesReceived (launch_loop ctx) = l_bytesReceived ctx \<and> l_total (launch_loop ctx) = l_total ctx \<and>
   l_concurrency (launch_loop ctx) = l_concurrency ctx \<and> l_stopped (launch_loop ctx) = l_stopped ctx"
proof (induction ctx rule: launch_loop.induct)
  case (1 ctx)
  show ?case
  proof (cases "l_inflight ctx < l_concurrency ctx \<and> l_launched ctx < l_total ctx")
    case True
    then have w: "wave_size ctx = wave_size (launch_one ctx) + 1" and n: "0 \<le> wave_size (launch_one ctx)"
      by (auto simp: wave_size_def)
    have "launch_loop ctx = launch_loop (launch_one ctx)"
      using True by (simp add: launch_loop.simps [of ctx])
    with "1.IH" [OF True] w n show ?thesis by (cases "wave_size (launch_one ctx) = 0") auto
  next
    case False
    then have "wave_size ctx = 0" "launch_loop ctx = ctx"
      by (auto simp: wave_size_def launch_loop.simps [of ctx])
    then show ?thesis by simp
  qed
qed

lemma LaunchWave_eq: "LaunchWave ctx = launch_loop ctx"
  by (simp add: LaunchWave_def launch_loop.simps [of ctx])

text \<open>The counters of the loop, and that a wave leaves nothing to launch.\<close>

definition load_inv :: "int \<Rightarrow> int \<Rightarrow> 'm LoadContext \<Rightarrow> bool" where
  "load_inv requests concurrency ctx \<longleftrightarrow>
     l_total ctx = requests \<and> l_concurrency ctx = concurrency \<and>
     l_inflight ctx = int (length (l_pending ctx)) \<and>
     l_launched ctx = l_done ctx + l_inflight ctx \<and> l_launched ctx \<le> max 0 requests \<and>
     l_done ctx = int (length (l_results ctx)) \<and>
     l_bytesReceived ctx = sum_list (map c_bytes (filter c_ok (l_results ctx))) \<and>
     l_inflight ctx \<le> l_peakInflight ctx \<and> l_inflight ctx \<le> max 0 concurrency \<and>
     l_peakInflight ctx = max 0 (min requests concurrency) \<and>
     (concurrency \<le> l_inflight ctx \<or> requests \<le> l_launched ctx) \<and>
     (0 < l_launched ctx \<longrightarrow> 0 < concurrency) \<and>
     (l_stopped ctx \<longleftrightarrow> 0 < l_done ctx \<and> requests \<le> l_done ctx)"

lemma load_invD:
  assumes "load_inv requests concurrency ctx"
  shows "l_total ctx = requests" "l_concurrency ctx = concurrency" "l_inflight ctx = int (length (l_pending ctx))"
    "l_launched ctx = l_done ctx + l_inflight ctx" "l_launched ctx \<le> max 0 requests"
    "l_done ctx = int (length (l_results ctx))"
    "l_bytesReceived ctx = sum_list (map c_bytes (filter c_ok (l_results ctx)))"
    "l_inflight ctx \<le> l_peakInflight ctx" "l_inflight ctx \<le> max 0 concurrency"
    "l_peakInflight ctx = max 0 (min requests concurrency)"
    "concurrency \<le> l_inflight ctx \<or> requests \<le> l_launched ctx"
    "l_stopped ctx \<longleftrightarrow> 0 < l_done ctx \<and> requests \<le> l_done ctx"
    "0 < l_launched ctx \<Longrightarrow> 0 < concurrency"
  using assms unfolding load_inv_def by blast+

lemma LoadContext_start_fields [simp]:
  "l_results (LoadContext_start r c) = []" "l_inflight (LoadContext_start r c) = 0"
  "l_peakInflight (LoadContext_start r c) = 0" "l_launched (LoadContext_start r c) = 0"
  "l_done (LoadContext_start r c) = 0" "l_bytesReceived (LoadContext_start r c) = 0"
  "l_total (LoadContext_start r c) = r" "l_concurrency (LoadContext_start r c) = c"
  "l_pending (LoadContext_start r c) = []" "l_stopped (LoadContext_start r c) = False"
  by (simp_all add: LoadContext_start_def)

lemma LaunchWave_start_inv:
  "load_inv requests concurrency (LaunchWave (LoadContext_start requests concurrency))"
proof -
  let ?c = "LoadContext_start requests concurrency :: 'a LoadContext"
  obtain w where w: "w = max 0 (min concurrency requests)" by blast
  have "wave_size ?c = w" by (simp add: wave_size_def w)
  from launch_loop_fields [of ?c, unfolded this LoadContext_start_fields]
  have "l_inflight (LaunchWave ?c) = w" "l_launched (LaunchWave ?c) = w"
    "l_peakInflight (LaunchWave ?c) = (if 0 < w then max 0 (0 + w) else 0)"
    "int (length (l_pending (LaunchWave ?c))) = int (length ([] :: load_op list)) + w"
    "l_results (LaunchWave ?c) = []" "l_done (LaunchWave ?c) = 0" "l_bytesReceived (LaunchWave ?c) = 0"
    "l_total (LaunchWave ?c) = requests" "l_concurrency (LaunchWave ?c) = concurrency"
    "l_stopped (LaunchWave ?c) = False"
    unfolding LaunchWave_eq by simp_all
  note facts = this
  have "w \<le> max 0 requests" "w \<le> max 0 concurrency" "concurrency \<le> w \<or> requests \<le> w"
    "0 < w \<longrightarrow> 0 < concurrency"
    unfolding w by linarith+
  moreover have "(if 0 < w then max 0 (0 + w) else 0) = w" "0 \<le> w"
    by (simp_all add: w)
  moreover have "max 0 (min requests concurrency) = w" by (simp add: w min.commute)
  ultimately show ?thesis unfolding load_inv_def facts by simp
qed

lemma load_init_inv: "load_init requests concurrency ctx \<Longrightarrow> load_inv requests concurrency ctx"
  by (auto simp: load_init_def RunLoad_def LaunchWave_start_inv split: if_splits)

text \<open>After one connection has ended, the wave launches its replacement, or there is none left.\<close>

lemma wave_after_one:
  fixes t c i l d p w p' :: int
  assumes "l = d + i" and "l \<le> max 0 t" and "i \<le> max 0 c" and "p = max 0 (min t c)"
    and "c \<le> i \<or> t \<le> l" and "1 \<le> i" and "0 \<le> d"
    and w: "w = max 0 (min (c - (i - 1)) (t - l))" and p': "p' = (if 0 < w then max p (i - 1 + w) else p)"
  shows "0 \<le> w \<and> i - 1 + w \<le> i \<and> l + w \<le> max 0 t \<and> p' = p \<and> i - 1 + w \<le> p' \<and>
    (c \<le> i - 1 + w \<or> t \<le> l + w)"
proof -
  have t: "1 \<le> t" "l \<le> t" using assms(1,2,6,7) by auto
  have c: "1 \<le> c" "i \<le> c" using assms(3,6) by auto
  have p: "p = min t c" using assms(4) t c by auto
  show ?thesis
  proof (cases "l < t")
    case True
    then have "i = c" using assms(5) c by auto
    with True w have "w = 1" by auto
    with \<open>i = c\<close> True p p' t assms(1,7) show ?thesis by auto
  next
    case False
    with t have "l = t" by auto
    with w have "w = 0" by auto
    with \<open>l = t\<close> p p' c assms(1,7) show ?thesis by auto
  qed
qed

lemma finish_connection_inv:
  assumes inv: "load_inv requests concurrency ctx" and "\<not> l_stopped ctx" and h: "h \<in> set (l_pending ctx)"
  shows "load_inv requests concurrency
    (finish_connection ok ms bytes (ctx\<lparr>l_pending := remove1 h (l_pending ctx)\<rparr>))"
proof -
  have pos: "0 < length (l_pending ctx)" using length_pos_if_in_set [OF h] .
  have len: "int (length (remove1 h (l_pending ctx))) = int (length (l_pending ctx)) - 1"
    using h pos by (simp add: length_remove1 of_nat_diff Suc_leI)
  let ?r = "\<lparr>c_ok = ok, c_ms = ms, c_bytes = bytes\<rparr>"
  let ?c = "ctx\<lparr>l_pending := remove1 h (l_pending ctx), l_results := l_results ctx @ [?r],
      l_bytesReceived := l_bytesReceived ctx + (if ok then bytes else 0),
      l_inflight := l_inflight ctx - 1, l_done := l_done ctx + 1\<rparr>"
  obtain f where fin_wave: "launch_loop ?c = f" by blast
  have fin: "finish_connection ok ms bytes (ctx\<lparr>l_pending := remove1 h (l_pending ctx)\<rparr>) =
      (if l_done f \<ge> l_total f then f\<lparr>l_stopped := True\<rparr> else f)"
    by (cases ok) (simp_all add: finish_connection_def LaunchWave_eq Let_def flip: fin_wave)
  have "1 \<le> int (length (l_pending ctx))" using pos by linarith
  then have i: "1 \<le> l_inflight ctx" "0 \<le> l_done ctx" using load_invD(3,6) [OF inv] by simp_all
  have w: "wave_size ?c = max 0 (min (concurrency - (l_inflight ctx - 1)) (requests - l_launched ctx))"
    using load_invD(1,2) [OF inv] by (simp add: wave_size_def)
  obtain w where W: "wave_size ?c = w" by blast
  let ?p = "if 0 < w then max (l_peakInflight ctx) (l_inflight ctx - 1 + w) else l_peakInflight ctx"
  from wave_after_one [OF load_invD(4,5,9,10,11) [OF inv] i w refl, unfolded W]
  have wave: "0 \<le> w" "l_inflight ctx - 1 + w \<le> l_inflight ctx" "l_launched ctx + w \<le> max 0 requests"
    "?p = l_peakInflight ctx" "l_inflight ctx - 1 + w \<le> ?p"
    "concurrency \<le> l_inflight ctx - 1 + w \<or> requests \<le> l_launched ctx + w" by blast+
  have f: "l_inflight f = l_inflight ctx - 1 + w" "l_launched f = l_launched ctx + w" "l_peakInflight f = ?p"
    "int (length (l_pending f)) = int (length (l_pending ctx)) - 1 + w"
    "l_results f = l_results ctx @ [?r]" "l_done f = l_done ctx + 1"
    "l_bytesReceived f = l_bytesReceived ctx + (if ok then bytes else 0)" "l_total f = l_total ctx"
    "l_concurrency f = l_concurrency ctx" "l_stopped f = l_stopped ctx"
    using launch_loop_fields [of ?c, unfolded W fin_wave] len by simp_all
  have fields: "l_inflight f = int (length (l_pending f))" "l_launched f = l_done f + l_inflight f"
    "l_done f = int (length (l_results f))"
    "l_bytesReceived f = sum_list (map c_bytes (filter c_ok (l_results f)))"
    "l_peakInflight f = l_peakInflight ctx"
    using load_invD(3,4,6,7) [OF inv] wave(4) by (simp_all only: f) simp_all
  have "0 < concurrency" using i(1) load_invD(9) [OF inv] by simp
  then have "load_inv requests concurrency (f\<lparr>l_stopped := (requests \<le> l_done ctx + 1)\<rparr>)"
    unfolding load_inv_def using fields load_invD(1,2,9,10) [OF inv] wave i f(1,2,6,8,9) f(5) by simp
  moreover have "(if l_done f \<ge> l_total f then f\<lparr>l_stopped := True\<rparr> else f) =
      f\<lparr>l_stopped := (requests \<le> l_done ctx + 1)\<rparr>"
    using f(6,8,10) assms(2) load_invD(1) [OF inv] by simp
  ultimately show ?thesis unfolding fin by simp
qed

lemma load_initiate_inv:
  assumes "load_inv requests concurrency ctx" and "h \<in> set (l_pending ctx)"
  shows "load_inv requests concurrency (load_initiate h' (ctx\<lparr>l_pending := remove1 h (l_pending ctx)\<rparr>))"
proof -
  let ?c = "load_initiate h' (ctx\<lparr>l_pending := remove1 h (l_pending ctx)\<rparr>)"
  have "length (l_pending ?c) = length (l_pending ctx)"
    using assms(2) length_pos_if_in_set [OF assms(2)] by (simp add: load_initiate_def length_remove1)
  moreover have "l_results ?c = l_results ctx" "l_inflight ?c = l_inflight ctx" "l_done ?c = l_done ctx"
    "l_peakInflight ?c = l_peakInflight ctx" "l_launched ?c = l_launched ctx" "l_total ?c = l_total ctx"
    "l_bytesReceived ?c = l_bytesReceived ctx" "l_concurrency ?c = l_concurrency ctx"
    "l_stopped ?c = l_stopped ctx" by (simp_all add: load_initiate_def)
  ultimately show ?thesis using assms(1) unfolding load_inv_def by metis
qed

lemma loadgen_step_inv:
  assumes "load_inv requests concurrency ctx" and "loadgen_step ctx e ctx'"
  shows "load_inv requests concurrency ctx'"
proof -
  obtain h ec ms where e: "e = (h, ec, ms)" by (cases e)
  with assms(2) have h: "\<not> l_stopped ctx" "h \<in> set (l_pending ctx)" and c: "ctx' = load_complete h ec ms ctx"
    by auto
  note fin = finish_connection_inv [OF assms(1) h] and more = load_initiate_inv [OF assms(1) h(2)]
  show ?thesis
    unfolding c using fin more
    by (cases h; cases ec)
       (simp_all add: load_complete_def OnConnect_def OnWriteDone_def OnReadSome_def ReadResponse_def)
qed

interpretation load: inductive_invariant "load_init requests concurrency" loadgen_step "load_inv requests concurrency"
  for requests concurrency
  by unfold_locales (rule load_init_inv, assumption, rule loadgen_step_inv)

lemma load_execute_reach:
  "load_execute ctx es = Some ctx' \<Longrightarrow> reach (load_init r c) loadgen_step ctx \<Longrightarrow>
   reach (load_init r c) loadgen_step ctx'"
proof (induction ctx es rule: load_execute.induct)
  case (1 ctx)
  then show ?case by simp
next
  case (2 ctx h ec ms es)
  then have h: "\<not> l_stopped ctx" "h \<in> set (l_pending ctx)" by (auto split: if_splits)
  have "reach (load_init r c) loadgen_step (load_complete h ec ms ctx)"
    using 2(3) loadgen_stepI [OF h] by (rule reach_step)
  with 2 h show ?case by simp
qed

text \<open>
  \<open>ioc.run()\<close> given the completions the system delivers: those that concern no outstanding operation
  have no handler. It returns as soon as a handler has called \<open>stop\<close>; \<open>None\<close> when the completions come to
  their end before, because the loop, kept by its work guard, then waits for ever. (Completions without end that
  never stop the loop, which are not a list, do not let it return either.)
\<close>

fun ioc_run :: "'m LoadContext \<Rightarrow> (load_op \<times> load_outcome \<times> 'm) list \<Rightarrow> 'm LoadContext option" where
  "ioc_run ctx [] = (if l_stopped ctx then Some ctx else None)"
| "ioc_run ctx ((h, ec, ms) # es) =
     (if l_stopped ctx then Some ctx
      else if h \<in> set (l_pending ctx) then ioc_run (load_complete h ec ms ctx) es
      else ioc_run ctx es)"

lemma ioc_run_reach:
  "ioc_run ctx es = Some ctx' \<Longrightarrow> reach (load_init r c) loadgen_step ctx \<Longrightarrow>
   reach (load_init r c) loadgen_step ctx' \<and> l_stopped ctx'"
proof (induction ctx es rule: ioc_run.induct)
  case (1 ctx)
  then show ?case by (simp split: if_splits)
next
  case (2 ctx h ec ms es)
  then show ?case
    using reach_step [OF 2(4) loadgen_stepI [of ctx h ec ms]] by (auto split: if_splits)
qed

lemma ioc_run_execute: "load_execute ctx es = Some ctx' \<Longrightarrow> l_stopped ctx' \<Longrightarrow> ioc_run ctx es = Some ctx'"
  by (induction ctx es rule: load_execute.induct) (auto split: if_splits)

lemma ioc_run_idle: "\<not> l_stopped ctx \<Longrightarrow> l_pending ctx = [] \<Longrightarrow> ioc_run ctx es = None"
  by (induction es) auto

text \<open>
  The steps a run can still make, not counting data that arrives: three for a connection not yet
  launched or connecting, two for one writing, one for one reading.
\<close>

fun load_op_weight :: "load_op \<Rightarrow> int" where
  "load_op_weight LoadConnect = 3"
| "load_op_weight LoadWrite = 2"
| "load_op_weight (LoadRead _) = 1"

definition remaining :: "'m LoadContext \<Rightarrow> int" where
  "remaining ctx = 3 * (l_total ctx - l_launched ctx) + sum_list (map load_op_weight (l_pending ctx))"

lemma remaining_launch_loop [simp]: "remaining (launch_loop ctx) = remaining ctx"
proof (induction ctx rule: launch_loop.induct)
  case (1 ctx)
  have "remaining (launch_one ctx) = remaining ctx" by (simp add: remaining_def)
  with 1 show ?case by (simp add: launch_loop.simps [of ctx])
qed

lemma remaining_stop [simp]: "remaining (ctx\<lparr>l_stopped := b\<rparr>) = remaining ctx"
  by (simp add: remaining_def)

lemma remaining_finish [simp]: "remaining (finish_connection ok ms bytes ctx) = remaining ctx"
proof -
  have "remaining (ctx\<lparr>l_results := x, l_bytesReceived := b, l_inflight := i, l_done := d\<rparr>) = remaining ctx"
    "remaining (ctx\<lparr>l_results := x, l_inflight := i, l_done := d\<rparr>) = remaining ctx" for x b i d
    by (simp_all add: remaining_def)
  then show ?thesis by (simp add: finish_connection_def LaunchWave_eq Let_def)
qed

lemma remaining_initiate [simp]: "remaining (load_initiate h ctx) = remaining ctx + load_op_weight h"
  by (simp add: remaining_def load_initiate_def)

lemma remaining_remove:
  "h \<in> set (l_pending ctx) \<Longrightarrow>
   remaining (ctx\<lparr>l_pending := remove1 h (l_pending ctx)\<rparr>) = remaining ctx - load_op_weight h"
  using sum_list_map_remove1 [of h "l_pending ctx" load_op_weight] by (simp add: remaining_def)

lemma remaining_step:
  assumes "h \<in> set (l_pending ctx)"
  shows "remaining (load_complete h ec ms ctx) + 1 \<le> remaining ctx + (if received_data (h, ec, ms) then 1 else 0)"
  using remaining_remove [OF assms]
  by (cases h; cases ec)
     (simp_all add: load_complete_def OnConnect_def OnWriteDone_def OnReadSome_def ReadResponse_def received_data_def)

lemma op_weight_nonneg: "0 \<le> sum_list (map load_op_weight hs)"
proof (induction hs)
  case (Cons h hs)
  then show ?case by (cases h) simp_all
qed simp

lemma remaining_run:
  "load_execute ctx es = Some ctx' \<Longrightarrow>
   remaining ctx' + int (length es) \<le> remaining ctx + int (length (filter received_data es))"
proof (induction ctx es rule: load_execute.induct)
  case (1 ctx)
  then show ?case by simp
next
  case (2 ctx h ec ms es)
  then have h: "\<not> l_stopped ctx \<and> h \<in> set (l_pending ctx)" by (auto split: if_splits)
  with 2 have "remaining ctx' + int (length es) \<le>
      remaining (load_complete h ec ms ctx) + int (length (filter received_data es))" by simp
  with remaining_step [of h ctx ec ms] h show ?case by (cases "received_data (h, ec, ms)") simp_all
qed

lemma load_init_remaining: "load_init r c ctx \<Longrightarrow> 0 \<le> r \<and> remaining ctx = 3 * r"
  by (auto simp: load_init_def RunLoad_def LaunchWave_eq split: if_splits)
     (simp add: remaining_def)

text \<open>A run between two tests of the loop is never stuck unless there is nothing to launch at all.\<close>

lemma load_progress:
  assumes "load_inv r c ctx"
  shows "l_stopped ctx \<or> l_pending ctx \<noteq> [] \<longleftrightarrow> 0 < r \<and> 0 < c"
proof -
  note i = load_invD [OF assms]
  have n: "l_inflight ctx = 0 \<longleftrightarrow> l_pending ctx = []" using i(3) by simp
  show ?thesis
  proof (cases "0 < r \<and> 0 < c")
    case True
    then show ?thesis using i n by (cases "l_pending ctx = []") auto
  next
    case False
    then have "l_peakInflight ctx = 0" using i(10) by auto
    with i(3,8) have z: "l_inflight ctx = 0" by simp
    with False i(4,5,13) have "l_done ctx \<le> 0" by fastforce
    with z n i(12) False show ?thesis by auto
  qed
qed

section \<open>Properties\<close>

lemma reachable_load_inv: "reach (load_init r c) loadgen_step ctx \<Longrightarrow> load_inv r c ctx"
  by (rule load.reachable_inv)

text \<open>
  C33: the load generator accounts for every connection. At any time the connections in flight are
  the pending operations and at most \<open>concurrency\<close>; the reported peak is \<open>min requests concurrency\<close>;
  and when the loop ends there are exactly \<open>requests\<close> results, none is in flight, and the bytes
  reported are those of the successful ones.
\<close>

theorem load_accounts_every_connection:
  assumes "reach (load_init requests concurrency) loadgen_step ctx"
  shows "l_inflight ctx = int (length (l_pending ctx)) \<and> l_inflight ctx \<le> max 0 concurrency \<and>
    l_peakInflight ctx = max 0 (min requests concurrency) \<and>
    (l_stopped ctx \<longrightarrow> l_pending ctx = [] \<and> int (length (lr_conns (RunLoad_result ctx))) = requests \<and>
       lr_peakConnections (RunLoad_result ctx) = min requests concurrency \<and>
       lr_bytesReceived (RunLoad_result ctx) =
         sum_list (map c_bytes (filter c_ok (lr_conns (RunLoad_result ctx)))))"
proof -
  note i = load_invD [OF reachable_load_inv [OF assms]]
  have "l_pending ctx = [] \<and> int (length (l_results ctx)) = requests \<and>
      max 0 (min requests concurrency) = min requests concurrency" if "l_stopped ctx"
  proof -
    from that i(12) have d: "0 < l_done ctx" "requests \<le> l_done ctx" by simp_all
    with i(3,4,5) have "0 < l_launched ctx" "l_done ctx = requests" "l_inflight ctx = 0" by linarith+
    with i(3,6,13) d show ?thesis by simp
  qed
  with i(3,7,9,10) show ?thesis by (simp add: RunLoad_result_def)
qed

text \<open>Three requests, two at a time: one answered in two pieces, one refused, one reset.\<close>

definition demo_load :: "(load_op \<times> load_outcome \<times> nat) list" where
  "demo_load =
     [(LoadConnect, OpDone 0, 1), (LoadConnect, OpFailed, 2), (LoadWrite, OpDone 50, 2),
      (LoadRead 0, OpDone 100, 3), (LoadConnect, OpDone 0, 3), (LoadRead 100, OpDone 28, 4),
      (LoadRead 128, OpEof, 5), (LoadWrite, OpDone 50, 6), (LoadRead 0, OpReset, 7)]"

definition demo_load_end :: "nat LoadContext" where
  "demo_load_end =
     \<lparr>l_results = [\<lparr>c_ok = False, c_ms = 2, c_bytes = 0\<rparr>, \<lparr>c_ok = True, c_ms = 5, c_bytes = 128\<rparr>,
        \<lparr>c_ok = True, c_ms = 7, c_bytes = 0\<rparr>],
      l_inflight = 0, l_peakInflight = 2, l_launched = 3, l_done = 3, l_bytesReceived = 128,
      l_total = 3, l_concurrency = 2, l_pending = [], l_stopped = True\<rparr>"

lemma demo_load_run:
  "load_init 3 2 (LaunchWave (LoadContext_start 3 2) :: nat LoadContext)"
  "load_execute (LaunchWave (LoadContext_start 3 2)) demo_load = Some demo_load_end"
  by (simp add: load_init_def RunLoad_def) code_simp

theorem load_accounts_every_connection_witness:
  "reach (load_init 3 2) loadgen_step demo_load_end \<and> l_stopped demo_load_end \<and>
   length (lr_conns (RunLoad_result demo_load_end)) = 3 \<and> lr_peakConnections (RunLoad_result demo_load_end) = 2"
proof -
  have "reach (load_init 3 2) loadgen_step demo_load_end"
    using demo_load_run(2) reach_init [of "load_init 3 2", OF demo_load_run(1)] by (rule load_execute_reach)
  then show ?thesis
    using load_accounts_every_connection [of 3 2 demo_load_end] by (simp add: demo_load_end_def)
qed

text \<open>
  C34: the load generator terminates. A run makes at most three steps for each request besides the
  pieces of data it receives, and with at least one request and a positive concurrency it never
  waits for nothing: the loop has stopped or some operation is outstanding.
\<close>

theorem load_generator_terminates:
  assumes "load_init requests concurrency ctx" and "load_execute ctx es = Some ctx'"
  shows "int (length es) \<le> 3 * requests + int (length (filter received_data es)) \<and>
    (0 < requests \<and> 0 < concurrency \<longrightarrow> l_stopped ctx' \<or> l_pending ctx' \<noteq> [])"
proof -
  have inv: "load_inv requests concurrency ctx'"
    using load_execute_reach [OF assms(2) reach_init [of "load_init requests concurrency", OF assms(1)]]
    by (rule reachable_load_inv)
  have "0 \<le> l_total ctx' - l_launched ctx'"
    using load_invD(1,5) [OF inv] load_init_remaining [OF assms(1)] by simp
  then have "0 \<le> remaining ctx'" using op_weight_nonneg [of "l_pending ctx'"] by (simp add: remaining_def)
  with remaining_run [OF assms(2)] load_init_remaining [OF assms(1)] load_progress [OF inv] show ?thesis
    by simp
qed

theorem load_generator_terminates_witness:
  "length demo_load = 9 \<and> length (filter received_data demo_load) = 2 \<and> l_stopped demo_load_end \<and>
   int (length demo_load) \<le> 3 * 3 + int (length (filter received_data demo_load))"
  using load_generator_terminates [OF demo_load_run]
  by (simp add: demo_load_def demo_load_end_def received_data_def)

text \<open>
  C40: what \<open>RunLoad\<close> does with the numbers of the command line, which nothing checks. A negative
  number of requests throws. Otherwise the loop starts; if there is no request, or the concurrency
  is not positive, nothing is launched, no event can come and the loop, kept alive by its work
  guard, has not been stopped: the program hangs.
\<close>

theorem load_generator_hangs_on_nothing_to_do:
  "(requests < 0 \<longrightarrow> RunLoad requests concurrency = (Inl LengthError :: 'm LoadContext throws)) \<and>
   (0 \<le> requests \<longrightarrow> (\<exists>ctx :: 'm LoadContext. RunLoad requests concurrency = Inr ctx \<and> \<not> l_stopped ctx \<and>
      ((\<forall>e ctx'. \<not> loadgen_step ctx e ctx') \<longleftrightarrow> requests = 0 \<or> concurrency \<le> 0)))"
proof -
  let ?ctx = "LaunchWave (LoadContext_start requests concurrency) :: 'm LoadContext"
  have "l_done ?ctx = 0" using launch_loop_fields [of "LoadContext_start requests concurrency :: 'm LoadContext"] by (simp add: LaunchWave_eq)
  then have s: "\<not> l_stopped ?ctx" using load_invD(12) [OF LaunchWave_start_inv [of requests concurrency, where 'a = 'm]] by simp
  moreover have "(\<forall>e ctx'. \<not> loadgen_step ?ctx e ctx') \<longleftrightarrow> l_pending ?ctx = []"
    using s by (auto intro: loadgen_stepI) (metis list.set_intros(1) loadgen_stepI neq_Nil_conv)
  ultimately show ?thesis
    using load_progress [OF LaunchWave_start_inv [of requests concurrency, where 'a = 'm]] by (auto simp: RunLoad_def)
qed

theorem load_generator_hangs_on_nothing_to_do_witness:
  "RunLoad (- 1) 50 = (Inl LengthError :: nat LoadContext throws) \<and>
   (\<exists>ctx :: nat LoadContext. RunLoad 0 50 = Inr ctx \<and> \<not> l_stopped ctx \<and> (\<forall>e ctx'. \<not> loadgen_step ctx e ctx')) \<and>
   (\<exists>ctx :: nat LoadContext. RunLoad 1000 0 = Inr ctx \<and> \<not> l_stopped ctx \<and> (\<forall>e ctx'. \<not> loadgen_step ctx e ctx'))"
  using load_generator_hangs_on_nothing_to_do [of "- 1" 50, where 'm = nat]
    load_generator_hangs_on_nothing_to_do [of 0 50, where 'm = nat]
    load_generator_hangs_on_nothing_to_do [of 1000 0, where 'm = nat] by simp

end
