(* ===== verification/Bench_Stats.thy ===== *)
theory Bench_Stats
  imports Bench_Load "HOL-Library.Multiset"
begin

text \<open>
  \<open>bench/main.cpp\<close>: the statistics of a run (\<open>AlgoResult\<close>, \<open>ComputeStats\<close>) and the error
  percentage of the reports. The values of type \<open>double\<close> are a linearly ordered type \<open>'d\<close> (the
  latencies are differences of clock readings, so none is a NaN) whose arithmetic is a record of
  functions: its rounding is the processor's.
\<close>

section \<open>The numbers of type double\<close>

record 'd double_ops =
  d_of_int :: "int \<Rightarrow> 'd"
  d_add :: "'d \<Rightarrow> 'd \<Rightarrow> 'd"
  d_sub :: "'d \<Rightarrow> 'd \<Rightarrow> 'd"
  d_mul :: "'d \<Rightarrow> 'd \<Rightarrow> 'd"
  d_div :: "'d \<Rightarrow> 'd \<Rightarrow> 'd"
  d_trunc :: "'d \<Rightarrow> int"
  d_fixed :: "nat \<Rightarrow> 'd \<Rightarrow> string"

section \<open>The statistics\<close>

record 'd AlgoResult =
  r_algo :: string
  r_completed :: int
  r_errors :: int
  r_throughput :: int
  r_peakConnections :: int
  r_backendCount :: int
  r_bytesReceived :: int
  r_avgMs :: 'd
  r_minMs :: 'd
  r_p50Ms :: 'd
  r_p95Ms :: 'd
  r_p99Ms :: 'd
  r_maxMs :: 'd

definition AlgoResult_default :: "'d double_ops \<Rightarrow> 'd AlgoResult" where
  "AlgoResult_default ops =
     (let zero = d_of_int ops 0 in
      \<lparr>r_algo = [], r_completed = 0, r_errors = 0, r_throughput = 0, r_peakConnections = 0,
       r_backendCount = 0, r_bytesReceived = 0, r_avgMs = zero, r_minMs = zero, r_p50Ms = zero,
       r_p95Ms = zero, r_p99Ms = zero, r_maxMs = zero\<rparr>)"

text \<open>The loop over the connections.\<close>

fun count_conns :: "'d ConnResult list \<Rightarrow> 'd AlgoResult \<times> 'd list \<Rightarrow> 'd AlgoResult \<times> 'd list" where
  "count_conns [] (r, latencies) = (r, latencies)"
| "count_conns (c # conns) (r, latencies) =
     (if c_ok c then count_conns conns (r\<lparr>r_completed := r_completed r + 1\<rparr>, latencies @ [c_ms c])
      else count_conns conns (r\<lparr>r_errors := r_errors r + 1\<rparr>, latencies))"

text \<open>\<open>std::accumulate\<close>, from the left.\<close>

definition accumulate :: "'d double_ops \<Rightarrow> 'd list \<Rightarrow> 'd" where
  "accumulate ops xs = foldl (d_add ops) (d_of_int ops 0) xs"

definition ComputeStats ::
    "'d::linorder double_ops \<Rightarrow> string \<Rightarrow> 'd LoadResult \<Rightarrow> 'd \<Rightarrow> int \<Rightarrow> 'd AlgoResult throws" where
  "ComputeStats ops algo load totalWallMs backendCount =
     (let r = (AlgoResult_default ops)\<lparr>r_algo := algo, r_peakConnections := lr_peakConnections load,
                 r_bytesReceived := lr_bytesReceived load, r_backendCount := backendCount\<rparr>;
          (r, latencies) = count_conns (lr_conns load) (r, []);
          r = (if d_of_int ops 0 < totalWallMs
               then r\<lparr>r_throughput := d_trunc ops
                        (d_div ops (d_mul ops (d_of_int ops (r_completed r)) (d_of_int ops 1000)) totalWallMs)\<rparr>
               else r)
      in if latencies = [] then Inr r
         else let latencies = sort latencies; n = length latencies;
                  r = r\<lparr>r_minMs := hd latencies, r_maxMs := last latencies,
                        r_avgMs := d_div ops (accumulate ops latencies) (d_of_int ops (int n))\<rparr>
              in and_then (vector_at latencies (n * 50 div 100)) (\<lambda>p50.
                 and_then (vector_at latencies (n * 95 div 100)) (\<lambda>p95.
                 and_then (vector_at latencies (n * 99 div 100)) (\<lambda>p99.
                   Inr (r\<lparr>r_p50Ms := p50, r_p95Ms := p95, r_p99Ms := p99\<rparr>)))))"

text \<open>
  The error percentage the reports print; neither number is negative. The arithmetic is that of
  \<open>int\<close>: outside its range, which the product leaves first, it is undefined, so every place that
  prints the percentage asks \<open>error_pct_defined\<close> before.
\<close>

definition error_pct_defined :: "'d AlgoResult \<Rightarrow> bool" where
  "error_pct_defined r \<longleftrightarrow> r_completed r + r_errors r < 2 ^ 31 \<and> r_errors r * 100 < 2 ^ 31"

definition error_pct :: "'d AlgoResult \<Rightarrow> int" where
  "error_pct r =
     (let total = r_completed r + r_errors r in if total > 0 then r_errors r * 100 div total else 0)"

section \<open>Lemmas\<close>

lemma count_conns_eq:
  "count_conns conns (r, latencies) =
     (r\<lparr>r_completed := r_completed r + int (length (filter c_ok conns)),
        r_errors := r_errors r + int (length (filter (\<lambda>c. \<not> c_ok c) conns))\<rparr>,
      latencies @ map c_ms (filter c_ok conns))"
proof (induction conns "(r, latencies)" arbitrary: r latencies rule: count_conns.induct)
  case (1 r latencies)
  then show ?case by simp
next
  case (2 c conns r latencies)
  then show ?case by (cases "c_ok c") (simp_all add: algebra_simps)
qed

text \<open>The order statistics of a sorted list.\<close>

lemma percentile_index: "xs \<noteq> [] \<Longrightarrow> k < 100 \<Longrightarrow> length xs * k div 100 < length xs"
  by (simp add: div_less_iff_less_mult)

lemma percentile_mono: "j \<le> k \<Longrightarrow> n * j div 100 \<le> n * k div (100 :: nat)"
  by (simp add: div_le_mono)

lemma length_filter_less_nth:
  assumes "sorted xs" and "i < length xs"
  shows "length (filter (\<lambda>x. x < xs ! i) xs) \<le> i"
proof -
  have "filter (\<lambda>x. x < xs ! i) (drop i xs) = []"
    using assms by (auto simp: filter_empty_conv in_set_conv_nth not_less intro!: sorted_nth_mono)
  then have "length (filter (\<lambda>x. x < xs ! i) xs) = length (filter (\<lambda>x. x < xs ! i) (take i xs))"
    using filter_append [of "\<lambda>x. x < xs ! i" "take i xs" "drop i xs"] by simp
  also have "\<dots> \<le> i" using length_filter_le [of "\<lambda>x. x < xs ! i" "take i xs"] assms(2) by simp
  finally show ?thesis .
qed

lemma length_filter_le_nth:
  assumes "sorted xs" and "i < length xs"
  shows "i < length (filter (\<lambda>x. x \<le> xs ! i) xs)"
proof -
  have "\<forall>x\<in>set (take (Suc i) xs). x \<le> xs ! i"
    using assms by (auto simp: in_set_conv_nth intro!: sorted_nth_mono)
  then have "filter (\<lambda>x. x \<le> xs ! i) (take (Suc i) xs) = take (Suc i) xs" by (simp add: filter_id_conv)
  then have "length (filter (\<lambda>x. x \<le> xs ! i) xs) \<ge> length (take (Suc i) xs)"
    using filter_append [of "\<lambda>x. x \<le> xs ! i" "take (Suc i) xs" "drop (Suc i) xs"] by simp
  with assms(2) show ?thesis by simp
qed

lemma sorted_ends:
  assumes "sorted xs" and "xs \<noteq> []"
  shows "hd xs = Min (set xs)" and "last xs = Max (set xs)"
proof -
  have "hd xs \<le> x \<and> x \<le> last xs" if x: "x \<in> set xs" for x
  proof -
    from x obtain i where i: "i < length xs" "x = xs ! i" by (auto simp: in_set_conv_nth)
    with sorted_nth_mono [OF assms(1), of 0 i] sorted_nth_mono [OF assms(1), of i "length xs - 1"] assms(2)
    show ?thesis by (simp add: hd_conv_nth last_conv_nth)
  qed
  with assms(2) show "hd xs = Min (set xs)" "last xs = Max (set xs)"
    by (auto intro!: Min_eqI [symmetric] Max_eqI [symmetric])
qed

lemma length_filter_sort: "length (filter P (sort xs)) = length (filter P xs)"
proof -
  have "mset (filter P (sort xs)) = mset (filter P xs)" by (simp add: mset_filter)
  then show ?thesis by (rule mset_eq_length)
qed

section \<open>Properties\<close>

definition ok_latencies :: "'d LoadResult \<Rightarrow> 'd list" where
  "ok_latencies load = map c_ms (filter c_ok (lr_conns load))"

text \<open>At most \<open>k\<close> percent of the latencies are below \<open>p\<close>, and more than that are not above it.\<close>

definition is_percentile :: "nat \<Rightarrow> 'd::linorder \<Rightarrow> 'd list \<Rightarrow> bool" where
  "is_percentile k p xs \<longleftrightarrow> p \<in> set xs \<and>
     length (filter (\<lambda>x. x < p) xs) \<le> length xs * k div 100 \<and>
     length xs * k div 100 < length (filter (\<lambda>x. x \<le> p) xs)"

lemma is_percentile_sorted:
  assumes "xs \<noteq> []" and "k < 100"
  shows "is_percentile k (sort xs ! (length xs * k div 100)) xs"
proof -
  let ?i = "length xs * k div 100"
  have i: "?i < length (sort xs)" using percentile_index [OF assms] by simp
  then have "sort xs ! ?i \<in> set (sort xs)" by (rule nth_mem)
  with length_filter_less_nth [OF sorted_sort i] length_filter_le_nth [OF sorted_sort i] show ?thesis
    by (simp add: is_percentile_def length_filter_sort)
qed

lemma ComputeStats_fields:
  fixes load :: "'d::linorder LoadResult"
  defines "xs \<equiv> sort (ok_latencies load)"
  shows "\<exists>r. ComputeStats ops algo load wall backends = Inr r \<and> r_algo r = algo \<and>
    r_completed r = int (length (filter c_ok (lr_conns load))) \<and>
    r_errors r = int (length (filter (\<lambda>c. \<not> c_ok c) (lr_conns load))) \<and>
    r_minMs r = (if xs = [] then d_of_int ops 0 else hd xs) \<and>
    r_maxMs r = (if xs = [] then d_of_int ops 0 else last xs) \<and>
    r_avgMs r = (if xs = [] then d_of_int ops 0
      else d_div ops (accumulate ops xs) (d_of_int ops (int (length xs)))) \<and>
    r_p50Ms r = (if xs = [] then d_of_int ops 0 else xs ! (length xs * 50 div 100)) \<and>
    r_p95Ms r = (if xs = [] then d_of_int ops 0 else xs ! (length xs * 95 div 100)) \<and>
    r_p99Ms r = (if xs = [] then d_of_int ops 0 else xs ! (length xs * 99 div 100))"
proof -
  have nil: "xs = [] \<longleftrightarrow> map c_ms (filter c_ok (lr_conns load)) = []"
    unfolding xs_def ok_latencies_def by (metis length_0_conv length_sort)
  have at: "vector_at xs (length xs * k div 100) = Inr (xs ! (length xs * k div 100))" if "xs \<noteq> []" "k < 100" for k
    using percentile_index [OF that] by simp
  show ?thesis
  proof (cases "xs = []")
    case True
    with nil show ?thesis by (auto simp: ComputeStats_def count_conns_eq AlgoResult_default_def Let_def)
  next
    case False
    with nil at [OF False, of 50] at [OF False, of 95] at [OF False, of 99] show ?thesis
      unfolding xs_def ok_latencies_def
      by (auto simp: ComputeStats_def count_conns_eq AlgoResult_default_def Let_def)
  qed
qed

text \<open>
  C38: \<open>ComputeStats\<close> never indexes out of range and counts every connection once. When some
  connection succeeded, the minimum and the maximum it reports are the least and the greatest of the
  successful latencies, the average is their sum divided by their number, and the percentiles are
  those of the successful latencies, in order; when none did they are all 0.
\<close>

theorem ComputeStats_correct:
  "\<exists>r. ComputeStats ops algo load wall backends = Inr r \<and>
     r_completed r = int (length (ok_latencies load)) \<and>
     r_completed r + r_errors r = int (length (lr_conns load)) \<and>
     (if ok_latencies load = []
      then {r_minMs r, r_avgMs r, r_p50Ms r, r_p95Ms r, r_p99Ms r, r_maxMs r} = {d_of_int ops 0}
      else r_minMs r = Min (set (ok_latencies load)) \<and> r_maxMs r = Max (set (ok_latencies load)) \<and>
        r_avgMs r = d_div ops (accumulate ops (sort (ok_latencies load))) (d_of_int ops (int (length (ok_latencies load)))) \<and>
        r_p50Ms r \<le> r_p95Ms r \<and> r_p95Ms r \<le> r_p99Ms r \<and>
        is_percentile 50 (r_p50Ms r) (ok_latencies load) \<and> is_percentile 95 (r_p95Ms r) (ok_latencies load) \<and>
        is_percentile 99 (r_p99Ms r) (ok_latencies load))"
proof -
  let ?l = "ok_latencies load" and ?s = "sort (ok_latencies load)"
  obtain r where r: "ComputeStats ops algo load wall backends = Inr r"
    "r_completed r = int (length (filter c_ok (lr_conns load)))"
    "r_errors r = int (length (filter (\<lambda>c. \<not> c_ok c) (lr_conns load)))"
    "r_minMs r = (if ?s = [] then d_of_int ops 0 else hd ?s)" "r_maxMs r = (if ?s = [] then d_of_int ops 0 else last ?s)"
    "r_avgMs r = (if ?s = [] then d_of_int ops 0
      else d_div ops (accumulate ops ?s) (d_of_int ops (int (length ?s))))"
    "r_p50Ms r = (if ?s = [] then d_of_int ops 0 else ?s ! (length ?s * 50 div 100))"
    "r_p95Ms r = (if ?s = [] then d_of_int ops 0 else ?s ! (length ?s * 95 div 100))"
    "r_p99Ms r = (if ?s = [] then d_of_int ops 0 else ?s ! (length ?s * 99 div 100))"
    using ComputeStats_fields [of ops algo load wall backends] by blast
  have len: "length ?s = length ?l" and nil: "?s = [] \<longleftrightarrow> ?l = []" by (simp, metis length_0_conv length_sort)
  have all: "length (filter c_ok (lr_conns load)) + length (filter (\<lambda>c. \<not> c_ok c) (lr_conns load)) = length (lr_conns load)"
    by (rule sum_length_filter_compl)
  have ok: "length ?l = length (filter c_ok (lr_conns load))" by (simp add: ok_latencies_def)
  have ends: "r_minMs r = Min (set ?l) \<and> r_maxMs r = Max (set ?l)" if "?l \<noteq> []"
    using that nil r(4,5) sorted_ends [of ?s] by simp
  have mono: "r_p50Ms r \<le> r_p95Ms r \<and> r_p95Ms r \<le> r_p99Ms r" if "?l \<noteq> []"
  proof -
    have ne: "?s \<noteq> []" using that nil by simp
    have m: "?s ! (length ?s * j div 100) \<le> ?s ! (length ?s * k div 100)" if "j \<le> k" "k < 100" for j k
      using percentile_mono [OF that(1)] percentile_index [OF ne that(2)] by (intro sorted_nth_mono) simp_all
    from ne r(7-9) m [of 50 95] m [of 95 99] show ?thesis by simp
  qed
  show ?thesis
  proof (cases "?l = []")
    case True
    with nil r all ok show ?thesis by (intro exI [of _ r]) (simp flip: of_nat_add)
  next
    case False
    with nil r all ok len ends mono is_percentile_sorted [OF False, of 50] is_percentile_sorted [OF False, of 95]
      is_percentile_sorted [OF False, of 99] show ?thesis by (intro exI [of _ r]) (simp flip: of_nat_add)
  qed
qed

text \<open>
  The percentage is defined for up to 21474836 errors, whatever the number of requests.
\<close>

lemma error_pct_defined_iff:
  assumes "r_completed r + r_errors r < 2 ^ 31"
  shows "error_pct_defined r \<longleftrightarrow> r_errors r \<le> 21474836"
  using assms by (auto simp: error_pct_defined_def)

text \<open>
  The reported percentage is a percentage, and 100 exactly when every connection failed.
\<close>

lemma error_pct_range:
  assumes "0 \<le> r_completed r" and "0 \<le> r_errors r"
  shows "0 \<le> error_pct r \<and> error_pct r \<le> 100 \<and>
    (error_pct r = 100 \<longleftrightarrow> r_completed r = 0 \<and> 0 < r_errors r)"
proof (cases "0 < r_completed r + r_errors r")
  case True
  obtain t q where t: "t = r_completed r + r_errors r" and q: "q = r_errors r * 100 div t" by blast
  have pct: "error_pct r = q" using True by (simp add: error_pct_def t q)
  have "0 \<le> r_errors r * 100 mod t" "r_errors r * 100 mod t < t" using True t by simp_all
  moreover have "r_errors r * 100 = t * q + r_errors r * 100 mod t" by (simp add: q)
  ultimately have lo: "t * q \<le> r_errors r * 100" and hi: "r_errors r * 100 < t * (q + 1)"
    by (simp_all add: distrib_left)
  have "t * q \<le> t * 100" using lo assms t by simp
  moreover have pos: "0 < t" using True t by simp
  ultimately have "q \<le> 100" by simp
  moreover have "0 < t * (q + 1)" using hi assms(2) by simp
  then have "0 \<le> q" using pos by (simp add: zero_less_mult_iff)
  moreover have "q = 100 \<longleftrightarrow> r_completed r = 0"
  proof
    assume "q = 100"
    with lo t have "r_completed r * 100 \<le> 0" by (simp add: algebra_simps)
    with assms(1) show "r_completed r = 0" by simp
  next
    assume "r_completed r = 0"
    with t q pos show "q = 100" by simp
  qed
  ultimately show ?thesis using pct True assms by auto
next
  case False
  with assms show ?thesis by (simp add: error_pct_def)
qed

lemma ComputeStats_error_pct:
  assumes "ComputeStats ops algo load wall backends = Inr r"
  shows "0 \<le> error_pct r \<and> error_pct r \<le> 100"
  using ComputeStats_fields [of ops algo load wall backends] assms error_pct_range [of r] by auto

end
