(* ===== verification/Bench_Baseline.thy ===== *)
theory Bench_Baseline
  imports Complex_Main Bench_Args Bench_Stats Yaml_Serializer
begin

text \<open>
  \<open>bench/main.cpp\<close>: the baseline file (\<open>SaveBaseline\<close>) and the comparison of a run with it
  (\<open>CompareBaseline\<close>), which scans the text for quoted names instead of parsing it. The printed
  numbers of type \<open>double\<close> are those of \<open>d_fixed\<close>; the file system is that of \<open>Yaml_Serializer\<close>.
\<close>

section \<open>Writing the baseline\<close>

definition baseline_entry :: "'d double_ops \<Rightarrow> 'd AlgoResult \<Rightarrow> bool \<Rightarrow> string" where
  "baseline_entry ops r comma =
     println (''    '' @ quoted (r_algo r) @ '': {'') @
     println (''      '' @ quoted ''completed'' @ '': '' @ int_to_string (r_completed r) @ '','') @
     println (''      '' @ quoted ''errors'' @ '': '' @ int_to_string (r_errors r) @ '','') @
     println (''      '' @ quoted ''error_pct'' @ '': '' @ int_to_string (error_pct r) @ '','') @
     println (''      '' @ quoted ''throughput_per_sec'' @ '': '' @ int_to_string (r_throughput r) @ '','') @
     println (''      '' @ quoted ''peak_connections'' @ '': '' @ int_to_string (r_peakConnections r) @ '','') @
     println (''      '' @ quoted ''bytes_received'' @ '': '' @ int_to_string (r_bytesReceived r) @ '','') @
     println (''      '' @ quoted ''avg_ms'' @ '': '' @ d_fixed ops 2 (r_avgMs r) @ '','') @
     println (''      '' @ quoted ''min_ms'' @ '': '' @ d_fixed ops 2 (r_minMs r) @ '','') @
     println (''      '' @ quoted ''p50_ms'' @ '': '' @ d_fixed ops 2 (r_p50Ms r) @ '','') @
     println (''      '' @ quoted ''p95_ms'' @ '': '' @ d_fixed ops 2 (r_p95Ms r) @ '','') @
     println (''      '' @ quoted ''p99_ms'' @ '': '' @ d_fixed ops 2 (r_p99Ms r) @ '','') @
     println (''      '' @ quoted ''max_ms'' @ '': '' @ d_fixed ops 2 (r_maxMs r)) @
     println (''    }'' @ (if comma then '','' else ''''))"

fun baseline_entries :: "'d double_ops \<Rightarrow> 'd AlgoResult list \<Rightarrow> string" where
  "baseline_entries ops [] = []"
| "baseline_entries ops (r # rs) = baseline_entry ops r (rs \<noteq> []) @ baseline_entries ops rs"

definition baseline_text :: "'d double_ops \<Rightarrow> string \<Rightarrow> BenchConfig \<Rightarrow> 'd AlgoResult list \<Rightarrow> string" where
  "baseline_text ops ts cfg results =
     println ''{'' @
     println (''  '' @ quoted ''timestamp'' @ '': '' @ quoted ts @ '','') @
     println (''  '' @ quoted ''binary'' @ '': '' @ quoted (b_lbBinary cfg) @ '','') @
     println (''  '' @ quoted ''concurrency'' @ '': '' @ int_to_string (b_concurrency cfg) @ '','') @
     println (''  '' @ quoted ''requests'' @ '': '' @ int_to_string (b_requests cfg) @ '','') @
     println (''  '' @ quoted ''services'' @ '': '' @ int_to_string (b_services cfg) @ '','') @
     println (''  '' @ quoted ''results'' @ '': {'') @
     baseline_entries ops results @
     println ''  }'' @
     println ''}''"

text \<open>
  \<open>ts\<close> is the formatted clock. The directory is created whether or not the path names one; a
  percentage that overflows is undefined.
\<close>

definition SaveBaseline ::
    "'d double_ops \<Rightarrow> string os \<Rightarrow> string \<Rightarrow> BenchConfig \<Rightarrow> 'd AlgoResult list \<Rightarrow> string files \<Rightarrow>
     string files bench" where
  "SaveBaseline ops os ts cfg results files =
     (if \<not> mkdirs_ok os (parent_path (b_baselineFile cfg)) then Inl (Uncaught FilesystemError)
      else if \<not> open_ok os (b_baselineFile cfg) then Die (''cannot write baseline to '' @ b_baselineFile cfg)
      else if \<exists>r\<in>set results. \<not> error_pct_defined r then Inl Undefined
      else Inr (files(b_baselineFile cfg \<mapsto> stored os (b_baselineFile cfg) (baseline_text ops ts cfg results))))"

section \<open>Comparing with it\<close>

definition starts_with :: "string \<Rightarrow> string \<Rightarrow> bool" where
  "starts_with needle s \<longleftrightarrow> take (length needle) s = needle"

text \<open>\<open>std::string::find\<close>: the first position at or after \<open>pos\<close>; \<open>None\<close> is \<open>npos\<close>.\<close>

fun first_match :: "string \<Rightarrow> string \<Rightarrow> nat option" where
  "first_match needle [] = (if needle = [] then Some 0 else None)"
| "first_match needle (c # s) =
     (if starts_with needle (c # s) then Some 0 else map_option Suc (first_match needle s))"

definition str_find :: "string \<Rightarrow> string \<Rightarrow> nat \<Rightarrow> nat option" where
  "str_find content needle pos = map_option ((+) pos) (first_match needle (drop pos content))"

definition throughput_needle :: string where
  "throughput_needle = quoted ''throughput_per_sec'' @ '': ''"

definition throughput_drop :: "'d double_ops \<Rightarrow> int \<Rightarrow> int \<Rightarrow> 'd" where
  "throughput_drop ops baseline throughput =
     (if baseline > 0
      then d_mul ops (d_sub ops (d_of_int ops 1) (d_div ops (d_of_int ops throughput) (d_of_int ops baseline)))
             (d_of_int ops 100)
      else d_of_int ops 0)"

text \<open>
  One round of the loop looks the algorithm up in the text, which may not name it or give no
  throughput after its name, and decides whether this result passes.
\<close>

datatype baseline_hit = NotInBaseline | NoThroughput | BaselineOf int

definition baseline_lookup :: "string \<Rightarrow> string \<Rightarrow> baseline_hit throws" where
  "baseline_lookup content algo =
     (case str_find content (quoted algo) 0 of
        None \<Rightarrow> Inr NotInBaseline
      | Some pos \<Rightarrow>
          (case str_find content throughput_needle pos of
             None \<Rightarrow> Inr NoThroughput
           | Some tpos \<Rightarrow>
               and_then (stoi (take 10 (drop (tpos + length throughput_needle) content))) (\<lambda>baseline.
                 Inr (BaselineOf baseline))))"

definition result_passes :: "'d::linorder double_ops \<Rightarrow> int \<Rightarrow> 'd AlgoResult \<Rightarrow> baseline_hit \<Rightarrow> bool" where
  "result_passes ops threshold r hit \<longleftrightarrow> (case hit of
     BaselineOf baseline \<Rightarrow> \<not> d_of_int ops threshold < throughput_drop ops baseline (r_throughput r)
   | _ \<Rightarrow> True)"

definition compare_one :: "'d::linorder double_ops \<Rightarrow> string \<Rightarrow> int \<Rightarrow> 'd AlgoResult \<Rightarrow> bool throws" where
  "compare_one ops content threshold r =
     and_then (baseline_lookup content (r_algo r)) (\<lambda>hit. Inr (result_passes ops threshold r hit))"

fun compare_results ::
    "'d::linorder double_ops \<Rightarrow> string \<Rightarrow> int \<Rightarrow> 'd AlgoResult list \<Rightarrow> bool \<Rightarrow> bool throws" where
  "compare_results ops content threshold [] allPassed = Inr allPassed"
| "compare_results ops content threshold (r # rs) allPassed =
     and_then (compare_one ops content threshold r) (\<lambda>passed.
       compare_results ops content threshold rs (allPassed \<and> passed))"

definition CompareBaseline ::
    "'d::linorder double_ops \<Rightarrow> string files \<Rightarrow> BenchConfig \<Rightarrow> 'd AlgoResult list \<Rightarrow> bool throws" where
  "CompareBaseline ops files cfg current =
     (case files (b_baselineFile cfg) of
        None \<Rightarrow> Inr True
      | Some content \<Rightarrow> compare_results ops content (b_thresholdPct cfg) current True)"

section \<open>Lemmas on searching\<close>

text \<open>The text from the first match on.\<close>

definition from_match :: "string \<Rightarrow> string \<Rightarrow> string option" where
  "from_match needle s = map_option (\<lambda>i. drop i s) (first_match needle s)"

lemma from_match_Nil: "needle \<noteq> [] \<Longrightarrow> from_match needle [] = None"
  by (simp add: from_match_def)

lemma from_match_Cons:
  "from_match needle (c # s) = (if starts_with needle (c # s) then Some (c # s) else from_match needle s)"
  by (auto simp: from_match_def option.map_comp comp_def)

text \<open>A quote-free stretch holds no match of a needle that starts with a quote.\<close>

lemma from_match_skip:
  "CHR 0x22 \<notin> set raw \<Longrightarrow> from_match (CHR 0x22 # needle) (raw @ s) = from_match (CHR 0x22 # needle) s"
  by (induction raw) (auto simp: from_match_Cons starts_with_def)

lemma starts_with_append [simp]: "starts_with needle (needle @ s)"
  by (simp add: starts_with_def)

text \<open>
  A text given as quote-free stretches, each followed by a quoted quote-free word. In the
  stretches there is a space, which no searched name has.
\<close>

type_synonym pieces = "(string \<times> string) list"

fun join :: "pieces \<Rightarrow> string \<Rightarrow> string" where
  "join [] tail = tail"
| "join ((raw, word) # ps) tail = raw @ quoted word @ join ps tail"

definition tidy :: "pieces \<Rightarrow> bool" where
  "tidy ps \<longleftrightarrow> (\<forall>(raw, word)\<in>set ps. CHR 0x22 \<notin> set raw \<and> CHR '' '' \<in> set raw \<and> CHR 0x22 \<notin> set word)"

lemma join_append: "join (ps @ qs) tail = join ps (join qs tail)"
  by (induction ps) auto

lemma take_quote:
  assumes "CHR 0x22 \<notin> set name" and "CHR 0x22 \<notin> set word"
  shows "take (Suc (length name)) (word @ CHR 0x22 # s) = name @ [CHR 0x22] \<longleftrightarrow> word = name"
  using assms
proof (induction name arbitrary: word)
  case Nil
  then show ?case by (cases word) auto
next
  case (Cons c name)
  then show ?case by (cases word) auto
qed

lemma starts_with_prefix: "starts_with (a @ b) s \<Longrightarrow> starts_with a s"
  unfolding starts_with_def by (metis append_eq_append_conv_if append_take_drop_id length_append take_take take_append
    append_eq_conv_conj le_add1 min.absorb1)

lemma starts_with_quoted_word:
  assumes "CHR 0x22 \<notin> set name" and "CHR 0x22 \<notin> set word" and "starts_with (quoted name @ suf) (CHR 0x22 # word @ CHR 0x22 # s)"
  shows "word = name"
proof -
  have "starts_with (quoted name) (CHR 0x22 # word @ CHR 0x22 # s)" using assms(3) by (rule starts_with_prefix)
  then show ?thesis using take_quote [OF assms(1,2)] by (simp add: starts_with_def quoted_def)
qed

lemma starts_with_quoted_open:
  assumes "CHR 0x22 \<notin> set tail"
  shows "\<not> starts_with (quoted name @ suf) (CHR 0x22 # tail)"
proof
  assume "starts_with (quoted name @ suf) (CHR 0x22 # tail)"
  then have "starts_with (quoted name) (CHR 0x22 # tail)" by (rule starts_with_prefix)
  then have "take (Suc (length name)) tail = name @ [CHR 0x22]" by (simp add: starts_with_def quoted_def)
  then have "CHR 0x22 \<in> set (take (Suc (length name)) tail)" by simp
  with assms show False by (meson in_set_takeD)
qed

text \<open>A closing quote is not the start of a searched name.\<close>

lemma closing_quote:
  assumes "CHR 0x22 \<notin> set name" and "CHR '' '' \<notin> set name" and "tidy ps" and "CHR 0x22 \<notin> set tail"
  shows "\<not> starts_with (quoted name @ suf) (CHR 0x22 # join ps tail)"
proof (cases ps)
  case Nil
  then show ?thesis using starts_with_quoted_open [OF assms(4)] by simp
next
  case (Cons p qs)
  obtain raw word where p: "p = (raw, word)" by (cases p)
  with Cons assms(3) have raw: "CHR 0x22 \<notin> set raw" "CHR '' '' \<in> set raw" by (auto simp: tidy_def)
  show ?thesis
    using starts_with_quoted_word [OF assms(1) raw(1)] raw(2) assms(2) Cons p by (auto simp: quoted_def)
qed

lemma from_match_join_skip:
  assumes "CHR 0x22 \<notin> set name" and "CHR '' '' \<notin> set name" and "CHR 0x22 \<notin> set raw" and "CHR 0x22 \<notin> set word"
    and "word \<noteq> name" and "tidy ps" and "CHR 0x22 \<notin> set tail"
  shows "from_match (quoted name @ suf) (join ((raw, word) # ps) tail) = from_match (quoted name @ suf) (join ps tail)"
proof -
  have q: "quoted name @ suf = CHR 0x22 # name @ CHR 0x22 # suf" by (simp add: quoted_def)
  have "\<not> starts_with (quoted name @ suf) (CHR 0x22 # word @ CHR 0x22 # join ps tail)"
    using starts_with_quoted_word [OF assms(1,4)] assms(5) by blast
  moreover have "\<not> starts_with (quoted name @ suf) (CHR 0x22 # join ps tail)"
    using closing_quote [OF assms(1,2,6,7)] .
  ultimately show ?thesis
    unfolding q using from_match_skip [OF assms(3)] from_match_skip [OF assms(4)]
    by (simp add: quoted_def from_match_Cons)
qed

lemma from_match_join_hit:
  assumes "CHR 0x22 \<notin> set raw" and "starts_with suf (join ps tail)"
  shows "from_match (quoted name @ suf) (join ((raw, name) # ps) tail) = Some (quoted name @ join ps tail)"
proof -
  have q: "quoted name @ suf = CHR 0x22 # name @ CHR 0x22 # suf" by (simp add: quoted_def)
  have "starts_with (quoted name @ suf) (quoted name @ join ps tail)"
    using assms(2) by (simp add: starts_with_def quoted_def)
  then show ?thesis
    unfolding q using from_match_skip [OF assms(1)] by (simp add: quoted_def from_match_Cons)
qed

lemma from_match_tail: "CHR 0x22 \<notin> set tail \<Longrightarrow> from_match (quoted name @ suf) tail = None"
  using from_match_skip [of tail "name @ CHR 0x22 # suf" "[]"] by (simp add: quoted_def from_match_Nil)

section \<open>The baseline as pieces\<close>

text \<open>
  The pieces of an entry whose first line follows \<open>lead\<close>, and what follows its last name.
\<close>

definition field_lead :: "string \<Rightarrow> string" where
  "field_lead value = '': '' @ value @ '','' @ newline @ ''      ''"

definition entry_fields :: "'d AlgoResult \<Rightarrow> pieces" where
  "entry_fields r =
     [('': {'' @ newline @ ''      '', ''completed''), (field_lead (int_to_string (r_completed r)), ''errors''),
      (field_lead (int_to_string (r_errors r)), ''error_pct''),
      (field_lead (int_to_string (error_pct r)), ''throughput_per_sec'')]"

definition entry_rest :: "'d double_ops \<Rightarrow> 'd AlgoResult \<Rightarrow> pieces" where
  "entry_rest ops r =
     [(field_lead (int_to_string (r_throughput r)), ''peak_connections''),
      (field_lead (int_to_string (r_peakConnections r)), ''bytes_received''),
      (field_lead (int_to_string (r_bytesReceived r)), ''avg_ms''), (field_lead (d_fixed ops 2 (r_avgMs r)), ''min_ms''),
      (field_lead (d_fixed ops 2 (r_minMs r)), ''p50_ms''), (field_lead (d_fixed ops 2 (r_p50Ms r)), ''p95_ms''),
      (field_lead (d_fixed ops 2 (r_p95Ms r)), ''p99_ms''), (field_lead (d_fixed ops 2 (r_p99Ms r)), ''max_ms'')]"

definition entry_tail :: "'d double_ops \<Rightarrow> 'd AlgoResult \<Rightarrow> bool \<Rightarrow> string" where
  "entry_tail ops r comma =
     '': '' @ d_fixed ops 2 (r_maxMs r) @ newline @ ''    }'' @ (if comma then '','' else []) @ newline"

fun entries_pieces :: "'d double_ops \<Rightarrow> string \<Rightarrow> 'd AlgoResult list \<Rightarrow> pieces" where
  "entries_pieces ops lead [] = []"
| "entries_pieces ops lead (r # rs) =
     (lead @ ''    '', r_algo r) # entry_fields r @ entry_rest ops r @
     entries_pieces ops (entry_tail ops r (rs \<noteq> [])) rs"

fun entries_tail :: "'d double_ops \<Rightarrow> string \<Rightarrow> 'd AlgoResult list \<Rightarrow> string" where
  "entries_tail ops lead [] = lead"
| "entries_tail ops lead (r # rs) = entries_tail ops (entry_tail ops r (rs \<noteq> [])) rs"

lemma entries_join:
  "lead @ baseline_entries ops rs @ tail = join (entries_pieces ops lead rs) (entries_tail ops lead rs @ tail)"
proof (induction rs arbitrary: lead)
  case Nil
  then show ?case by simp
next
  case (Cons r rs)
  have "lead @ baseline_entry ops r (rs \<noteq> []) @ s =
      join ((lead @ ''    '', r_algo r) # entry_fields r @ entry_rest ops r) (entry_tail ops r (rs \<noteq> []) @ s)" for s
    by (simp add: baseline_entry_def entry_fields_def entry_rest_def entry_tail_def field_lead_def println_def)
  from this [of "baseline_entries ops rs @ tail"] show ?case
    unfolding Cons [of "entry_tail ops r (rs \<noteq> [])"] by (simp add: join_append)
qed

definition header_pieces :: "string \<Rightarrow> BenchConfig \<Rightarrow> pieces" where
  "header_pieces ts cfg =
     [(''{'' @ newline @ ''  '', ''timestamp''), ('': '', ts), ('','' @ newline @ ''  '', ''binary''),
      ('': '', b_lbBinary cfg), ('','' @ newline @ ''  '', ''concurrency''),
      ('': '' @ int_to_string (b_concurrency cfg) @ '','' @ newline @ ''  '', ''requests''),
      ('': '' @ int_to_string (b_requests cfg) @ '','' @ newline @ ''  '', ''services''),
      ('': '' @ int_to_string (b_services cfg) @ '','' @ newline @ ''  '', ''results'')]"

definition results_lead :: string where
  "results_lead = '': {'' @ newline"

lemma baseline_text_join:
  "baseline_text ops ts cfg rs = join (header_pieces ts cfg)
     (join (entries_pieces ops results_lead rs)
       (entries_tail ops results_lead rs @ ''  }'' @ newline @ ''}'' @ newline))"
  unfolding entries_join [symmetric]
  by (simp add: baseline_text_def header_pieces_def results_lead_def println_def)

text \<open>No quote is printed but those around a name.\<close>

lemma newline_no_quote [simp]: "CHR 0x22 \<notin> set newline"
  by code_simp

lemma int_to_string_no_quote [simp]: "CHR 0x22 \<notin> set (int_to_string n)"
proof -
  have "\<not> is_digit (CHR 0x22)" by code_simp
  then have "CHR 0x22 \<notin> set (to_decimal k)" for k using to_decimal_digits by blast
  then show ?thesis by (simp add: int_to_string_def)
qed

definition prints_no_quote :: "'d double_ops \<Rightarrow> bool" where
  "prints_no_quote ops \<longleftrightarrow> (\<forall>n x. CHR 0x22 \<notin> set (d_fixed ops n x))"

lemma field_lead_tidy [simp]:
  "CHR 0x22 \<notin> set v \<Longrightarrow> CHR 0x22 \<notin> set (field_lead v)" "CHR '' '' \<in> set (field_lead v)"
  by (simp_all add: field_lead_def)

lemma entries_tidy:
  assumes "prints_no_quote ops" and "CHR 0x22 \<notin> set lead" and "\<forall>r\<in>set rs. CHR 0x22 \<notin> set (r_algo r)"
  shows "tidy (entries_pieces ops lead rs) \<and> CHR 0x22 \<notin> set (entries_tail ops lead rs)"
  using assms(2,3)
proof (induction rs arbitrary: lead)
  case Nil
  then show ?case by (simp add: tidy_def)
next
  case (Cons r rs)
  have q [simp]: "CHR 0x22 \<notin> set (d_fixed ops n x)" for n x using assms(1) by (simp add: prints_no_quote_def)
  have "CHR 0x22 \<notin> set (entry_tail ops r b)" for b by (simp add: entry_tail_def)
  with Cons have "tidy (entries_pieces ops (entry_tail ops r (rs \<noteq> [])) rs) \<and>
      CHR 0x22 \<notin> set (entries_tail ops (entry_tail ops r (rs \<noteq> [])) rs)" by simp
  with Cons.prems show ?case by (simp add: tidy_def entry_fields_def entry_rest_def)
qed

section \<open>What a comparison reads\<close>

text \<open>The text right after the needle, which the loop reads a number from.\<close>

definition throughput_text :: "string \<Rightarrow> string \<Rightarrow> string option" where
  "throughput_text content name =
     (case from_match (quoted name) content of
        None \<Rightarrow> None
      | Some s \<Rightarrow> map_option (drop (length throughput_needle)) (from_match throughput_needle s))"

lemma compare_one_eq:
  "compare_one ops content threshold r =
     (case throughput_text content (r_algo r) of
        None \<Rightarrow> Inr True
      | Some s \<Rightarrow> and_then (stoi (take 10 s)) (\<lambda>baseline.
          Inr (\<not> d_of_int ops threshold < throughput_drop ops baseline (r_throughput r))))"
proof -
  have "and_then (and_then m (\<lambda>b. Inr (BaselineOf b))) (\<lambda>hit. Inr (result_passes ops threshold r hit)) =
      and_then m (\<lambda>b. Inr (\<not> d_of_int ops threshold < throughput_drop ops b (r_throughput r)))" for m :: "int throws"
    by (cases m) (simp_all add: result_passes_def)
  then show ?thesis
    by (auto simp: compare_one_def baseline_lookup_def result_passes_def throughput_text_def from_match_def str_find_def
      add.commute add.left_commute split: option.splits)
qed

definition entry_keys :: "string list" where
  "entry_keys = [''completed'', ''errors'', ''error_pct'', ''throughput_per_sec'', ''peak_connections'',
     ''bytes_received'', ''avg_ms'', ''min_ms'', ''p50_ms'', ''p95_ms'', ''p99_ms'', ''max_ms'']"

definition header_keys :: "string list" where
  "header_keys = [''timestamp'', ''binary'', ''concurrency'', ''requests'', ''services'', ''results'']"

text \<open>A name that can be searched for: it is none of the keys, and has neither quotes nor spaces.\<close>

definition searchable :: "string \<Rightarrow> bool" where
  "searchable name \<longleftrightarrow>
     CHR 0x22 \<notin> set name \<and> CHR '' '' \<notin> set name \<and> name \<notin> set entry_keys \<and> name \<notin> set header_keys"

text \<open>Skipping many pieces, none of which is the name.\<close>

lemma from_match_join_skips:
  assumes "CHR 0x22 \<notin> set name" and "CHR '' '' \<notin> set name" and "tidy (ps @ qs)" and "CHR 0x22 \<notin> set tail"
    and "name \<notin> snd ` set ps"
  shows "from_match (quoted name @ suf) (join (ps @ qs) tail) = from_match (quoted name @ suf) (join qs tail)"
  using assms(3,5)
proof (induction ps)
  case Nil
  then show ?case by simp
next
  case (Cons p ps)
  obtain raw word where p: "p = (raw, word)" by (cases p)
  from Cons.prems p have "CHR 0x22 \<notin> set raw" "CHR 0x22 \<notin> set word" "word \<noteq> name" "tidy (ps @ qs)"
    by (auto simp: tidy_def)
  with from_match_join_skip [OF assms(1,2) this assms(4)] Cons p show ?case by auto
qed

lemma throughput_entries:
  assumes name: "searchable name" and ops: "prints_no_quote ops" and rs: "\<forall>r\<in>set rs. CHR 0x22 \<notin> set (r_algo r)"
    and "CHR 0x22 \<notin> set lead" and tail: "CHR 0x22 \<notin> set tail"
  shows "case find (\<lambda>r. r_algo r = name) rs of
      None \<Rightarrow> throughput_text (join (entries_pieces ops lead rs) (entries_tail ops lead rs @ tail)) name = None
    | Some r \<Rightarrow> \<exists>rest. throughput_text (join (entries_pieces ops lead rs) (entries_tail ops lead rs @ tail)) name =
        Some (int_to_string (r_throughput r) @ '','' @ rest)"
  using rs assms(4)
proof (induction rs arbitrary: lead)
  case Nil
  then show ?case using tail from_match_tail [of "lead @ tail" name "[]"] by (simp add: throughput_text_def)
next
  case (Cons r rs)
  have n: "CHR 0x22 \<notin> set name" "CHR '' '' \<notin> set name" "name \<notin> set entry_keys" using name by (simp_all add: searchable_def)
  have q [simp]: "CHR 0x22 \<notin> set (d_fixed ops n x)" for n x using ops by (simp add: prints_no_quote_def)
  let ?lead = "entry_tail ops r (rs \<noteq> [])"
  have l: "CHR 0x22 \<notin> set ?lead" by (simp add: entry_tail_def)
  let ?ps = "entries_pieces ops ?lead rs" and ?tail = "entries_tail ops ?lead rs @ tail"
  have t: "tidy ?ps" "CHR 0x22 \<notin> set ?tail" using entries_tidy [OF ops l] Cons.prems(1) tail by simp_all
  have whole: "join (entries_pieces ops lead (r # rs)) (entries_tail ops lead (r # rs) @ tail) =
      join ((lead @ ''    '', r_algo r) # (entry_fields r @ entry_rest ops r @ ?ps)) ?tail" by simp
  have fields: "tidy (entry_fields r)" "tidy (entry_rest ops r)" by (simp_all add: tidy_def entry_fields_def entry_rest_def)
  then have rest: "tidy (entry_fields r @ entry_rest ops r @ ?ps)" using t(1) by (auto simp: tidy_def)
  show ?case
  proof (cases "r_algo r = name")
    case False
    let ?mine = "(lead @ ''    '', r_algo r) # entry_fields r @ entry_rest ops r"
    have "name \<notin> snd ` set ?mine" using False n(3) by (auto simp: entry_fields_def entry_rest_def entry_keys_def)
    moreover have "tidy (?mine @ ?ps)" using rest Cons.prems by (auto simp: tidy_def)
    ultimately have "from_match (quoted name) (join (?mine @ ?ps) ?tail) = from_match (quoted name) (join ?ps ?tail)"
      using from_match_join_skips [OF n(1,2) _ t(2), of ?mine ?ps "[]"] by simp
    then have skip: "throughput_text (join (entries_pieces ops lead (r # rs)) (entries_tail ops lead (r # rs) @ tail)) name =
        throughput_text (join ?ps ?tail) name"
      unfolding whole by (simp add: throughput_text_def)
    show ?thesis unfolding skip using Cons.IH [of ?lead] Cons.prems(1) l False by simp
  next
    case True
    have "from_match (quoted name) (join ((lead @ ''    '', name) # (entry_fields r @ entry_rest ops r @ ?ps)) ?tail) =
        Some (quoted name @ join (entry_fields r @ entry_rest ops r @ ?ps) ?tail)"
      using from_match_join_hit [of "lead @ ''    ''" "[]" "entry_fields r @ entry_rest ops r @ ?ps" ?tail name]
        Cons.prems(2) by (simp add: starts_with_def)
    moreover have "from_match throughput_needle (quoted name @ join (entry_fields r @ entry_rest ops r @ ?ps) ?tail) =
        Some (quoted ''throughput_per_sec'' @ join (entry_rest ops r @ ?ps) ?tail)"
    proof -
      let ?a = "([], name) # take 3 (entry_fields r)"
        and ?b = "(field_lead (int_to_string (error_pct r)), ''throughput_per_sec'') # entry_rest ops r @ ?ps"
      have e: "take 3 (entry_fields r) @ ?b = entry_fields r @ entry_rest ops r @ ?ps" by (simp add: entry_fields_def)
      have "tidy (take 3 (entry_fields r) @ ?b)" unfolding e by (rule rest)
      have "quoted name @ join (entry_fields r @ entry_rest ops r @ ?ps) ?tail = join (([], name) # take 3 (entry_fields r) @ ?b) ?tail"
        unfolding e by simp
      then have "from_match throughput_needle (quoted name @ join (entry_fields r @ entry_rest ops r @ ?ps) ?tail) =
          from_match throughput_needle (join (take 3 (entry_fields r) @ ?b) ?tail)"
        using from_match_join_skip [of "''throughput_per_sec''" "[]" name "take 3 (entry_fields r) @ ?b" ?tail "'': ''"]
          n t(2) \<open>tidy (take 3 (entry_fields r) @ ?b)\<close> by (auto simp: throughput_needle_def entry_keys_def)
      also have "\<dots> = from_match throughput_needle (join ?b ?tail)"
        using from_match_join_skips [of "''throughput_per_sec''" "take 3 (entry_fields r)" ?b ?tail "'': ''"]
          t(2) \<open>tidy (take 3 (entry_fields r) @ ?b)\<close> by (simp add: throughput_needle_def entry_fields_def)
      also have "\<dots> = Some (quoted ''throughput_per_sec'' @ join (entry_rest ops r @ ?ps) ?tail)"
        unfolding throughput_needle_def
        by (rule from_match_join_hit) (simp_all add: entry_rest_def field_lead_def starts_with_def)
      finally show ?thesis .
    qed
    ultimately have "throughput_text (join ((lead @ ''    '', name) # (entry_fields r @ entry_rest ops r @ ?ps)) ?tail) name =
        Some (drop (length throughput_needle) (quoted ''throughput_per_sec'' @ join (entry_rest ops r @ ?ps) ?tail))"
      by (simp add: throughput_text_def)
    also have "\<dots> = Some (int_to_string (r_throughput r) @ '','' @
        drop 1 ('','' @ newline @ ''      '' @ quoted ''peak_connections'' @ join (tl (entry_rest ops r) @ ?ps) ?tail))"
      by (simp add: throughput_needle_def quoted_def entry_rest_def field_lead_def)
    finally show ?thesis unfolding whole True using True by auto
  qed
qed

text \<open>A saved throughput is read back, whatever follows it.\<close>

lemma stoi_throughput:
  assumes "0 \<le> n" and "n < 2 ^ 31"
  shows "stoi (take 10 (int_to_string n @ '','' @ rest)) = Inr n"
proof -
  have "length (int_to_string n) \<le> 10"
    using assms to_decimal_length_le [of "nat n" 10] by (simp add: int_to_string_def nat_less_iff)
  moreover have "takeWhile is_digit (take k ('','' @ rest)) = []" for k
  proof -
    have "\<not> is_digit (CHR '','')" by code_simp
    then show ?thesis by (cases k) simp_all
  qed
  ultimately show ?thesis using stoi_int_to_string [of n] assms by simp
qed

lemma header_tidy:
  assumes "CHR 0x22 \<notin> set ts" and "CHR 0x22 \<notin> set (b_lbBinary cfg)"
  shows "tidy (header_pieces ts cfg)"
  using assms by (simp add: tidy_def header_pieces_def)

definition names_ok :: "string \<Rightarrow> BenchConfig \<Rightarrow> 'd AlgoResult list \<Rightarrow> bool" where
  "names_ok ts cfg saved \<longleftrightarrow> CHR 0x22 \<notin> set ts \<and> CHR 0x22 \<notin> set (b_lbBinary cfg) \<and>
     (\<forall>r\<in>set saved. CHR 0x22 \<notin> set (r_algo r) \<and> 0 \<le> r_throughput r \<and> r_throughput r < 2 ^ 31)"

lemma throughput_saved:
  assumes ops: "prints_no_quote ops" and ok: "names_ok ts cfg saved" and name: "searchable name"
    and new: "name \<noteq> ts" "name \<noteq> b_lbBinary cfg"
  shows "case find (\<lambda>r. r_algo r = name) saved of
      None \<Rightarrow> throughput_text (baseline_text ops ts cfg saved) name = None
    | Some r \<Rightarrow> \<exists>rest. throughput_text (baseline_text ops ts cfg saved) name =
        Some (int_to_string (r_throughput r) @ '','' @ rest)"
proof -
  let ?ps = "entries_pieces ops results_lead saved"
  let ?final = "''  }'' @ newline @ ''}'' @ newline"
  let ?tail = "entries_tail ops results_lead saved @ ?final"
  have lead: "CHR 0x22 \<notin> set results_lead" by (simp add: results_lead_def)
  have rs: "\<forall>r\<in>set saved. CHR 0x22 \<notin> set (r_algo r)" using ok by (simp add: names_ok_def)
  have t: "tidy ?ps" "CHR 0x22 \<notin> set ?tail" using entries_tidy [OF ops lead rs] by simp_all
  have n: "CHR 0x22 \<notin> set name" "CHR '' '' \<notin> set name" "name \<notin> set header_keys" using name by (simp_all add: searchable_def)
  have "tidy (header_pieces ts cfg @ ?ps)" using header_tidy [of ts cfg] t(1) ok by (auto simp: names_ok_def tidy_def)
  moreover have "name \<notin> snd ` set (header_pieces ts cfg)" using n(3) new by (auto simp: header_pieces_def header_keys_def)
  ultimately have "from_match (quoted name) (join (header_pieces ts cfg @ ?ps) ?tail) = from_match (quoted name) (join ?ps ?tail)"
    using from_match_join_skips [OF n(1,2) _ t(2), of "header_pieces ts cfg" ?ps "[]"] by simp
  then have "throughput_text (baseline_text ops ts cfg saved) name = throughput_text (join ?ps ?tail) name"
    unfolding baseline_text_join throughput_text_def by (simp add: join_append)
  with throughput_entries [OF name ops rs lead, of ?final] show ?thesis by (simp only:) simp
qed

text \<open>What a comparison is meant to say of one result.\<close>

definition within_threshold :: "'d::linorder double_ops \<Rightarrow> int \<Rightarrow> 'd AlgoResult list \<Rightarrow> 'd AlgoResult \<Rightarrow> bool" where
  "within_threshold ops threshold saved r \<longleftrightarrow>
     (case find (\<lambda>s. r_algo s = r_algo r) saved of
        None \<Rightarrow> True
      | Some s \<Rightarrow> \<not> d_of_int ops threshold < throughput_drop ops (r_throughput s) (r_throughput r))"

lemma compare_one_saved:
  assumes "prints_no_quote ops" and "names_ok ts cfg saved" and "searchable (r_algo r)"
    and "r_algo r \<noteq> ts" and "r_algo r \<noteq> b_lbBinary cfg"
  shows "compare_one ops (baseline_text ops ts cfg saved) threshold r = Inr (within_threshold ops threshold saved r)"
proof (cases "find (\<lambda>s. r_algo s = r_algo r) saved")
  case None
  with throughput_saved [OF assms] show ?thesis by (simp add: compare_one_eq within_threshold_def)
next
  case (Some s)
  with throughput_saved [OF assms] obtain rest where
    "throughput_text (baseline_text ops ts cfg saved) (r_algo r) = Some (int_to_string (r_throughput s) @ '','' @ rest)"
    by auto
  moreover have "0 \<le> r_throughput s" "r_throughput s < 2 ^ 31"
    using Some assms(2) by (auto simp: names_ok_def find_Some_iff)
  ultimately show ?thesis using stoi_throughput [of "r_throughput s" rest] Some
    by (simp add: compare_one_eq within_threshold_def)
qed

lemma compare_results_saved:
  assumes "\<forall>r\<in>set current. compare_one ops content threshold r = Inr (P r)"
  shows "compare_results ops content threshold current b = Inr (b \<and> (\<forall>r\<in>set current. P r))"
  using assms by (induction current arbitrary: b) auto

section \<open>Properties\<close>

text \<open>Names the driver gives its results are searchable.\<close>

lemma algos_searchable: "name \<in> set (bench_algos cfg) \<Longrightarrow> searchable name"
  by (auto simp: bench_algos_def searchable_def entry_keys_def header_keys_def split: if_splits)

text \<open>
  C35: comparing with a saved baseline is exact. The text scan finds, for each current result, the
  throughput that was saved for the same algorithm and nothing else, so the comparison passes
  exactly when no algorithm present in both has dropped by more than the threshold. It presumes that
  the file holds what was written, and that neither the binary nor the time stamp contains a quote
  or is the name of an algorithm.
\<close>

theorem compare_with_saved_baseline:
  assumes "prints_no_quote ops" and "names_ok ts cfg saved"
    and "SaveBaseline ops os ts cfg saved files = Inr files'" and "\<And>file content. stored os file content = content"
    and "b_baselineFile cfg' = b_baselineFile cfg"
    and "\<forall>r\<in>set current. searchable (r_algo r) \<and> r_algo r \<noteq> ts \<and> r_algo r \<noteq> b_lbBinary cfg"
  shows "CompareBaseline ops files' cfg' current =
    Inr (\<forall>r\<in>set current. within_threshold ops (b_thresholdPct cfg') saved r)"
proof -
  have "files' (b_baselineFile cfg) = Some (baseline_text ops ts cfg saved)"
    using assms(3,4) by (auto simp: SaveBaseline_def Die_def split: if_splits)
  moreover have "\<forall>r\<in>set current. compare_one ops (baseline_text ops ts cfg saved) (b_thresholdPct cfg') r =
      Inr (within_threshold ops (b_thresholdPct cfg') saved r)"
    using compare_one_saved [OF assms(1,2)] assms(6) by blast
  ultimately show ?thesis
    using compare_results_saved [of current ops "baseline_text ops ts cfg saved" "b_thresholdPct cfg'"
        "within_threshold ops (b_thresholdPct cfg') saved"] assms(5)
    by (simp add: CompareBaseline_def)
qed

text \<open>Exact arithmetic, printed with as many digits as asked for.\<close>

definition exact_ops :: "rat double_ops" where
  "exact_ops =
     \<lparr>d_of_int = of_int, d_add = (+), d_sub = (-), d_mul = (*), d_div = (/), d_trunc = floor,
      d_fixed = (\<lambda>n x. int_to_string (\<lfloor>x\<rfloor>) @
        (if n = 0 then [] else ''.'' @ map (\<lambda>i. digit_char (nat (\<lfloor>10 ^ i * x\<rfloor> mod 10))) [1..<n + 1]))\<rparr>"

definition demo_result :: "string \<Rightarrow> int \<Rightarrow> rat AlgoResult" where
  "demo_result name throughput = (AlgoResult_default exact_ops)\<lparr>r_algo := name, r_throughput := throughput\<rparr>"

definition demo_os :: "string os" where
  "demo_os = \<lparr>mkdirs_ok = (\<lambda>_. True), open_ok = (\<lambda>_. True), stored = (\<lambda>_ text. text)\<rparr>"

lemma exact_ops_prints: "prints_no_quote exact_ops"
proof -
  have "\<not> is_digit (CHR 0x22)" by code_simp
  then have "digit_char (nat (k mod 10)) \<noteq> CHR 0x22" for k :: int
    using is_digit_char [of "nat (k mod 10)"] by (metis nat_less_iff pos_mod_bound pos_mod_sign zero_less_numeral nat_numeral of_nat_numeral)
  then show ?thesis unfolding prints_no_quote_def by (auto simp: exact_ops_def split: if_splits) (metis)+
qed

text \<open>1000 and 2000 per second were saved; a drop by 16 percent fails at a threshold of 15.\<close>

theorem compare_with_saved_baseline_witness:
  "\<exists>files'. SaveBaseline exact_ops demo_os ''20250101'' (BenchConfig_default\<lparr>b_lbBinary := ''lb''\<rparr>)
       [demo_result ''p2c'' 1000, demo_result ''consistent-hash'' 2000] Map.empty = Inr files' \<and>
     CompareBaseline exact_ops files' BenchConfig_default
       [demo_result ''consistent-hash'' 1800, demo_result ''p2c'' 840] = Inr False \<and>
     CompareBaseline exact_ops files' BenchConfig_default [demo_result ''consistent-hash'' 1800] = Inr True"
proof -
  let ?cfg = "BenchConfig_default\<lparr>b_lbBinary := ''lb''\<rparr>"
    and ?saved = "[demo_result ''p2c'' 1000, demo_result ''consistent-hash'' 2000]"
  obtain files' where f: "SaveBaseline exact_ops demo_os ''20250101'' ?cfg ?saved Map.empty = Inr files'"
    by (simp add: SaveBaseline_def demo_os_def demo_result_def AlgoResult_default_def error_pct_defined_def Let_def)
  have ok: "names_ok ''20250101'' ?cfg ?saved" by (simp add: names_ok_def demo_result_def)
  have s: "stored demo_os f content = content" for f content by (simp add: demo_os_def)
  have path: "b_baselineFile BenchConfig_default = b_baselineFile ?cfg" by simp
  have cmp: "CompareBaseline exact_ops files' BenchConfig_default current =
      Inr (\<forall>r\<in>set current. within_threshold exact_ops 15 ?saved r)"
    if "\<forall>r\<in>set current. r_algo r = ''p2c'' \<or> r_algo r = ''consistent-hash''" for current
  proof -
    have "searchable ''p2c''" "searchable ''consistent-hash''" by (simp_all add: searchable_def entry_keys_def header_keys_def)
    with that have "\<forall>r\<in>set current. searchable (r_algo r) \<and> r_algo r \<noteq> ''20250101'' \<and> r_algo r \<noteq> b_lbBinary ?cfg"
      by (auto simp: BenchConfig_default_def)
    from compare_with_saved_baseline [OF exact_ops_prints ok f s path this] show ?thesis
      by (simp add: BenchConfig_default_def)
  qed
  show ?thesis
    using f cmp by (auto simp: demo_result_def within_threshold_def throughput_drop_def exact_ops_def)
qed

end
