(* ===== verification/Bench_Process.thy ===== *)
theory Bench_Process
  imports Bench_Args Yaml_Serializer
begin

text \<open>
  \<open>bench/main.cpp\<close>: the balancer processes the driver starts and stops (\<open>StartLb\<close>, \<open>StopLb\<close>). A
  computation of the driver has the files on disk, the list of its children and what was printed as
  its state, which stays as it is when the computation dies or throws: nothing kills a child then.
\<close>

section \<open>The driver's state\<close>

text \<open>
  A child runs what \<open>execlp\<close> loaded (with the configuration it was given), or has ended with a status.
  \<open>ch_quiet\<close>: its output goes to \<open>/dev/null\<close>.
\<close>

datatype child_image = Executes string string | ChildExited nat

record child =
  ch_pid :: int
  ch_image :: child_image
  ch_quiet :: bool

record driver =
  dr_files :: "string files"
  dr_children :: "child list"
  dr_out :: string
  dr_err :: string

type_synonym 'a run = "driver \<Rightarrow> 'a bench \<times> driver"

definition run_return :: "'a \<Rightarrow> 'a run" where
  "run_return v d = (Inr v, d)"

definition run_bind :: "'a run \<Rightarrow> ('a \<Rightarrow> 'b run) \<Rightarrow> 'b run" where
  "run_bind m k d = (case m d of (Inl e, d') \<Rightarrow> (Inl e, d') | (Inr v, d') \<Rightarrow> k v d')"

text \<open>Computations that leave the state alone, and those on the files.\<close>

definition run_of :: "'a bench \<Rightarrow> 'a run" where
  "run_of m d = (m, d)"

definition files_run :: "(string files \<Rightarrow> ('a \<times> string files) bench) \<Rightarrow> 'a run" where
  "files_run m d = (case m (dr_files d) of
     Inl e \<Rightarrow> (Inl e, d) | Inr (v, files) \<Rightarrow> (Inr v, d\<lparr>dr_files := files\<rparr>))"

text \<open>Printing on the standard output and the standard error.\<close>

definition say :: "string \<Rightarrow> unit run" where
  "say s d = (Inr (), d\<lparr>dr_out := dr_out d @ s\<rparr>)"

definition say_err :: "string \<Rightarrow> unit run" where
  "say_err s d = (Inr (), d\<lparr>dr_err := dr_err d @ s\<rparr>)"

section \<open>Starting and stopping a balancer\<close>

text \<open>The child's side of \<open>fork\<close>: \<open>devnull\<close> could be opened or not, \<open>execs\<close>: \<open>execlp\<close> did not return.\<close>

definition child_side :: "bool \<Rightarrow> bool \<Rightarrow> string \<Rightarrow> string \<Rightarrow> int \<Rightarrow> child" where
  "child_side devnull execs binary config pid =
     \<lparr>ch_pid = pid, ch_image = (if execs then Executes binary config else ChildExited 1), ch_quiet = devnull\<rparr>"

text \<open>\<open>pid\<close> is what \<open>fork\<close> answers to the parent.\<close>

definition StartLb :: "int \<Rightarrow> bool \<Rightarrow> bool \<Rightarrow> string \<Rightarrow> string \<Rightarrow> int run" where
  "StartLb pid devnull execs binary config =
     (if pid < 0 then run_of (Die ''fork failed'')
      else (\<lambda>d. (Inr pid, d\<lparr>dr_children := dr_children d @ [child_side devnull execs binary config pid]\<rparr>)))"

text \<open>
  After \<open>SIGTERM\<close>, \<open>waitpid\<close> returns when the child has ended; \<open>ends\<close>: a child that runs does so.
\<close>

definition child_ends :: "bool \<Rightarrow> child \<Rightarrow> bool" where
  "child_ends ends c \<longleftrightarrow> (case ch_image c of Executes binary config \<Rightarrow> ends | ChildExited status \<Rightarrow> True)"

definition StopLb :: "bool \<Rightarrow> int \<Rightarrow> unit run" where
  "StopLb ends pid d =
     (if pid \<le> 0 then (Inr (), d)
      else if \<forall>c\<in>set (dr_children d). ch_pid c = pid \<longrightarrow> child_ends ends c
      then (Inr (), d\<lparr>dr_children := filter (\<lambda>c. ch_pid c \<noteq> pid) (dr_children d)\<rparr>)
      else (Inl Hangs, d))"

section \<open>Lemmas\<close>

lemma run_bind_eq_Inr_iff:
  "run_bind m k d = (Inr w, d') \<longleftrightarrow> (\<exists>v d1. m d = (Inr v, d1) \<and> k v d1 = (Inr w, d'))"
  by (cases "m d") (auto simp: run_bind_def split: sum.splits)

lemma run_bind_eq_Inl_iff:
  "run_bind m k d = (Inl e, d') \<longleftrightarrow>
     m d = (Inl e, d') \<or> (\<exists>v d1. m d = (Inr v, d1) \<and> k v d1 = (Inl e, d'))"
  by (cases "m d") (auto simp: run_bind_def split: sum.splits)

lemma run_simps [simp]:
  "run_return v d = (Inr w, d') \<longleftrightarrow> v = w \<and> d = d'"
  "run_return v d = (Inl e, d') \<longleftrightarrow> False"
  "run_of m d = (r, d') \<longleftrightarrow> m = r \<and> d = d'"
  "say s d = (u, d') \<longleftrightarrow> u = Inr () \<and> d' = d\<lparr>dr_out := dr_out d @ s\<rparr>"
  "say_err s d = (u, d') \<longleftrightarrow> u = Inr () \<and> d' = d\<lparr>dr_err := dr_err d @ s\<rparr>"
  by (auto simp: run_return_def run_of_def say_def say_err_def)

lemma run_bind_say [simp]:
  "run_bind (say s) k d = k () (d\<lparr>dr_out := dr_out d @ s\<rparr>)"
  "run_bind (say_err s) k d = k () (d\<lparr>dr_err := dr_err d @ s\<rparr>)"
  by (simp_all add: run_bind_def say_def say_err_def)

text \<open>Files and output come and go without a child being started or stopped.\<close>

definition keeps_children :: "'a run \<Rightarrow> bool" where
  "keeps_children m \<longleftrightarrow> (\<forall>d r d'. m d = (r, d') \<longrightarrow> dr_children d' = dr_children d)"

lemma keeps_childrenD: "keeps_children m \<Longrightarrow> m d = (r, d') \<Longrightarrow> dr_children d' = dr_children d"
  by (simp add: keeps_children_def)

lemma keeps_children_basic [simp]:
  "keeps_children (run_return v)" "keeps_children (run_of m)" "keeps_children (say s)" "keeps_children (say_err s)"
  by (auto simp: keeps_children_def run_return_def)

lemma keeps_children_files_run [simp]: "keeps_children (files_run m)"
  by (auto simp: keeps_children_def files_run_def split: sum.splits prod.splits)

lemma keeps_children_bind [intro]:
  assumes "keeps_children m" and "\<And>v. keeps_children (k v)"
  shows "keeps_children (run_bind m k)"
  using assms unfolding keeps_children_def run_bind_def by (fastforce split: sum.splits prod.splits)

lemma files_run_eq_Inr_iff:
  "files_run m d = (Inr v, d') \<longleftrightarrow> (\<exists>files. m (dr_files d) = Inr (v, files) \<and> d' = d\<lparr>dr_files := files\<rparr>)"
  by (auto simp: files_run_def split: sum.splits prod.splits)

lemma StartLb_eq_Inr_iff:
  "StartLb pid devnull execs binary config d = (Inr v, d') \<longleftrightarrow>
     0 \<le> pid \<and> v = pid \<and> d' = d\<lparr>dr_children := dr_children d @ [child_side devnull execs binary config pid]\<rparr>"
  by (auto simp: StartLb_def Die_def)

lemma StartLb_Inl: "StartLb pid devnull execs binary config d = (Inl e, d') \<Longrightarrow> d' = d \<and> e = ExitStatus 1 (error_line ''fork failed'')"
  by (auto simp: StartLb_def Die_def split: if_splits)

text \<open>Only a child that runs on keeps \<open>StopLb\<close> from returning.\<close>

lemma StopLb_own:
  assumes "0 < pid" and "dr_children d = [c]" and "ch_pid c = pid"
  shows "StopLb ends pid d = (if child_ends ends c then (Inr (), d\<lparr>dr_children := []\<rparr>) else (Inl Hangs, d))"
  using assms by (auto simp: StopLb_def)

end
