(* ===== verification/Bench_Console.thy ===== *)
theory Bench_Console
  imports Bench_Baseline Bench_Process
begin

text \<open>
  \<open>bench/main.cpp\<close>: the lines the driver prints while it runs (\<open>Log\<close>, \<open>Success\<close>, \<open>Header\<close>) and
  those of \<open>CompareBaseline\<close>. Characters outside ASCII are written as their UTF-8 bytes.
\<close>

section \<open>Lines\<close>

definition k_ansiCyan :: string where
  "k_ansiCyan = CHR 0x1B # ''[0;36m''"

definition k_ansiGreen :: string where
  "k_ansiGreen = CHR 0x1B # ''[0;32m''"

definition k_ansiBoldYel :: string where
  "k_ansiBoldYel = CHR 0x1B # ''[1;33m''"

definition k_ansiBold :: string where
  "k_ansiBold = CHR 0x1B # ''[1m''"

definition arrow :: string where
  "arrow = [CHR 0xE2, CHR 0x86, CHR 0x92]"

definition check_mark :: string where
  "check_mark = [CHR 0xE2, CHR 0x9C, CHR 0x93]"

definition em_dash :: string where
  "em_dash = [CHR 0xE2, CHR 0x80, CHR 0x94]"

definition en_dash :: string where
  "en_dash = [CHR 0xE2, CHR 0x80, CHR 0x93]"

definition big_delta :: string where
  "big_delta = [CHR 0xCE, CHR 0x94]"

text \<open>Horizontal lines of box-drawing characters.\<close>

definition box_line :: "nat \<Rightarrow> string" where
  "box_line n = concat (replicate n [CHR 0xE2, CHR 0x94, CHR 0x80])"

definition double_line :: "nat \<Rightarrow> string" where
  "double_line n = concat (replicate n [CHR 0xE2, CHR 0x95, CHR 0x90])"

definition Log :: "string \<Rightarrow> string" where
  "Log msg = println (k_ansiCyan @ ''[bench]'' @ k_ansiReset @ '' '' @ msg)"

definition Success :: "string \<Rightarrow> string" where
  "Success msg = println (k_ansiGreen @ ''['' @ check_mark @ '']'' @ k_ansiReset @ '' '' @ msg)"

definition Header :: "string \<Rightarrow> string" where
  "Header msg = println (newline @ k_ansiBold @ k_ansiBoldYel @ msg @ k_ansiReset)"

definition warn_line :: "string \<Rightarrow> string" where
  "warn_line msg = println (k_ansiBoldYel @ ''[warn]'' @ k_ansiReset @ '' '' @ msg)"

definition fail_line :: "string \<Rightarrow> string" where
  "fail_line msg = println (k_ansiRed @ ''[FAIL]'' @ k_ansiReset @ '' '' @ msg)"

section \<open>What a comparison prints\<close>

datatype message = ToOut string | ToErr string

text \<open>One round of the loop.\<close>

definition compare_message :: "'d::linorder double_ops \<Rightarrow> int \<Rightarrow> 'd AlgoResult \<Rightarrow> baseline_hit \<Rightarrow> message list" where
  "compare_message ops threshold r hit = (case hit of
     NotInBaseline \<Rightarrow> [ToOut (warn_line (r_algo r @ '' not in baseline '' @ em_dash @ '' skipping''))]
   | NoThroughput \<Rightarrow> []
   | BaselineOf baseline \<Rightarrow>
       let percent = d_fixed ops 0 (throughput_drop ops baseline (r_throughput r)) in
       if \<not> result_passes ops threshold r hit
       then [ToErr (fail_line (r_algo r @ '' throughput regression: '' @ int_to_string baseline @ ''/s '' @ arrow @ '' '' @
              int_to_string (r_throughput r) @ ''/s ('' @ percent @ ''% drop, threshold '' @ int_to_string threshold @ ''%)''))]
       else [ToOut (Success (r_algo r @ '' throughput OK: '' @ int_to_string (r_throughput r) @ ''/s (baseline '' @
              int_to_string baseline @ ''/s, '' @ big_delta @ '' '' @ percent @ ''%)''))])"

text \<open>The loop, up to the first exception.\<close>

fun compare_messages :: "'d::linorder double_ops \<Rightarrow> string \<Rightarrow> int \<Rightarrow> 'd AlgoResult list \<Rightarrow> message list" where
  "compare_messages ops content threshold [] = []"
| "compare_messages ops content threshold (r # rs) =
     (case baseline_lookup content (r_algo r) of
        Inl e \<Rightarrow> []
      | Inr hit \<Rightarrow> compare_message ops threshold r hit @ compare_messages ops content threshold rs)"

definition CompareBaseline_messages ::
    "'d::linorder double_ops \<Rightarrow> string files \<Rightarrow> BenchConfig \<Rightarrow> 'd AlgoResult list \<Rightarrow> message list" where
  "CompareBaseline_messages ops files cfg current =
     (case files (b_baselineFile cfg) of
        None \<Rightarrow> [ToOut (warn_line (''No baseline at '' @ b_baselineFile cfg @ '' '' @ em_dash @ '' skipping comparison''))]
      | Some content \<Rightarrow> compare_messages ops content (b_thresholdPct cfg) current)"

section \<open>Printing messages\<close>

fun out_text :: "message list \<Rightarrow> string" where
  "out_text [] = []"
| "out_text (ToOut s # ms) = s @ out_text ms"
| "out_text (ToErr s # ms) = out_text ms"

fun err_text :: "message list \<Rightarrow> string" where
  "err_text [] = []"
| "err_text (ToOut s # ms) = err_text ms"
| "err_text (ToErr s # ms) = s @ err_text ms"

fun print_messages :: "message list \<Rightarrow> unit run" where
  "print_messages [] = run_return ()"
| "print_messages (ToOut s # ms) = run_bind (say s) (\<lambda>_. print_messages ms)"
| "print_messages (ToErr s # ms) = run_bind (say_err s) (\<lambda>_. print_messages ms)"

section \<open>Lemmas\<close>

lemma print_messages_eq [simp]:
  "print_messages ms d = (Inr (), d\<lparr>dr_out := dr_out d @ out_text ms, dr_err := dr_err d @ err_text ms\<rparr>)"
  by (induction ms arbitrary: d rule: print_messages.induct) (simp_all add: run_return_def)

lemma keeps_children_print_messages [simp]: "keeps_children (print_messages ms)"
  by (simp add: keeps_children_def)

lemma out_text_append [simp]: "out_text (ms @ ns) = out_text ms @ out_text ns"
  by (induction ms rule: out_text.induct) simp_all

lemma err_text_append [simp]: "err_text (ms @ ns) = err_text ms @ err_text ns"
  by (induction ms rule: err_text.induct) simp_all

lemma fail_line_not_Nil [simp]: "fail_line msg \<noteq> []"
  by (simp add: fail_line_def println_def newline_def)

text \<open>A round that fails prints on the standard error, and no other does.\<close>

lemma compare_message_err [simp]:
  "err_text (compare_message ops threshold r hit) = [] \<longleftrightarrow> result_passes ops threshold r hit"
  by (cases hit) (simp_all add: compare_message_def result_passes_def Let_def)

lemma compare_messages_err:
  "compare_results ops content threshold rs allPassed = Inr passed \<Longrightarrow>
   passed \<longleftrightarrow> allPassed \<and> err_text (compare_messages ops content threshold rs) = []"
proof (induction rs arbitrary: allPassed)
  case Nil
  then show ?case by simp
next
  case (Cons r rs)
  then show ?case
    by (cases "baseline_lookup content (r_algo r)") (auto simp: compare_one_def)
qed

text \<open>The verdict and what is printed agree.\<close>

lemma CompareBaseline_verdict_printed:
  assumes "CompareBaseline ops files cfg current = Inr passed"
  shows "passed \<longleftrightarrow> err_text (CompareBaseline_messages ops files cfg current) = []"
  using assms compare_messages_err
  by (fastforce simp: CompareBaseline_def CompareBaseline_messages_def split: option.splits)

end
