(* ===== verification/Bench_Report.thy ===== *)
theory Bench_Report
  imports Bench_Console
begin

text \<open>
  \<open>bench/main.cpp\<close>: the table \<open>PrintResult\<close> prints for an algorithm and the line \<open>main\<close> prints in the
  summary, as the text written to the standard output.
\<close>

section \<open>Text layout\<close>

text \<open>\<open>{:<n}\<close> and \<open>{:>n}\<close>.\<close>

definition pad_right :: "nat \<Rightarrow> string \<Rightarrow> string" where
  "pad_right n s = s @ replicate (n - length s) (CHR '' '')"

definition pad_left :: "nat \<Rightarrow> string \<Rightarrow> string" where
  "pad_left n s = replicate (n - length s) (CHR '' '') @ s"

text \<open>The horizontal rule over the two columns.\<close>

definition table_rule :: string where
  "table_rule = ''  '' @ box_line 22 @ ''  '' @ box_line 12"

text \<open>A row: the label, the value in its width, and a unit.\<close>

definition table_row :: "string \<Rightarrow> nat \<Rightarrow> string \<Rightarrow> string \<Rightarrow> string" where
  "table_row label n value unit = ''  '' @ pad_right 22 label @ '' '' @ pad_left n value @ unit"

section \<open>The reports\<close>

text \<open>The rows of the table: label, width, value, unit.\<close>

definition result_rows :: "'d double_ops \<Rightarrow> 'd AlgoResult \<Rightarrow> (string \<times> nat \<times> string \<times> string) list" where
  "result_rows ops r =
     (let errPct = error_pct r;
          kbReceived = d_div ops (d_of_int ops (r_bytesReceived r)) (d_of_int ops 1024)
      in [(''Services'', 12, int_to_string (r_backendCount r) @ '' healthy'', ''''),
          (''Completed'', 12, int_to_string (r_completed r), ''''),
          (''Error rate'', 11, int_to_string errPct, ''%''),
          (''Peak connections'', 12, int_to_string (r_peakConnections r), ''''),
          (''Throughput'', 10, int_to_string (r_throughput r), ''/s''),
          (''Data received'', 9, d_fixed ops 1 kbReceived, '' KB''),
          (''Avg latency'', 9, d_fixed ops 1 (r_avgMs r), '' ms''),
          (''Min latency'', 9, d_fixed ops 1 (r_minMs r), '' ms''),
          (''p50 latency'', 9, d_fixed ops 1 (r_p50Ms r), '' ms''),
          (''p95 latency'', 9, d_fixed ops 1 (r_p95Ms r), '' ms''),
          (''p99 latency'', 9, d_fixed ops 1 (r_p99Ms r), '' ms''),
          (''Max latency'', 9, d_fixed ops 1 (r_maxMs r), '' ms'')])"

definition PrintResult :: "'d double_ops \<Rightarrow> 'd AlgoResult \<Rightarrow> string" where
  "PrintResult ops r =
     println (newline @ ''  '' @ k_ansiBold @ r_algo r @ k_ansiReset) @ println table_rule @
     concat (map (\<lambda>(label, n, value, unit). println (table_row label n value unit)) (result_rows ops r)) @
     println table_rule"

text \<open>The summary of \<open>main\<close>.\<close>

definition summary_line :: "'d double_ops \<Rightarrow> 'd AlgoResult \<Rightarrow> string" where
  "summary_line ops r =
     ''  '' @ pad_right 20 (r_algo r) @ ''  '' @ pad_left 6 (int_to_string (r_throughput r)) @ ''/s   p99 '' @
     pad_left 5 (d_fixed ops 1 (r_p99Ms r)) @ '' ms   errors '' @ int_to_string (error_pct r) @ ''%''"

section \<open>Lemmas\<close>

lemma length_pad [simp]:
  "length (pad_right n s) = max n (length s)" "length (pad_left n s) = max n (length s)"
  by (auto simp: pad_right_def pad_left_def)

lemma box_line_length: "length (box_line n) = 3 * n"
  by (induction n) (simp_all add: box_line_def)

text \<open>Values that fit their widths give rows of one length, as wide as the rule has characters.\<close>

lemma report_rows_aligned:
  assumes "\<forall>(label, n, value, unit)\<in>set (result_rows ops r). length value \<le> n"
  shows "\<forall>(label, n, value, unit)\<in>set (result_rows ops r). length (table_row label n value unit) = 37"
  using assms by (simp add: result_rows_def table_row_def Let_def)

end
