(* ===== verification/Echo_Service.thy ===== *)
theory Echo_Service
  imports Prelude "HOL-Library.Multiset"
begin

text \<open>
  \<open>bench/main.cpp\<close>: the mock service \<open>EchoService\<close> the balancer under test forwards to. It accepts
  connections, reads a request, waits if it is told to, and sends one fixed response.
\<close>

section \<open>The mock service\<close>

definition k_httpResponseBodyBytes :: nat where "k_httpResponseBodyBytes = 128"

definition crlf :: string where
  "crlf = [CHR 0x0D, CHR 0x0A]"

text \<open>The fixed response.\<close>

definition echo_response :: string where
  "echo_response =
     ''HTTP/1.1 200 OK'' @ crlf @ ''Content-Length: '' @ to_decimal k_httpResponseBodyBytes @ crlf @
     ''Connection: close'' @ crlf @ crlf @ replicate k_httpResponseBodyBytes (CHR ''x'')"

text \<open>The operations of an \<open>EchoService\<close> the I/O service still has to complete; a connection has a number.\<close>

datatype echo_op = EchoAccept | EchoRead nat | EchoTimer nat | EchoWrite nat

record EchoService =
  e_delayMs :: int
  e_open :: bool
  e_accepted :: nat
  e_pending :: "echo_op list"
  e_responses :: "(nat \<times> string) list"
  e_closed :: "nat list"

definition echo_initiate :: "echo_op \<Rightarrow> EchoService \<Rightarrow> EchoService" where
  "echo_initiate h svc = svc\<lparr>e_pending := e_pending svc @ [h]\<rparr>"

definition EchoService_AcceptNext :: "EchoService \<Rightarrow> EchoService" where
  "EchoService_AcceptNext svc = echo_initiate EchoAccept svc"

text \<open>The constructor throws when the port cannot be bound.\<close>

definition EchoService_new :: "bool \<Rightarrow> int \<Rightarrow> EchoService throws" where
  "EchoService_new bound delayMs =
     (if \<not> bound then Inl SystemError
      else Inr (EchoService_AcceptNext \<lparr>e_delayMs = delayMs, e_open = True, e_accepted = 0, e_pending = [], e_responses = [], e_closed = []\<rparr>))"

text \<open>The destructor closes the acceptor; an accept that is outstanding can then only fail.\<close>

definition EchoService_destroy :: "EchoService \<Rightarrow> EchoService" where
  "EchoService_destroy svc = svc\<lparr>e_open := False\<rparr>"

definition HandleConn :: "nat \<Rightarrow> EchoService \<Rightarrow> EchoService" where
  "HandleConn sock svc = echo_initiate (EchoRead sock) svc"

definition SendResponse :: "nat \<Rightarrow> EchoService \<Rightarrow> EchoService" where
  "SendResponse sock svc =
     echo_initiate (EchoWrite sock) (svc\<lparr>e_responses := e_responses svc @ [(sock, echo_response)]\<rparr>)"

definition echo_accepted :: "bool \<Rightarrow> EchoService \<Rightarrow> EchoService" where
  "echo_accepted ok svc =
     (if \<not> ok then svc
      else EchoService_AcceptNext (HandleConn (e_accepted svc) (svc\<lparr>e_accepted := e_accepted svc + 1\<rparr>)))"

definition echo_read :: "nat \<Rightarrow> bool \<Rightarrow> EchoService \<Rightarrow> EchoService" where
  "echo_read sock ok svc =
     (if \<not> ok then svc\<lparr>e_closed := e_closed svc @ [sock]\<rparr>
      else if e_delayMs svc > 0 then echo_initiate (EchoTimer sock) svc
      else SendResponse sock svc)"

definition echo_written :: "nat \<Rightarrow> EchoService \<Rightarrow> EchoService" where
  "echo_written sock svc = svc\<lparr>e_closed := e_closed svc @ [sock]\<rparr>"

definition echo_complete :: "echo_op \<Rightarrow> bool \<Rightarrow> EchoService \<Rightarrow> EchoService" where
  "echo_complete h ok svc =
     (let svc = svc\<lparr>e_pending := remove1 h (e_pending svc)\<rparr> in
      case h of
        EchoAccept \<Rightarrow> echo_accepted ok svc
      | EchoRead sock \<Rightarrow> echo_read sock ok svc
      | EchoTimer sock \<Rightarrow> SendResponse sock svc
      | EchoWrite sock \<Rightarrow> echo_written sock svc)"

inductive echo_step :: "EchoService \<Rightarrow> (echo_op \<times> bool) option \<Rightarrow> EchoService \<Rightarrow> bool" where
  echo_stepI: "h \<in> set (e_pending svc) \<Longrightarrow> (h = EchoAccept \<Longrightarrow> ok \<Longrightarrow> e_open svc) \<Longrightarrow>
    echo_step svc (Some (h, ok)) (echo_complete h ok svc)"
| echo_destroyI: "echo_step svc None (EchoService_destroy svc)"

inductive_cases echo_stepE [elim!]: "echo_step svc e svc'"

definition echo_init :: "int \<Rightarrow> EchoService \<Rightarrow> bool" where
  "echo_init delayMs svc \<longleftrightarrow> EchoService_new True delayMs = Inr svc"

section \<open>Lemmas\<close>

text \<open>
  The mock service: a connection that was accepted is read, delayed, written or closed, one at a time,
  and what is sent to it is the one response, sent once.
\<close>

fun echo_sock :: "echo_op \<Rightarrow> nat list" where
  "echo_sock EchoAccept = []"
| "echo_sock (EchoRead sock) = [sock]"
| "echo_sock (EchoTimer sock) = [sock]"
| "echo_sock (EchoWrite sock) = [sock]"

definition echo_inv :: "EchoService \<Rightarrow> bool" where
  "echo_inv svc \<longleftrightarrow>
     distinct (concat (map echo_sock (e_pending svc)) @ e_closed svc) \<and>
     set (concat (map echo_sock (e_pending svc)) @ e_closed svc) = {..<e_accepted svc} \<and>
     distinct (map fst (e_responses svc)) \<and> snd ` set (e_responses svc) \<subseteq> {echo_response} \<and>
     {sock. EchoWrite sock \<in> set (e_pending svc)} \<subseteq> fst ` set (e_responses svc) \<and>
     fst ` set (e_responses svc) \<subseteq> {sock. EchoWrite sock \<in> set (e_pending svc)} \<union> set (e_closed svc)"

lemma echo_init_inv: "echo_init delayMs svc \<Longrightarrow> echo_inv svc"
  by (auto simp: echo_init_def EchoService_new_def EchoService_AcceptNext_def echo_initiate_def echo_inv_def)

text \<open>Removing the operation that completed.\<close>

lemma echo_socks_split:
  assumes "h \<in> set ops"
  shows "mset (concat (map echo_sock ops)) = mset (echo_sock h) + mset (concat (map echo_sock (remove1 h ops)))"
  using assms by (induction ops) auto

lemma echo_complete_inv:
  assumes "echo_inv svc" and h: "h \<in> set (e_pending svc)" and c: "svc' = echo_complete h ok svc"
  shows "echo_inv svc'"
proof -
  let ?rest = "remove1 h (e_pending svc)"
  have m: "mset (concat (map echo_sock (e_pending svc)) @ e_closed svc) =
      mset (echo_sock h @ concat (map echo_sock ?rest) @ e_closed svc)" using echo_socks_split [OF h] by simp
  note i = assms(1) [unfolded echo_inv_def]
  have d: "distinct (echo_sock h @ concat (map echo_sock ?rest) @ e_closed svc)"
    using i m by (metis mset_eq_imp_distinct_iff)
  have s: "set (echo_sock h @ concat (map echo_sock ?rest) @ e_closed svc) = {..<e_accepted svc}"
    using i m by (metis mset_eq_setD)
  have w: "EchoWrite sock \<in> set ?rest \<longleftrightarrow> EchoWrite sock \<in> set (e_pending svc) \<and> h \<noteq> EchoWrite sock" for sock
  proof -
    have "EchoWrite sock \<notin> set ?rest" if "h = EchoWrite sock"
    proof
      assume "EchoWrite sock \<in> set ?rest"
      then have "sock \<in> set (concat (map echo_sock ?rest))" by force
      with d that show False by simp
    qed
    then show ?thesis by (metis in_set_remove1 notin_set_remove1)
  qed
  have fresh: "EchoWrite k \<notin> set ?rest \<and> k \<notin> set (e_closed svc)" if "k \<in> set (echo_sock h)" for k
  proof -
    have "EchoWrite k \<in> set ?rest \<Longrightarrow> k \<in> set (concat (map echo_sock ?rest))" by force
    with d that show ?thesis by auto
  qed
  have new: "k \<notin> fst ` set (e_responses svc)" if "k \<in> set (echo_sock h)" "h \<noteq> EchoWrite k" for k
    using fresh [OF that(1)] i w [of k] that(2) by blast
  have r: "distinct (map fst (e_responses svc))" "snd ` set (e_responses svc) \<subseteq> {echo_response}"
    "{sock. EchoWrite sock \<in> set ?rest} \<subseteq> fst ` set (e_responses svc)"
    using i w by blast+
  have kept: "EchoWrite k \<in> set ?rest \<or> h = EchoWrite k \<or> k \<in> set (e_closed svc)"
    if "(k, t) \<in> set (e_responses svc)" for k t
  proof -
    have "k \<in> fst ` set (e_responses svc)" using that by (rule rev_image_eqI) simp
    then show ?thesis using i w [of k] by blast
  qed
  obtain ops where ops: "?rest = ops" by blast
  note facts = d [unfolded ops] s [unfolded ops] r [unfolded ops]
  have c': "svc' = (case h of
        EchoAccept \<Rightarrow> echo_accepted ok (svc\<lparr>e_pending := ops\<rparr>)
      | EchoRead sock \<Rightarrow> echo_read sock ok (svc\<lparr>e_pending := ops\<rparr>)
      | EchoTimer sock \<Rightarrow> SendResponse sock (svc\<lparr>e_pending := ops\<rparr>)
      | EchoWrite sock \<Rightarrow> echo_written sock (svc\<lparr>e_pending := ops\<rparr>))"
    by (simp add: c echo_complete_def Let_def ops)
  note defs = echo_inv_def echo_initiate_def
  show ?thesis
  proof (cases h)
    case EchoAccept
    then show ?thesis
      unfolding c' using facts
      by (auto simp: defs echo_accepted_def HandleConn_def EchoService_AcceptNext_def dest: kept [unfolded ops])
  next
    case (EchoRead k)
    then show ?thesis
      unfolding c' using facts new [of k]
      by (auto simp: defs echo_read_def SendResponse_def dest: kept [unfolded ops])
  next
    case (EchoTimer k)
    then show ?thesis
      unfolding c' using facts new [of k]
      by (auto simp: defs SendResponse_def dest: kept [unfolded ops])
  next
    case (EchoWrite k)
    have "k \<in> fst ` set (e_responses svc)" using i h EchoWrite by blast
    with EchoWrite show ?thesis
      unfolding c' using facts
      by (auto simp: defs echo_written_def dest: kept [unfolded ops])
  qed
qed

lemma echo_step_inv: "echo_inv svc \<Longrightarrow> echo_step svc e svc' \<Longrightarrow> echo_inv svc'"
  by (auto simp: echo_complete_inv) (simp add: echo_inv_def EchoService_destroy_def)

interpretation echo: inductive_invariant "echo_init delayMs" echo_step echo_inv for delayMs
  by unfold_locales (rule echo_init_inv, assumption, rule echo_step_inv)

text \<open>A service that was destroyed accepts nothing more; the connections it has are still answered.\<close>

lemma destroyed_accepts_nothing:
  "echo_step svc e svc' \<Longrightarrow> \<not> e_open svc \<Longrightarrow> \<not> e_open svc' \<and> e_accepted svc' = e_accepted svc"
  by (auto simp: EchoService_destroy_def echo_complete_def echo_accepted_def echo_read_def echo_written_def
      SendResponse_def echo_initiate_def Let_def split: echo_op.splits if_splits)

text \<open>
  A mock service answers every connection at most once and with a well-formed response. At any
  time each connection it accepted is in exactly one stage or closed, nothing else is, no connection
  is sent two responses, each one sent is the fixed response, a response being written has been
  sent, and the body of the response has the length it announces.
\<close>

lemma mock_service_answers_once:
  assumes "reach (echo_init delayMs) echo_step svc"
  shows "distinct (concat (map echo_sock (e_pending svc)) @ e_closed svc) \<and>
    set (concat (map echo_sock (e_pending svc)) @ e_closed svc) = {..<e_accepted svc} \<and>
    distinct (map fst (e_responses svc)) \<and>
    (\<forall>sock content. (sock, content) \<in> set (e_responses svc) \<longrightarrow> sock < e_accepted svc \<and> content = echo_response) \<and>
    (\<forall>sock. EchoWrite sock \<in> set (e_pending svc) \<longrightarrow> (sock, echo_response) \<in> set (e_responses svc)) \<and>
    (\<exists>start body. echo_response = start @ ''Content-Length: '' @ to_decimal (length body) @ crlf @
       ''Connection: close'' @ crlf @ crlf @ body)"
proof -
  have i: "echo_inv svc" using assms by (rule echo.reachable_inv)
  have r: "sock < e_accepted svc \<and> content = echo_response" if "(sock, content) \<in> set (e_responses svc)" for sock content
  proof -
    have "sock \<in> fst ` set (e_responses svc)" "content \<in> snd ` set (e_responses svc)" using that by force+
    then have m: "EchoWrite sock \<in> set (e_pending svc) \<or> sock \<in> set (e_closed svc)" and c: "content = echo_response"
      using i unfolding echo_inv_def by blast+
    from m have "sock \<in> set (concat (map echo_sock (e_pending svc)) @ e_closed svc)" by force
    with i c show ?thesis unfolding echo_inv_def by blast
  qed
  have w: "(sock, echo_response) \<in> set (e_responses svc)" if "EchoWrite sock \<in> set (e_pending svc)" for sock
  proof -
    have "sock \<in> fst ` set (e_responses svc)" using i that unfolding echo_inv_def by blast
    with r show ?thesis by force
  qed
  have "echo_response = (''HTTP/1.1 200 OK'' @ crlf) @ ''Content-Length: '' @
      to_decimal (length (replicate k_httpResponseBodyBytes (CHR ''x''))) @ crlf @ ''Connection: close'' @ crlf @ crlf @
      replicate k_httpResponseBodyBytes (CHR ''x'')" by (simp add: echo_response_def)
  then show ?thesis using i r w unfolding echo_inv_def by blast
qed

lemma mock_service_answers_once_witness:
  "\<exists>svc :: EchoService. e_accepted svc = 2 \<and> e_responses svc = [(1, echo_response)] \<and> e_pending svc = [EchoRead 0, EchoAccept] \<and>
     e_closed svc = [1] \<and> distinct (map fst (e_responses svc)) \<and>
     set (concat (map echo_sock (e_pending svc)) @ e_closed svc) = {..<2}"
proof -
  let ?s0 = "\<lparr>e_delayMs = 0, e_open = True, e_accepted = 0, e_pending = [EchoAccept], e_responses = [], e_closed = []\<rparr>"
  let ?es = "[(EchoAccept, True), (EchoAccept, True), (EchoRead 1, True), (EchoWrite 1, True)]"
  have run: "reach (echo_init 0) echo_step (echo_complete h ok svc)"
    if "reach (echo_init 0) echo_step svc" "h \<in> set (e_pending svc)" "e_open svc" for h ok svc
    using that(1) echo_stepI [OF that(2,3)] by (rule reach_step)
  have "echo_init 0 ?s0"
    by (simp add: echo_init_def EchoService_new_def EchoService_AcceptNext_def echo_initiate_def)
  then have "reach (echo_init 0) echo_step ?s0" by (rule reach_init)
  note s1 = run [OF this, of EchoAccept True]
  note s2 = run [OF s1, of EchoAccept True]
  note s3 = run [OF s2, of "EchoRead 1" True]
  note s4 = run [OF s3, of "EchoWrite 1" True]
  have "reach (echo_init 0) echo_step
      \<lparr>e_delayMs = 0, e_open = True, e_accepted = 2, e_pending = [EchoRead 0, EchoAccept], e_responses = [(1, echo_response)], e_closed = [1]\<rparr>"
    using s4 by (simp add: echo_complete_def echo_accepted_def echo_read_def echo_written_def SendResponse_def
        HandleConn_def EchoService_AcceptNext_def echo_initiate_def Let_def numeral_2_eq_2)
  note facts = mock_service_answers_once [OF this]
  then have "distinct (map fst [(1 :: nat, echo_response)])" "set (concat (map echo_sock [EchoRead 0, EchoAccept]) @ [1]) = {..<2}"
    by simp_all
  then show ?thesis
    by - (rule exI [of _ "\<lparr>e_delayMs = 0, e_open = True, e_accepted = 2, e_pending = [EchoRead 0, EchoAccept],
        e_responses = [(1, echo_response)], e_closed = [1]\<rparr>"], simp)
qed

end
