(* ===== verification/Block_Yaml.thy ===== *)
theory Block_Yaml
  imports Yaml_Serializer
begin

text \<open>
  Block-style YAML documents, for the hypothesis on yaml-cpp about files a program prints line by line:
  abstract documents with the text they are written as and the tree they mean, a reader of such text,
  and the proof that it reads back every document. Nothing here is code of the repository, except
  that its texts are of this form; the reader is the instance that shows the hypothesis can hold.
\<close>

section \<open>Documents\<close>

text \<open>
  The values of a mapping: scalars in the styles a program prints, mappings, and sequences of mappings.
\<close>

datatype block =
    Number nat
  | Flag bool
  | Plain string
  | Quoted string
  | Mapping "(string \<times> block) list"
  | Items "(string \<times> block) list list"

text \<open>The document tree.\<close>

primrec meaning :: "block \<Rightarrow> yaml" where
  "meaning (Number n) = YNum n"
| "meaning (Flag b) = YBool b"
| "meaning (Plain s) = YText s"
| "meaning (Quoted s) = YText s"
| "meaning (Mapping kvs) = YMap (map (map_prod id meaning) kvs)"
| "meaning (Items ms) = YSeq (map YMap (map (map (map_prod id meaning)) ms))"

text \<open>
  The text: what follows the colon on the line of the key, and the lines below it, indented by two
  columns more. The first line of an item starts with a dash.
\<close>

definition spaces :: "nat \<Rightarrow> string" where
  "spaces n = replicate n (CHR '' '')"

definition entry_text :: "nat \<Rightarrow> string \<times> string \<times> (nat \<Rightarrow> string list) \<Rightarrow> string list" where
  "entry_text i = (\<lambda>(key, inline, below). (spaces i @ key @ '':'' @ inline) # below (i + 2))"

definition item_text :: "nat \<Rightarrow> (string \<times> string \<times> (nat \<Rightarrow> string list)) list \<Rightarrow> string list" where
  "item_text i m =
     (case concat (map (entry_text (i + 2)) m) of
        [] \<Rightarrow> []
      | l # ls \<Rightarrow> (spaces i @ ''- '' @ drop (i + 2) l) # ls)"

primrec value_text :: "block \<Rightarrow> string \<times> (nat \<Rightarrow> string list)" where
  "value_text (Number n) = ('' '' @ to_decimal n, \<lambda>i. [])"
| "value_text (Flag b) = ('' '' @ (if b then ''true'' else ''false''), \<lambda>i. [])"
| "value_text (Plain s) = ('' '' @ s, \<lambda>i. [])"
| "value_text (Quoted s) = ('' '' @ quoted s, \<lambda>i. [])"
| "value_text (Mapping kvs) = ([], \<lambda>i. concat (map (entry_text i) (map (map_prod id value_text) kvs)))"
| "value_text (Items ms) = ([], \<lambda>i. concat (map (item_text i) (map (map (map_prod id value_text)) ms)))"

definition block_text :: "(string \<times> block) list \<Rightarrow> string" where
  "block_text kvs = concat (map println (snd (value_text (Mapping kvs)) 0))"

text \<open>
  Which documents these rules are for: keys and plain scalars are words of letters, digits and
  hyphens that start with a letter and are none of the words YAML gives another meaning; a quoted
  scalar has nothing to escape; mappings are not empty and repeat no key.
\<close>

definition is_letter :: "char \<Rightarrow> bool" where
  "is_letter c \<longleftrightarrow> (let n = of_char c :: nat in 65 \<le> n \<and> n \<le> 90 \<or> 97 \<le> n \<and> n \<le> 122)"

definition reserved_words :: "string list" where
  "reserved_words =
     [''true'', ''True'', ''TRUE'', ''false'', ''False'', ''FALSE'', ''null'', ''Null'', ''NULL'',
      ''yes'', ''Yes'', ''YES'', ''no'', ''No'', ''NO'', ''on'', ''On'', ''ON'', ''off'', ''Off'', ''OFF'', ''y'', ''Y'', ''n'', ''N'']"

definition word_ok :: "string \<Rightarrow> bool" where
  "word_ok s \<longleftrightarrow>
     s \<noteq> [] \<and> is_letter (hd s) \<and> (\<forall>c\<in>set s. is_letter c \<or> is_digit c \<or> c = CHR ''-'') \<and> s \<notin> set reserved_words"

definition quotable :: "string \<Rightarrow> bool" where
  "quotable s \<longleftrightarrow> printable s \<and> CHR 0x22 \<notin> set s \<and> CHR 0x5C \<notin> set s"

definition entries_ok :: "(string \<times> bool) list \<Rightarrow> bool" where
  "entries_ok kvs \<longleftrightarrow> kvs \<noteq> [] \<and> distinct (map fst kvs) \<and> (\<forall>(key, ok)\<in>set kvs. word_ok key \<and> ok)"

primrec block_ok :: "block \<Rightarrow> bool" where
  "block_ok (Number n) = True"
| "block_ok (Flag b) = True"
| "block_ok (Plain s) = word_ok s"
| "block_ok (Quoted s) = quotable s"
| "block_ok (Mapping kvs) = entries_ok (map (map_prod id block_ok) kvs)"
| "block_ok (Items ms) \<longleftrightarrow> ms \<noteq> [] \<and> (\<forall>m\<in>set (map (map (map_prod id block_ok)) ms). entries_ok m)"

text \<open>
  The hypothesis: the library reads the text of such a document as the tree it means.
\<close>

definition reads_block_style :: "('n, string) yaml_lib \<Rightarrow> bool" where
  "reads_block_style lib \<longleftrightarrow>
     (\<forall>kvs. block_ok (Mapping kvs) \<longrightarrow>
        (\<exists>doc. parse lib (block_text kvs) = Inr doc \<and> represents lib doc (meaning (Mapping kvs))))"

section \<open>A reader\<close>

text \<open>
  Lines are split into indentation and content, a dash opening an element two columns further in;
  maps and sequences are nested by indentation. The fuel, twice the number of lines, is spent by
  one at each call.
\<close>

datatype yaml_line = Dash nat | Entry nat string "string option"

fun split_lines :: "string \<Rightarrow> string list" where
  "split_lines [] = []"
| "split_lines (c # s) =
     (if c = CHR 0x0A then [] # split_lines s
      else case split_lines s of [] \<Rightarrow> [[c]] | l # ls \<Rightarrow> (c # l) # ls)"

definition read_entry :: "nat \<Rightarrow> string \<Rightarrow> yaml_line" where
  "read_entry indent s =
     (let key = takeWhile (\<lambda>c. c \<noteq> CHR '':'') s; rest = drop (length key + 1) s
      in Entry indent key (if rest = [] then None else Some (drop 1 rest)))"

definition read_line :: "string \<Rightarrow> yaml_line list" where
  "read_line s =
     (let indent = length (takeWhile (\<lambda>c. c = CHR '' '') s); rest = drop indent s
      in if take 2 rest = ''- '' then [Dash indent, read_entry (indent + 2) (drop 2 rest)]
         else [read_entry indent rest])"

definition read_scalar :: "string \<Rightarrow> yaml" where
  "read_scalar s =
     (if take 1 s = [CHR 0x22] then YText (takeWhile (\<lambda>c. c \<noteq> CHR 0x22) (drop 1 s))
      else if s = ''true'' then YBool True else if s = ''false'' then YBool False
      else if s \<noteq> [] \<and> (\<forall>c\<in>set s. is_digit c) then YNum (of_decimal s) else YText s)"

fun read_node :: "nat \<Rightarrow> yaml_line list \<Rightarrow> yaml \<times> yaml_line list"
  and read_map :: "nat \<Rightarrow> nat \<Rightarrow> yaml_line list \<Rightarrow> (string \<times> yaml) list \<times> yaml_line list"
  and read_seq :: "nat \<Rightarrow> nat \<Rightarrow> yaml_line list \<Rightarrow> yaml list \<times> yaml_line list" where
  "read_node 0 ls = (YText [], ls)"
| "read_node (Suc k) ls =
     (case ls of
        Dash i # _ \<Rightarrow> (let (ys, rest) = read_seq k i ls in (YSeq ys, rest))
      | Entry i _ _ # _ \<Rightarrow> (let (kvs, rest) = read_map k i ls in (YMap kvs, rest))
      | [] \<Rightarrow> (YText [], []))"
| "read_map 0 i ls = ([], ls)"
| "read_map (Suc k) i ls =
     (case ls of
        Entry j key value # rest \<Rightarrow>
          if j \<noteq> i then ([], ls)
          else (case value of
                  Some s \<Rightarrow> (let (kvs, rest) = read_map k i rest in ((key, read_scalar s) # kvs, rest))
                | None \<Rightarrow>
                    (let (v, rest) = read_node k rest; (kvs, rest) = read_map k i rest in ((key, v) # kvs, rest)))
      | _ \<Rightarrow> ([], ls))"
| "read_seq 0 i ls = ([], ls)"
| "read_seq (Suc k) i ls =
     (case ls of
        Dash j # rest \<Rightarrow>
          if j \<noteq> i then ([], ls)
          else (let (v, rest) = read_node k rest; (ys, rest) = read_seq k i rest in (v # ys, rest))
      | _ \<Rightarrow> ([], ls))"

definition read_block :: "string \<Rightarrow> yaml" where
  "read_block s = (let ls = concat (map read_line (split_lines s)) in fst (read_node (2 * length ls + 1) ls))"

definition block_lib :: "(yaml, string) yaml_lib" where
  "block_lib = \<lparr>
     emit = (\<lambda>_. []), parse = (\<lambda>s. Inr (read_block s)), bad_file = bad_file tree_lib,
     subscript = subscript tree_lib, elements = elements tree_lib, as_string = as_string tree_lib,
     as_bool = as_bool tree_lib, as_uint16 = as_uint16 tree_lib, as_uint32 = as_uint32 tree_lib\<rparr>"

section \<open>The lines of a document\<close>

text \<open>What the reader makes of the lines: the key with its scalar, if it has one, and the lines below.\<close>

definition entry_lines :: "nat \<Rightarrow> string \<times> string option \<times> (nat \<Rightarrow> yaml_line list) \<Rightarrow> yaml_line list" where
  "entry_lines i = (\<lambda>(key, inline, below). Entry i key inline # below (i + 2))"

definition item_lines :: "nat \<Rightarrow> (string \<times> string option \<times> (nat \<Rightarrow> yaml_line list)) list \<Rightarrow> yaml_line list" where
  "item_lines i m = Dash i # concat (map (entry_lines (i + 2)) m)"

primrec value_lines :: "block \<Rightarrow> string option \<times> (nat \<Rightarrow> yaml_line list)" where
  "value_lines (Number n) = (Some (to_decimal n), \<lambda>i. [])"
| "value_lines (Flag b) = (Some (if b then ''true'' else ''false''), \<lambda>i. [])"
| "value_lines (Plain s) = (Some s, \<lambda>i. [])"
| "value_lines (Quoted s) = (Some (quoted s), \<lambda>i. [])"
| "value_lines (Mapping kvs) = (None, \<lambda>i. concat (map (entry_lines i) (map (map_prod id value_lines) kvs)))"
| "value_lines (Items ms) = (None, \<lambda>i. concat (map (item_lines i) (map (map (map_prod id value_lines)) ms)))"


section \<open>Reading the text back\<close>

lemma word_chars:
  assumes "word_ok s" and "c \<in> set s"
  shows "c \<noteq> CHR '':'' \<and> c \<noteq> CHR '' '' \<and> c \<noteq> CHR 0x0A \<and> c \<noteq> CHR 0x22"
proof -
  have "is_letter c \<or> is_digit c \<or> c = CHR ''-''" using assms by (simp add: word_ok_def)
  moreover have "\<not> is_letter (CHR '':'')" "\<not> is_digit (CHR '':'')" "\<not> is_letter (CHR '' '')" "\<not> is_digit (CHR '' '')"
    "\<not> is_letter (CHR 0x0A)" "\<not> is_digit (CHR 0x0A)" "\<not> is_letter (CHR 0x22)" "\<not> is_digit (CHR 0x22)" by code_simp+
  ultimately show ?thesis by auto
qed

lemma word_Cons:
  assumes "word_ok s"
  obtains c t where "s = c # t" and "c \<noteq> CHR ''-''" and "c \<noteq> CHR '' ''" and "\<not> is_digit c"
proof -
  from assms obtain c t where s: "s = c # t" "is_letter c" by (cases s) (auto simp: word_ok_def)
  have "\<not> is_letter (CHR ''-'')" "\<not> is_letter (CHR '' '')" by code_simp+
  moreover have "\<not> is_digit c" using s(2) by (auto simp: is_letter_def is_digit_def Let_def)
  ultimately show thesis using s by (intro that [of c t]) auto
qed

lemma read_entry_word:
  assumes "word_ok key"
  shows "read_entry i (key @ '':'' @ inline) = Entry i key (if inline = [] then None else Some (drop 1 inline))"
proof -
  have "takeWhile (\<lambda>c. c \<noteq> CHR '':'') (key @ '':'' @ inline) = key"
    using word_chars [OF assms] by (subst takeWhile_append2) auto
  then show ?thesis by (simp add: read_entry_def Let_def)
qed

lemma takeWhile_spaces: "s = c # t \<Longrightarrow> c \<noteq> CHR '' '' \<Longrightarrow> takeWhile (\<lambda>c. c = CHR '' '') (spaces i @ s) = spaces i"
  by (induction i) (simp_all add: spaces_def)

lemma length_spaces [simp]: "length (spaces i) = i"
  by (simp add: spaces_def)

lemma drop_spaces [simp]: "drop i (spaces i @ s) = s"
  by (simp add: spaces_def)

lemma read_line_entry:
  assumes "word_ok key"
  shows "read_line (spaces i @ key @ '':'' @ inline) = [Entry i key (if inline = [] then None else Some (drop 1 inline))]"
proof -
  from assms obtain c t where k: "key = c # t" "c \<noteq> CHR ''-''" "c \<noteq> CHR '' ''" by (rule word_Cons)
  then have "takeWhile (\<lambda>c. c = CHR '' '') (spaces i @ key @ '':'' @ inline) = spaces i"
    by (intro takeWhile_spaces) simp_all
  moreover have "take 2 (key @ '':'' @ inline) \<noteq> ''- ''" using k by simp
  ultimately show ?thesis using read_entry_word [OF assms, of i inline] by (simp add: read_line_def)
qed

lemma read_line_item:
  assumes "word_ok key"
  shows "read_line (spaces i @ ''- '' @ key @ '':'' @ inline) =
    [Dash i, Entry (i + 2) key (if inline = [] then None else Some (drop 1 inline))]"
proof -
  have "takeWhile (\<lambda>c. c = CHR '' '') (spaces i @ ''- '' @ key @ '':'' @ inline) = spaces i"
    by (rule takeWhile_spaces) (simp, code_simp)
  then show ?thesis using read_entry_word [OF assms, of "i + 2" inline] by (simp add: read_line_def)
qed

text \<open>What is printed for a value and what is read of it.\<close>

definition one_line :: "string \<Rightarrow> bool" where
  "one_line s \<longleftrightarrow> CHR 0x0A \<notin> set s"

definition reads_as :: "string \<times> (nat \<Rightarrow> string list) \<Rightarrow> string option \<times> (nat \<Rightarrow> yaml_line list) \<Rightarrow> bool" where
  "reads_as t l \<longleftrightarrow>
     fst t = (case fst l of None \<Rightarrow> [] | Some s \<Rightarrow> '' '' @ s) \<and> one_line (fst t) \<and>
     (\<forall>i. concat (map read_line (snd t i)) = snd l i \<and> (\<forall>s\<in>set (snd t i). one_line s))"

lemma one_line_simps [simp]:
  "one_line []" "one_line (c # s) \<longleftrightarrow> c \<noteq> CHR 0x0A \<and> one_line s" "one_line (s @ t) \<longleftrightarrow> one_line s \<and> one_line t"
  "one_line (spaces i)"
  by (auto simp: one_line_def spaces_def)

lemma one_line_word: "word_ok s \<Longrightarrow> one_line s"
  using word_chars by (auto simp: one_line_def)

lemma one_line_decimal: "one_line (to_decimal n)"
proof -
  have "\<not> is_digit (CHR 0x0A)" by code_simp
  then show ?thesis using to_decimal_digits by (auto simp: one_line_def)
qed

lemma one_line_quoted: "quotable s \<Longrightarrow> one_line (quoted s)"
  by (auto simp: quotable_def one_line_def quoted_def printable_def)

lemma reads_entry:
  assumes "word_ok key" and "reads_as t l"
  shows "concat (map read_line (entry_text i (key, t))) = entry_lines i (key, l) \<and> (\<forall>s\<in>set (entry_text i (key, t)). one_line s)"
  using assms(2) read_line_entry [OF assms(1), of i "fst t"] one_line_word [OF assms(1)]
  by (cases t; cases l) (auto simp: entry_text_def entry_lines_def reads_as_def split: option.splits)

lemma reads_entries:
  assumes "\<forall>kv\<in>set kvs. word_ok (fst kv) \<and> reads_as (value_text (snd kv)) (value_lines (snd kv))"
  shows "concat (map read_line (concat (map (entry_text i) (map (map_prod id value_text) kvs)))) =
      concat (map (entry_lines i) (map (map_prod id value_lines) kvs)) \<and>
    (\<forall>s\<in>set (concat (map (entry_text i) (map (map_prod id value_text) kvs))). one_line s)"
  using assms
proof (induction kvs)
  case (Cons kv kvs)
  then show ?case
    using reads_entry [of "fst kv" "value_text (snd kv)" "value_lines (snd kv)" i]
    by (cases kv) (simp add: ball_Un)
qed simp

lemma reads_item:
  assumes "\<forall>kv\<in>set m. word_ok (fst kv) \<and> reads_as (value_text (snd kv)) (value_lines (snd kv))" and "m \<noteq> []"
  shows "concat (map read_line (item_text i (map (map_prod id value_text) m))) = item_lines i (map (map_prod id value_lines) m) \<and>
    (\<forall>s\<in>set (item_text i (map (map_prod id value_text) m)). one_line s)"
proof -
  obtain key v m' where m: "m = (key, v) # m'" using assms(2) by (cases m) auto
  obtain inline below where t: "value_text v = (inline, below)" by (cases "value_text v")
  have key: "word_ok key" using assms(1) m by simp
  obtain rest where rest: "rest = below (i + 4) @ concat (map (entry_text (i + 2)) (map (map_prod id value_text) m'))" by blast
  have shown: "item_text i (map (map_prod id value_text) m) = (spaces i @ ''- '' @ key @ '':'' @ inline) # rest"
    using drop_spaces [of "i + 2" "key @ '':'' @ inline"] by (simp add: m t rest item_text_def entry_text_def eval_nat_numeral)
  have all: "concat (map (entry_text (i + 2)) (map (map_prod id value_text) m)) = (spaces (i + 2) @ key @ '':'' @ inline) # rest"
    by (simp add: m t rest entry_text_def eval_nat_numeral)
  from reads_entries [OF assms(1), of "i + 2"] read_line_entry [OF key, of "i + 2" inline]
  have read: "Entry (i + 2) key (if inline = [] then None else Some (drop 1 inline)) # concat (map read_line rest) =
      concat (map (entry_lines (i + 2)) (map (map_prod id value_lines) m))"
    and lines: "one_line (key @ '':'' @ inline)" "\<forall>s\<in>set rest. one_line s"
    unfolding all by simp_all
  show ?thesis
    unfolding shown item_lines_def read [symmetric]
    using read_line_item [OF key, of i inline] lines by simp
qed

lemma reads_value: "block_ok b \<Longrightarrow> reads_as (value_text b) (value_lines b)"
proof (induction b)
  case (Number n)
  then show ?case by (simp add: reads_as_def one_line_decimal)
next
  case (Flag b)
  then show ?case by (simp add: reads_as_def)
next
  case (Plain s)
  then show ?case by (simp add: reads_as_def one_line_word)
next
  case (Quoted s)
  then show ?case by (simp add: reads_as_def one_line_quoted)
next
  case (Mapping kvs)
  have "\<forall>kv\<in>set kvs. word_ok (fst kv) \<and> reads_as (value_text (snd kv)) (value_lines (snd kv))"
    using Mapping.prems Mapping.IH by (fastforce simp: entries_ok_def)
  from reads_entries [OF this] show ?case by (simp add: reads_as_def)
next
  case (Items ms)
  have ok: "m \<noteq> [] \<and> (\<forall>kv\<in>set m. word_ok (fst kv) \<and> reads_as (value_text (snd kv)) (value_lines (snd kv)))"
    if "m \<in> set ms" for m
    using Items.prems Items.IH that by (fastforce simp: entries_ok_def)
  have "concat (map read_line (concat (map (item_text i) (map (map (map_prod id value_text)) ms)))) =
      concat (map (item_lines i) (map (map (map_prod id value_lines)) ms)) \<and>
    (\<forall>s\<in>set (concat (map (item_text i) (map (map (map_prod id value_text)) ms))). one_line s)" for i
    using ok
  proof (induction ms)
    case (Cons m ms)
    have "m \<noteq> [] \<and> (\<forall>kv\<in>set m. word_ok (fst kv) \<and> reads_as (value_text (snd kv)) (value_lines (snd kv)))"
      by (rule Cons.prems) simp
    then have first: "concat (map read_line (item_text i (map (map_prod id value_text) m))) = item_lines i (map (map_prod id value_lines) m) \<and>
        (\<forall>s\<in>set (item_text i (map (map_prod id value_text) m)). one_line s)"
      using reads_item by blast
    have "concat (map read_line (concat (map (item_text i) (map (map (map_prod id value_text)) ms)))) =
        concat (map (item_lines i) (map (map (map_prod id value_lines)) ms)) \<and>
      (\<forall>s\<in>set (concat (map (item_text i) (map (map (map_prod id value_text)) ms))). one_line s)"
      by (rule Cons.IH) (rule Cons.prems, simp)
    with first show ?case
      by (simp only: list.map concat.simps map_append concat_append set_append ball_Un) simp
  qed simp
  then show ?case by (simp add: reads_as_def)
qed

lemma split_lines_println: "one_line s \<Longrightarrow> split_lines (println s @ t) = s # split_lines t"
  by (induction s) (auto simp: println_def newline_def)

lemma split_lines_text: "\<forall>s\<in>set ls. one_line s \<Longrightarrow> split_lines (concat (map println ls)) = ls"
  by (induction ls) (simp_all add: split_lines_println)

lemma block_text_lines:
  assumes "block_ok (Mapping kvs)"
  shows "concat (map read_line (split_lines (block_text kvs))) = snd (value_lines (Mapping kvs)) 0"
proof -
  have r: "reads_as (value_text (Mapping kvs)) (value_lines (Mapping kvs))" using assms by (rule reads_value)
  then have "split_lines (block_text kvs) = snd (value_text (Mapping kvs)) 0"
    unfolding block_text_def by (intro split_lines_text) (simp add: reads_as_def)
  with r show ?thesis by (simp add: reads_as_def)
qed


section \<open>Reading the lines back\<close>

text \<open>The rest after a collection at column \<open>i\<close> belongs to an enclosing one.\<close>

fun column :: "yaml_line \<Rightarrow> nat" where
  "column (Dash i) = i"
| "column (Entry i key inline) = i"

definition stops :: "nat \<Rightarrow> yaml_line list \<Rightarrow> bool" where
  "stops i rest \<longleftrightarrow> (\<forall>l ls. rest = l # ls \<longrightarrow> column l < i)"

lemma stops_simps [simp]: "stops i []" "stops i (l # ls) \<longleftrightarrow> column l < i"
  by (auto simp: stops_def)

lemma stops_mono: "stops i rest \<Longrightarrow> i \<le> j \<Longrightarrow> stops j rest"
  by (auto simp: stops_def)

lemma read_map_stops: "stops i rest \<Longrightarrow> read_map k i rest = ([], rest)"
  by (cases k; cases rest) (auto split: yaml_line.splits)

lemma read_map_dash: "read_map k i (Dash j # rest) = ([], Dash j # rest)"
  by (cases k) simp_all

lemma read_seq_stops: "stops i rest \<Longrightarrow> read_seq k i rest = ([], rest)"
  by (cases k; cases rest) (auto split: yaml_line.splits)

lemma read_seq_entry: "read_seq k i (Entry j key inline # rest) = ([], Entry j key inline # rest)"
  by (cases k) simp_all

text \<open>Scalars.\<close>

lemma quote_not_digit: "\<not> is_digit (CHR 0x22)" "\<not> is_digit (CHR ''t'')" "\<not> is_digit (CHR ''f'')"
  by code_simp+

lemma read_scalar_number: "read_scalar (to_decimal n) = YNum n"
proof -
  have d: "c \<in> set (to_decimal n) \<Longrightarrow> is_digit c" for c by (rule to_decimal_digits)
  obtain c t where ct: "to_decimal n = c # t" by (cases "to_decimal n") auto
  with d have "is_digit c" by simp
  with quote_not_digit have "c \<noteq> CHR 0x22 \<and> c \<noteq> CHR ''t'' \<and> c \<noteq> CHR ''f''" by metis
  moreover have "\<forall>x\<in>set (c # t). is_digit x" unfolding ct [symmetric] using d by blast
  moreover have "of_decimal (c # t) = n" unfolding ct [symmetric] by simp
  ultimately show ?thesis unfolding ct by (simp add: read_scalar_def)
qed

lemma read_scalar_word:
  assumes "word_ok s"
  shows "read_scalar s = YText s"
proof -
  from assms obtain c t where s: "s = c # t" "\<not> is_digit c" by (rule word_Cons)
  moreover have "c \<noteq> CHR 0x22" using word_chars [OF assms] s(1) by simp
  moreover have "s \<noteq> ''true''" "s \<noteq> ''false''" using assms by (auto simp: word_ok_def reserved_words_def)
  ultimately show ?thesis by (simp add: read_scalar_def)
qed

lemma read_scalar_quoted:
  assumes "quotable s"
  shows "read_scalar (quoted s) = YText s"
proof -
  have "takeWhile (\<lambda>c. c \<noteq> CHR 0x22) (s @ [CHR 0x22]) = s"
    using assms by (subst takeWhile_append2) (auto simp: quotable_def)
  then show ?thesis by (simp add: read_scalar_def quoted_def)
qed

text \<open>What is to be shown of a value: a scalar is read from its line, a collection from its lines.\<close>

definition parses :: "block \<Rightarrow> bool" where
  "parses b \<longleftrightarrow> (case value_lines b of
     (Some s, below) \<Rightarrow> read_scalar s = meaning b \<and> (\<forall>i. below i = [])
   | (None, below) \<Rightarrow> (\<forall>k i rest. stops i rest \<longrightarrow> 2 * length (below i) < k \<longrightarrow>
       read_node k (below i @ rest) = (meaning b, rest)))"

lemma read_map_entry:
  assumes "parses v" and "stops (i + 2) rest" and "2 * length (snd (value_lines v) (i + 2)) < k"
  shows "read_map (Suc k) i (entry_lines i (key, value_lines v) @ rest) =
    (let (kvs, rest) = read_map k i rest in ((key, meaning v) # kvs, rest))"
  using assms by (cases "value_lines v"; cases "fst (value_lines v)") (auto simp: entry_lines_def parses_def)

lemma length_entry_lines: "length (entry_lines i (key, l)) = Suc (length (snd l (i + 2)))"
  by (cases l) (simp add: entry_lines_def)

lemma entries_Cons:
  assumes "kvs \<noteq> []"
  shows "\<exists>key inline ls. concat (map (entry_lines i) (map (map_prod id value_lines) kvs)) = Entry i key inline # ls"
proof -
  obtain key v kvs' where kvs: "kvs = (key, v) # kvs'" using assms by (cases kvs) auto
  obtain inline below where "value_lines v = (inline, below)" by (cases "value_lines v")
  then have "entry_lines i (key, value_lines v) = Entry i key inline # below (i + 2)" by (simp add: entry_lines_def)
  then show ?thesis by (simp add: kvs)
qed

lemma read_entries:
  assumes "\<forall>kv\<in>set kvs. parses (snd kv)" and "stops i rest"
    and "2 * length (concat (map (entry_lines i) (map (map_prod id value_lines) kvs))) \<le> k"
  shows "read_map k i (concat (map (entry_lines i) (map (map_prod id value_lines) kvs)) @ rest) =
    (map (map_prod id meaning) kvs, rest)"
  using assms
proof (induction kvs arbitrary: k)
  case Nil
  then show ?case by (simp add: read_map_stops)
next
  case (Cons kv kvs)
  obtain key v where kv: "kv = (key, v)" by (cases kv)
  obtain tail where t: "tail = concat (map (entry_lines i) (map (map_prod id value_lines) kvs))" by blast
  have all: "concat (map (entry_lines i) (map (map_prod id value_lines) (kv # kvs))) = entry_lines i (key, value_lines v) @ tail"
    by (simp only: list.map concat.simps kv map_prod_simp id_apply t)
  let ?below = "snd (value_lines v) (i + 2)"
  have len: "2 + 2 * length ?below + 2 * length tail \<le> k"
    using Cons.prems(3) unfolding all by (simp add: length_entry_lines)
  then obtain k' where k': "k = Suc k'" "2 * length ?below < k'" "2 * length tail \<le> k'" by (cases k) auto
  have "stops (i + 2) (tail @ rest)"
  proof (cases kvs)
    case Nil
    with Cons.prems(2) show ?thesis by (auto simp: t intro: stops_mono)
  next
    case (Cons kv' kvs')
    then show ?thesis by (cases kv') (simp add: t entry_lines_def split: prod.splits)
  qed
  moreover have "parses v" using Cons.prems(1) kv by simp
  ultimately have "read_map k i (entry_lines i (key, value_lines v) @ tail @ rest) =
      (let (kvs, rest) = read_map k' i (tail @ rest) in ((key, meaning v) # kvs, rest))"
    using k' read_map_entry by simp
  moreover have p: "\<forall>kv\<in>set kvs. parses (snd kv)" using Cons.prems(1) by simp
  have "read_map k' i (tail @ rest) = (map (map_prod id meaning) kvs, rest)"
    unfolding t by (rule Cons.IH [OF p Cons.prems(2) k'(3) [unfolded t]])
  ultimately show ?case unfolding all by (simp add: kv id_def)
qed


lemma read_items:
  assumes "\<forall>m\<in>set ms. m \<noteq> [] \<and> (\<forall>kv\<in>set m. parses (snd kv))" and "stops i rest"
    and "2 * length (concat (map (item_lines i) (map (map (map_prod id value_lines)) ms))) \<le> k"
  shows "read_seq k i (concat (map (item_lines i) (map (map (map_prod id value_lines)) ms)) @ rest) =
    (map YMap (map (map (map_prod id meaning)) ms), rest)"
  using assms
proof (induction ms arbitrary: k)
  case Nil
  then show ?case by (simp add: read_seq_stops)
next
  case (Cons m ms)
  obtain entries where e: "entries = concat (map (entry_lines (i + 2)) (map (map_prod id value_lines) m))" by blast
  obtain tail where t: "tail = concat (map (item_lines i) (map (map (map_prod id value_lines)) ms))" by blast
  have m: "m \<noteq> []" "\<forall>kv\<in>set m. parses (snd kv)" using Cons.prems(1) by simp_all
  have all: "concat (map (item_lines i) (map (map (map_prod id value_lines)) (m # ms))) = Dash i # entries @ tail"
    by (simp only: list.map concat.simps item_lines_def e t append_Cons)
  have "2 + 2 * length entries + 2 * length tail \<le> k" using Cons.prems(3) unfolding all by simp
  then obtain k' where k': "k = Suc (Suc k')" "2 * length entries \<le> k'" "2 * length tail \<le> Suc k'"
    by (cases k; cases "k - 1") auto
  obtain j key inline ls where first: "entries = Entry j key inline # ls" "j = i + 2"
    using entries_Cons [OF m(1), of "i + 2"] e by blast
  have "stops (i + 2) (tail @ rest)"
  proof (cases ms)
    case Nil
    with Cons.prems(2) show ?thesis by (auto simp: t intro: stops_mono)
  next
    case (Cons m' ms')
    then show ?thesis by (simp add: t item_lines_def)
  qed
  from read_entries [OF m(2) this] k'(2) have "read_map k' (i + 2) (entries @ tail @ rest) = (map (map_prod id meaning) m, tail @ rest)"
    by (simp add: e)
  then have node: "read_node (Suc k') (entries @ tail @ rest) = (YMap (map (map_prod id meaning) m), tail @ rest)"
    using first by simp
  have "read_seq (Suc k') i (tail @ rest) = (map YMap (map (map (map_prod id meaning)) ms), rest)"
    unfolding t by (rule Cons.IH [OF _ Cons.prems(2) k'(3) [unfolded t]]) (use Cons.prems(1) in simp)
  with node show ?case unfolding all k'(1) by (simp add: id_def)
qed

lemma parses_value: "block_ok b \<Longrightarrow> parses b"
proof (induction b)
  case (Number n)
  then show ?case by (simp add: parses_def read_scalar_number)
next
  case (Flag b)
  then show ?case by (cases b) (simp_all add: parses_def read_scalar_def)
next
  case (Plain s)
  then show ?case by (simp add: parses_def read_scalar_word)
next
  case (Quoted s)
  then show ?case by (simp add: parses_def read_scalar_quoted)
next
  case (Mapping kvs)
  have ok: "\<forall>kv\<in>set kvs. parses (snd kv)" "kvs \<noteq> []"
    using Mapping.prems Mapping.IH by (fastforce simp: entries_ok_def)+
  show ?case
    unfolding parses_def value_lines.simps prod.case option.case
  proof (intro allI impI)
    fix k i rest
    let ?ls = "concat (map (entry_lines i) (map (map_prod id value_lines) kvs))"
    assume "stops i rest" "2 * length ?ls < k"
    then obtain k' where k': "k = Suc k'" "2 * length ?ls \<le> k'" by (cases k) auto
    obtain key inline ls where "?ls = Entry i key inline # ls"
      using entries_Cons [OF ok(2), of i] by blast
    moreover have "read_map k' i (?ls @ rest) = (map (map_prod id meaning) kvs, rest)"
      using read_entries [OF ok(1) \<open>stops i rest\<close> k'(2)] .
    ultimately show "read_node k (?ls @ rest) = (meaning (Mapping kvs), rest)" by (simp add: k'(1))
  qed
next
  case (Items ms)
  have ok: "\<forall>m\<in>set ms. m \<noteq> [] \<and> (\<forall>kv\<in>set m. parses (snd kv))" "ms \<noteq> []"
    using Items.prems Items.IH by (fastforce simp: entries_ok_def)+
  show ?case
    unfolding parses_def value_lines.simps prod.case option.case
  proof (intro allI impI)
    fix k i rest
    let ?ls = "concat (map (item_lines i) (map (map (map_prod id value_lines)) ms))"
    assume "stops i rest" "2 * length ?ls < k"
    then obtain k' where k': "k = Suc k'" "2 * length ?ls \<le> k'" by (cases k) auto
    obtain ls where "?ls = Dash i # ls" using ok(2) by (cases ms) (auto simp: item_lines_def)
    moreover have "read_seq k' i (?ls @ rest) = (map YMap (map (map (map_prod id meaning)) ms), rest)"
      using read_items [OF ok(1) \<open>stops i rest\<close> k'(2)] .
    ultimately show "read_node k (?ls @ rest) = (meaning (Items ms), rest)" by (simp add: k'(1))
  qed
qed

lemma read_block_text:
  assumes "block_ok (Mapping kvs)"
  shows "read_block (block_text kvs) = meaning (Mapping kvs)"
proof -
  have "parses (Mapping kvs)" using assms by (rule parses_value)
  then have "read_node k (snd (value_lines (Mapping kvs)) 0 @ []) = (meaning (Mapping kvs), [])"
    if "2 * length (snd (value_lines (Mapping kvs)) 0) < k" for k
    using that unfolding parses_def value_lines.simps prod.case option.case snd_conv
    by (blast intro: stops_simps(1))
  from this [of "2 * length (snd (value_lines (Mapping kvs)) 0) + 1"] show ?thesis
    unfolding read_block_def Let_def block_text_lines [OF assms] by (simp only: append_Nil2 fst_conv)
qed

lemma block_represents: "represents block_lib t t"
proof (induction t rule: tokens_of.induct)
  case (4 ys)
  then show ?case by (simp add: list_all2_same block_lib_def)
next
  case (5 kvs)
  then have "represents block_lib m m" if "map_of kvs key = Some m" for key m
    using that map_of_SomeD by fastforce
  then show ?case by (intro rep_map) (simp_all add: block_lib_def)
qed (simp_all add: block_lib_def)

text \<open>So the hypothesis can hold.\<close>

lemma block_lib_reads: "reads_block_style block_lib"
  using read_block_text block_represents by (simp add: reads_block_style_def block_lib_def)

end
