(* ===== verification/Bench_Main.thy ===== *)
theory Bench_Main
  imports Bench_Report Echo_Service Load_Balancer Block_Yaml
begin

text \<open>
  \<open>bench/main.cpp\<close>: spawning the mock services, the configuration written for the balancer under test, and
  \<open>main\<close>, which runs one phase per algorithm on the driver state of \<open>Bench_Process\<close>. What the
  operating system answers (fork, connect, the clock, the measured run) are the fields of a record.
\<close>

section \<open>Spawning the mock services\<close>

definition k_lbPort :: uint16 where "k_lbPort = 18090"
definition k_serviceBasePort :: int where "k_serviceBasePort = 19100"
text \<open>
  \<open>local_port p\<close> is the port a socket bound to \<open>p\<close> has; \<open>None\<close> when it cannot be bound.
\<close>

function spawn_ports :: "(uint16 \<Rightarrow> uint16 option) \<Rightarrow> int \<Rightarrow> int \<Rightarrow> uint16 list throws" where
  "spawn_ports local_port n i =
     (if i < n then
        case local_port (word_of_int (k_serviceBasePort + i)) of
          None \<Rightarrow> Inl SystemError
        | Some port \<Rightarrow> and_then (spawn_ports local_port n (i + 1)) (\<lambda>ports. Inr (port # ports))
      else Inr [])"
  by pat_completeness auto
termination by (relation "measure (\<lambda>(_, n, i). nat (n - i))") auto

declare spawn_ports.simps [simp del]

definition SpawnEchoServices :: "(uint16 \<Rightarrow> uint16 option) \<Rightarrow> int \<Rightarrow> uint16 list throws" where
  "SpawnEchoServices local_port n =
     (if n < 0 then Inl LengthError else spawn_ports local_port n 0)"

section \<open>The balancer's configuration\<close>

fun temp_services :: "nat \<Rightarrow> uint16 list \<Rightarrow> string" where
  "temp_services i [] = []"
| "temp_services i (port # ports) =
     println (''  - name: service-'' @ to_decimal (i + 1)) @
     println (''    ip: '' @ quoted ''127.0.0.1'') @
     println (''    port: '' @ to_decimal (unat port)) @
     println ''    weight: 1'' @
     temp_services (i + 1) ports"

definition temp_config_text :: "string \<Rightarrow> uint16 \<Rightarrow> uint16 list \<Rightarrow> string" where
  "temp_config_text algo lbPort servicePorts =
     println (''name: bench-'' @ algo) @
     println (''listenAddress: '' @ quoted ''127.0.0.1'') @
     println (''listenPort: '' @ to_decimal (unat lbPort)) @
     println (''routingAlgorithm: '' @ quoted algo) @
     println ''services:'' @
     temp_services 0 servicePorts @
     println ''healthCheck:'' @
     println ''  enabled: false'' @
     println ''connection:'' @
     println ''  maxPerService: 2048'' @
     println ''  idleTimeoutMs: 5000'' @
     println ''  connectTimeoutMs: 2000''"

definition temp_config_path :: "string \<Rightarrow> string" where
  "temp_config_path algo = ''/tmp/bb-cppbench-'' @ algo @ ''.yaml''"

definition WriteTempConfig ::
    "string os \<Rightarrow> string \<Rightarrow> uint16 \<Rightarrow> uint16 list \<Rightarrow> string files \<Rightarrow> (string \<times> string files) bench" where
  "WriteTempConfig os algo lbPort servicePorts files =
     (let path = temp_config_path algo in
      if \<not> open_ok os path then Die (''cannot write temp config to '' @ path)
      else Inr (path, files(path \<mapsto> stored os path (temp_config_text algo lbPort servicePorts))))"

section \<open>One phase and the program\<close>

text \<open>
  What the driver gets from outside: the file system and its answer about the binary; the process
  \<open>fork\<close> makes (positive in the parent, or negative), whether it can open \<open>/dev/null\<close> and execute the
  binary, and whether the balancer ends after \<open>SIGTERM\<close>; whether the i-th attempt to connect to the balancer
  succeeds; the completions of the load generator's connections; the measured time; the ports; the
  formatted clock.
\<close>

record 'd bench_env =
  be_os :: "string os"
  be_exists :: "string \<Rightarrow> bool"
  be_fork :: "string \<Rightarrow> int"
  be_devnull :: bool
  be_execs :: "string \<Rightarrow> bool"
  be_terminates :: "string \<Rightarrow> bool"
  be_connects :: "string \<Rightarrow> nat \<Rightarrow> bool"
  be_events :: "string \<Rightarrow> (load_op \<times> load_outcome \<times> 'd) list"
  be_wallMs :: "string \<Rightarrow> 'd"
  be_local_port :: "uint16 \<Rightarrow> uint16 option"
  be_timestamp :: string

text \<open>\<open>WaitPort\<close>: the attempts from \<open>i\<close> on.\<close>

function WaitPort :: "uint16 \<Rightarrow> (nat \<Rightarrow> bool) \<Rightarrow> nat \<Rightarrow> nat \<Rightarrow> unit bench" where
  "WaitPort port connects maxAttempts i =
     (if i < maxAttempts
      then if connects i then Inr () else WaitPort port connects maxAttempts (i + 1)
      else Die (''port '' @ to_decimal (unat port) @ '' never opened''))"
  by pat_completeness auto
termination by (relation "measure (\<lambda>(_, _, maxAttempts, i). maxAttempts - i)") auto

declare WaitPort.simps [simp del]

text \<open>What a phase prints before its report.\<close>

definition phase_header :: "BenchConfig \<Rightarrow> string \<Rightarrow> uint16 list \<Rightarrow> string" where
  "phase_header cfg algo servicePorts =
     Header (box_line 3 @ '' '' @ algo @ '' '' @ box_line 3) @
     Log (''concurrency='' @ int_to_string (b_concurrency cfg) @ ''  requests='' @ int_to_string (b_requests cfg) @
       ''  services='' @ to_decimal (length servicePorts) @ ''  backend-delay='' @ int_to_string (b_backendDelayMs cfg) @ ''ms'')"

definition started_line :: "int \<Rightarrow> uint16 list \<Rightarrow> string" where
  "started_line lbPid servicePorts =
     Success (''LB started (pid='' @ int_to_string lbPid @ '')  services='' @ to_decimal (length servicePorts) @ '' healthy'')"

text \<open>The table and the lines of the summary, with the percentages they compute.\<close>

definition print_result :: "'d double_ops \<Rightarrow> 'd AlgoResult \<Rightarrow> unit run" where
  "print_result ops r = (if error_pct_defined r then say (PrintResult ops r) else run_of (Inl Undefined))"

text \<open>
  What \<open>RunPhase\<close> does once the balancer \<open>lbPid\<close> has been started. When the event loop of the load
  generator does not return, neither does the driver, and the balancer stays.
\<close>

definition measured_phase ::
    "'d::linorder double_ops \<Rightarrow> 'd bench_env \<Rightarrow> BenchConfig \<Rightarrow> string \<Rightarrow> uint16 list \<Rightarrow> int \<Rightarrow> 'd AlgoResult run" where
  "measured_phase ops env cfg algo servicePorts lbPid =
     run_bind (run_of (WaitPort k_lbPort (be_connects env algo) 100 0)) (\<lambda>_.
     run_bind (say (started_line lbPid servicePorts)) (\<lambda>_.
     run_bind (run_of (may_throw (RunLoad (b_requests cfg) (b_concurrency cfg)))) (\<lambda>ctx.
       case ioc_run ctx (be_events env algo) of
         None \<Rightarrow> run_of (Inl Hangs)
       | Some ctx' \<Rightarrow>
       let load = RunLoad_result ctx' in
     run_bind (StopLb (be_terminates env algo) lbPid) (\<lambda>_.
     run_bind (run_of (may_throw (ComputeStats ops algo load (be_wallMs env algo) (int (length servicePorts))))) (\<lambda>r.
     run_bind (print_result ops r) (\<lambda>_.
       run_return r))))))"

definition RunPhase ::
    "'d::linorder double_ops \<Rightarrow> 'd bench_env \<Rightarrow> BenchConfig \<Rightarrow> string \<Rightarrow> uint16 list \<Rightarrow> 'd AlgoResult run" where
  "RunPhase ops env cfg algo servicePorts =
     run_bind (say (phase_header cfg algo servicePorts)) (\<lambda>_.
     run_bind (files_run (WriteTempConfig (be_os env) algo k_lbPort servicePorts)) (\<lambda>cfgPath.
     run_bind (StartLb (be_fork env algo) (be_devnull env) (be_execs env algo) (b_lbBinary cfg) cfgPath) (\<lambda>lbPid.
       measured_phase ops env cfg algo servicePorts lbPid)))"

fun run_phases ::
    "'d::linorder double_ops \<Rightarrow> 'd bench_env \<Rightarrow> BenchConfig \<Rightarrow> uint16 list \<Rightarrow> string list \<Rightarrow> 'd AlgoResult list run" where
  "run_phases ops env cfg servicePorts [] = run_return []"
| "run_phases ops env cfg servicePorts (algo # algos) =
     run_bind (RunPhase ops env cfg algo servicePorts) (\<lambda>r.
     run_bind (run_phases ops env cfg servicePorts algos) (\<lambda>rs.
       run_return (r # rs)))"

text \<open>What \<open>main\<close> prints around the phases.\<close>

definition title :: "string \<Rightarrow> string" where
  "title s = Header (double_line 59) @ Header s @ Header (double_line 59)"

definition bench_banner :: "BenchConfig \<Rightarrow> string" where
  "bench_banner cfg =
     title (''  Bit Bridge LB '' @ em_dash @ '' C++ Benchmark'') @
     Log (''Binary:      '' @ b_lbBinary cfg) @
     Log (''Concurrency: '' @ int_to_string (b_concurrency cfg)) @
     Log (''Requests:    '' @ int_to_string (b_requests cfg) @ '' per algorithm'') @
     (if b_baseline cfg then Log (''Mode:        save baseline '' @ arrow @ '' '' @ b_baselineFile cfg) else []) @
     (if b_compare cfg then Log (''Mode:        compare against '' @ b_baselineFile cfg) else [])"

definition services_line :: "uint16 list \<Rightarrow> string" where
  "services_line servicePorts =
     Success (''Echo services ready on ports '' @ to_decimal (unat (hd servicePorts)) @ en_dash @
       to_decimal (unat (last servicePorts)))"

definition summary_text :: "'d double_ops \<Rightarrow> 'd AlgoResult list \<Rightarrow> string" where
  "summary_text ops results =
     title ''  Results Summary'' @ concat (map (\<lambda>r. println (summary_line ops r)) results) @ println []"

definition print_summary :: "'d double_ops \<Rightarrow> 'd AlgoResult list \<Rightarrow> unit run" where
  "print_summary ops results =
     (if \<forall>r\<in>set results. error_pct_defined r then say (summary_text ops results) else run_of (Inl Undefined))"

text \<open>
  \<open>main\<close>, from the arguments to the exit status. Reading the first port of an empty list is undefined.
\<close>

definition bench_save ::
    "'d double_ops \<Rightarrow> 'd bench_env \<Rightarrow> BenchConfig \<Rightarrow> 'd AlgoResult list \<Rightarrow> unit run" where
  "bench_save ops env cfg results =
     (if b_baseline cfg
      then run_bind (files_run (\<lambda>files.
               bench_bind (SaveBaseline ops (be_os env) (be_timestamp env) cfg results files) (\<lambda>files. Inr ((), files))))
             (\<lambda>_. say (Success (''Baseline saved '' @ arrow @ '' '' @ b_baselineFile cfg)))
      else run_return ())"

definition bench_compare :: "'d::linorder double_ops \<Rightarrow> BenchConfig \<Rightarrow> 'd AlgoResult list \<Rightarrow> int run" where
  "bench_compare ops cfg results d =
     (if b_compare cfg
      then run_bind (print_messages (CompareBaseline_messages ops (dr_files d) cfg results)) (\<lambda>_.
           run_bind (run_of (may_throw (CompareBaseline ops (dr_files d) cfg results))) (\<lambda>passed.
             if passed
             then run_bind (say (Success ''All benchmarks within threshold'')) (\<lambda>_. run_return 0)
             else run_return 1)) d
      else (Inr 0, d))"

definition bench_main :: "'d::linorder double_ops \<Rightarrow> 'd bench_env \<Rightarrow> string list \<Rightarrow> int run" where
  "bench_main ops env args =
     run_bind (run_of (ParseArgs (be_exists env) args)) (\<lambda>cfg.
     run_bind (say (bench_banner cfg)) (\<lambda>_.
     run_bind (run_of (may_throw (SpawnEchoServices (be_local_port env) (b_services cfg)))) (\<lambda>servicePorts.
       if servicePorts = [] then run_of (Inl Undefined)
       else
     run_bind (say (services_line servicePorts)) (\<lambda>_.
     run_bind (run_phases ops env cfg servicePorts (bench_algos cfg)) (\<lambda>results.
     run_bind (print_summary ops results) (\<lambda>_.
     run_bind (bench_save ops env cfg results) (\<lambda>_.
       bench_compare ops cfg results)))))))"

section \<open>The balancer reads the configuration\<close>

fun bench_services :: "nat \<Rightarrow> uint16 list \<Rightarrow> ServiceNode list" where
  "bench_services i [] = []"
| "bench_services i (port # ports) =
     ServiceNode_new (''service-'' @ to_decimal (i + 1)) ''127.0.0.1'' port 1 # bench_services (i + 1) ports"

text \<open>The configuration the text stands for, and the document it is.\<close>

definition bench_config :: "string \<Rightarrow> uint16 \<Rightarrow> uint16 list \<Rightarrow> LoadBalancerConfig" where
  "bench_config algo lbPort servicePorts =
     \<lparr>m_lbName = ''bench-'' @ algo, m_listenAddress = ''127.0.0.1'', m_listenPort = lbPort,
      m_routingAlgorithm = algo, m_nodes = bench_services 0 servicePorts,
      m_healthCheck = HealthCheckConfig_default\<lparr>m_enabled := False\<rparr>,
      m_connection = ConnectionConfig_new 2048 5000 2000\<rparr>"

definition bench_tree :: "string \<Rightarrow> uint16 \<Rightarrow> uint16 list \<Rightarrow> yaml" where
  "bench_tree algo lbPort servicePorts = YMap
     [(''name'', YText (''bench-'' @ algo)), (''listenAddress'', YText ''127.0.0.1''),
      (''listenPort'', YNum (unat lbPort)), (''routingAlgorithm'', YText algo),
      (''services'', YSeq (map service_tree (bench_services 0 servicePorts))),
      (''healthCheck'', YMap [(''enabled'', YBool False)]),
      (''connection'', connection_tree (ConnectionConfig_new 2048 5000 2000))]"

lemma set_if_missing:
  assumes "represents lib n (YMap kvs)" and "map_of kvs key = None"
  shows "set_if lib n key conv setter = (\<lambda>s. (s, None))"
  using assms by (auto simp: set_if_def elim: represents_mapE)

lemma read_disabled_health_check:
  assumes "represents lib n (YMap [(''enabled'', YBool b)])"
  shows "read_section (read_health_check lib n) HealthCheckConfig_default =
    Inr (HealthCheckConfig_default\<lparr>m_enabled := b\<rparr>)"
  by (simp add: read_section_def read_health_check_def followed_by_def SetEnabled_def
      set_if_bool [OF assms, of "''enabled''"] set_if_missing [OF assms, of "''intervalMs''"]
      set_if_missing [OF assms, of "''timeoutMs''"] set_if_missing [OF assms, of "''unhealthyThreshold''"])

lemma load_bench_tree:
  assumes "represents lib doc (bench_tree algo lbPort ports)"
  shows "load_root lib doc old = (bench_config algo lbPort ports, None)"
proof -
  note r = assms [unfolded bench_tree_def]
  obtain services where s: "subscript lib doc ''services'' = Inr (Some services)"
    "list_all2 (represents lib) (elements lib services) (map service_tree (bench_services 0 ports))"
    using represents_key [OF r, of "''services''"] by auto
  show ?thesis
    by (simp add: load_root_def load_scalars_def load_sections_def load_service_list_def followed_by_def
        set_if_text [OF r, of "''name''"] set_if_text [OF r, of "''listenAddress''"]
        set_if_uint16 [OF r, of "''listenPort''"] set_if_text [OF r, of "''routingAlgorithm''"]
        set_if_section [OF r, of "''healthCheck''", OF _ read_disabled_health_check]
        set_if_section [OF r, of "''connection''", OF _ read_connection_tree]
        s(1) load_services_trees [OF s(2)] LoadBalancerConfig_accessors bench_config_def)
qed

text \<open>The document whose text the driver writes.\<close>

fun service_items :: "nat \<Rightarrow> uint16 list \<Rightarrow> (string \<times> block) list list" where
  "service_items i [] = []"
| "service_items i (port # ports) =
     [(''name'', Plain (''service-'' @ to_decimal (i + 1))), (''ip'', Quoted ''127.0.0.1''),
      (''port'', Number (unat port)), (''weight'', Number 1)] # service_items (i + 1) ports"

definition bench_document :: "string \<Rightarrow> uint16 \<Rightarrow> uint16 list \<Rightarrow> (string \<times> block) list" where
  "bench_document algo lbPort servicePorts =
     [(''name'', Plain (''bench-'' @ algo)), (''listenAddress'', Quoted ''127.0.0.1''),
      (''listenPort'', Number (unat lbPort)), (''routingAlgorithm'', Quoted algo),
      (''services'', Items (service_items 0 servicePorts)),
      (''healthCheck'', Mapping [(''enabled'', Flag False)]),
      (''connection'', Mapping [(''maxPerService'', Number 2048), (''idleTimeoutMs'', Number 5000),
         (''connectTimeoutMs'', Number 2000)])]"

lemma digit_chars [simp]:
  "digit_char 0 = CHR ''0''" "digit_char (Suc 0) = CHR ''1''" "digit_char 1 = CHR ''1''" "digit_char 2 = CHR ''2''"
  "digit_char (Suc (Suc 0)) = CHR ''2''" "digit_char 4 = CHR ''4''" "digit_char 5 = CHR ''5''" "digit_char 8 = CHR ''8''"
  by code_simp+

lemma spaces_numeral: "spaces 0 = []" "spaces 2 = ''  ''" "spaces 4 = ''    ''" "spaces (Suc (Suc 0)) = ''  ''"
  by (simp_all add: spaces_def eval_nat_numeral)

lemma temp_services_text:
  "temp_services i ports = concat (map println (concat (map (item_text 2)
     (map (map (map_prod id value_text)) (service_items i ports)))))"
proof (induction i ports rule: service_items.induct)
  case (2 i port ports)
  have "spaces (2 + 2) = ''    ''" "spaces 2 = ''  ''" using spaces_numeral by simp_all
  then have "item_text 2 (map (map_prod id value_text) (hd (service_items i (port # ports)))) =
      [''  - name: service-'' @ to_decimal (i + 1), ''    ip: '' @ quoted ''127.0.0.1'',
       ''    port: '' @ to_decimal (unat port), ''    weight: '' @ to_decimal 1]"
    by (simp add: item_text_def entry_text_def)
  with 2 show ?case by (simp add: to_decimal_small)
qed simp

lemma decimals: "to_decimal 2048 = ''2048''" "to_decimal 5000 = ''5000''" "to_decimal 2000 = ''2000''"
  by (simp_all add: to_decimal_step to_decimal_small)

lemma temp_config_text_document: "temp_config_text algo lbPort ports = block_text (bench_document algo lbPort ports)"
  by (simp add: temp_config_text_def block_text_def bench_document_def entry_text_def spaces_numeral temp_services_text
      decimals del: add_2_eq_Suc add_2_eq_Suc')

text \<open>It is one of the documents the hypothesis on yaml-cpp is for, and means the tree above.\<close>

lemma hyphen_word:
  assumes "is_letter c" and "\<forall>x\<in>set s. is_letter x \<or> is_digit x \<or> x = CHR ''-''" and "CHR ''-'' \<in> set s"
  shows "word_ok (c # s)"
proof -
  have "\<forall>w\<in>set reserved_words. CHR ''-'' \<notin> set w" by code_simp
  with assms show ?thesis by (auto simp: word_ok_def)
qed

lemma service_name_word: "word_ok (''service-'' @ to_decimal n)"
proof -
  have c: "is_letter (CHR ''s'')" "\<forall>x\<in>set ''ervice-''. is_letter x \<or> is_digit x \<or> x = CHR ''-''" by code_simp+
  have "word_ok (CHR ''s'' # ''ervice-'' @ to_decimal n)"
    by (rule hyphen_word) (use c to_decimal_digits [of _ n] in auto)
  then show ?thesis by simp
qed

lemma service_items_ok:
  "m \<in> set (service_items i ports) \<Longrightarrow> entries_ok (map (map_prod id block_ok) m)"
proof (induction i ports rule: service_items.induct)
  case (2 i port ports)
  have "word_ok ''name'' \<and> word_ok ''ip'' \<and> word_ok ''port'' \<and> word_ok ''weight'' \<and> quotable ''127.0.0.1''" by code_simp
  with 2 service_name_word [of "i + 1"] show ?case
    by (cases "m \<in> set (service_items (i + 1) ports)") (auto simp: entries_ok_def)
qed simp

lemma bench_document_ok:
  assumes "algo = ''p2c'' \<or> algo = ''consistent-hash''" and "ports \<noteq> []"
  shows "block_ok (Mapping (bench_document algo lbPort ports))"
proof -
  have "word_ok ''name'' \<and> word_ok ''listenAddress'' \<and> word_ok ''listenPort'' \<and> word_ok ''routingAlgorithm'' \<and>
      word_ok ''services'' \<and> word_ok ''healthCheck'' \<and> word_ok ''connection'' \<and> word_ok ''enabled'' \<and>
      word_ok ''maxPerService'' \<and> word_ok ''idleTimeoutMs'' \<and> word_ok ''connectTimeoutMs''" by code_simp
  moreover have "quotable ''127.0.0.1'' \<and> quotable ''p2c'' \<and> quotable ''consistent-hash'' \<and>
      word_ok ''bench-p2c'' \<and> word_ok ''bench-consistent-hash''" by code_simp
  moreover have "service_items 0 ports \<noteq> []" using assms(2) by (cases ports) simp_all
  moreover have "\<forall>m\<in>set (map (map (map_prod id block_ok)) (service_items 0 ports)). entries_ok m"
    using service_items_ok by auto
  ultimately show ?thesis using assms(1) by (auto simp: bench_document_def entries_ok_def)
qed

lemma service_items_meaning:
  "map YMap (map (map (map_prod id meaning)) (service_items i ports)) = map service_tree (bench_services i ports)"
  by (induction i ports rule: service_items.induct) (simp_all add: service_tree_def ServiceNode_new_def)

lemma bench_document_meaning: "meaning (Mapping (bench_document algo lbPort ports)) = bench_tree algo lbPort ports"
  using service_items_meaning [of 0 ports]
  by (simp add: bench_document_def bench_tree_def connection_tree_def ConnectionConfig_new_def)

lemma Load_WriteTempConfig:
  assumes "WriteTempConfig os algo lbPort ports files = Inr (path, files')"
    and "\<And>f content. stored os f content = content" and "reads_block_style lib"
    and "algo = ''p2c'' \<or> algo = ''consistent-hash''" and "ports \<noteq> []"
  shows "Load lib files' old path = (bench_config algo lbPort ports, Inr ())"
proof -
  obtain doc where doc: "parse lib (temp_config_text algo lbPort ports) = Inr doc"
    "represents lib doc (bench_tree algo lbPort ports)"
    using assms(3) bench_document_ok [OF assms(4,5)]
    unfolding reads_block_style_def temp_config_text_document bench_document_meaning [symmetric] by blast
  have "files' path = Some (temp_config_text algo lbPort ports)"
    using assms(1,2) by (auto simp: WriteTempConfig_def Die_def Let_def split: if_splits)
  with doc load_bench_tree [OF doc(2)] show ?thesis by (simp add: Load_def LoadFile_def)
qed

section \<open>Lemmas on the phases\<close>

lemma may_throw_eq_Inr_iff [simp]: "may_throw m = Inr v \<longleftrightarrow> m = Inr v"
  by (cases m) auto

text \<open>A report that accounts for the whole run.\<close>

definition full_report :: "BenchConfig \<Rightarrow> string \<Rightarrow> uint16 list \<Rightarrow> 'd AlgoResult \<Rightarrow> bool" where
  "full_report cfg algo ports r \<longleftrightarrow>
     r_algo r = algo \<and> 0 \<le> r_completed r \<and> 0 \<le> r_errors r \<and> r_completed r + r_errors r = b_requests cfg \<and>
     r_peakConnections r = min (b_requests cfg) (b_concurrency cfg) \<and> r_backendCount r = int (length ports)"

lemma ComputeStats_copies:
  assumes "ComputeStats ops algo load wall backends = Inr r"
  shows "r_peakConnections r = lr_peakConnections load \<and> r_bytesReceived r = lr_bytesReceived load \<and>
    r_backendCount r = backends"
  using assms
  by (auto simp: ComputeStats_def count_conns_eq AlgoResult_default_def Let_def and_then_eq_Inr_iff split: if_splits)

lemma stopped_accounts:
  assumes "load_inv requests concurrency ctx" and "l_stopped ctx"
  shows "int (length (l_results ctx)) = requests \<and> l_pending ctx = [] \<and> l_peakInflight ctx = min requests concurrency"
proof -
  note i = load_invD [OF assms(1)]
  from assms(2) i(12) have d: "0 < l_done ctx" "requests \<le> l_done ctx" by simp_all
  with i(3,4,5) have "0 < l_launched ctx" "l_done ctx = requests" "l_inflight ctx = 0" by linarith+
  with i(3,6,10,13) d show ?thesis by simp
qed

lemma RunPhase_report:
  assumes run: "RunPhase ops env cfg algo ports d = (Inr r, d')"
  shows "full_report cfg algo ports r"
proof -
  obtain start ctx where start: "RunLoad (b_requests cfg) (b_concurrency cfg) = Inr start"
    and ctx: "ioc_run start (be_events env algo) = Some ctx"
    and r: "ComputeStats ops algo (RunLoad_result ctx) (be_wallMs env algo) (int (length ports)) = Inr r"
    using run by (auto simp: RunPhase_def measured_phase_def run_bind_eq_Inr_iff Let_def split: option.splits)
  have "load_init (b_requests cfg) (b_concurrency cfg) start" using start by (simp add: load_init_def)
  from ioc_run_reach [OF ctx, OF reach_init, where r = "b_requests cfg" and c = "b_concurrency cfg", OF this]
  have l: "load_inv (b_requests cfg) (b_concurrency cfg) ctx" "l_stopped ctx"
    using reachable_load_inv by blast+
  from ComputeStats_fields [of ops algo "RunLoad_result ctx" "be_wallMs env algo" "int (length ports)"] r
  have counts: "r_algo r = algo" "r_completed r = int (length (filter c_ok (l_results ctx)))"
    "r_errors r = int (length (filter (\<lambda>c. \<not> c_ok c) (l_results ctx)))"
    by (auto simp: RunLoad_result_def)
  have "length (filter c_ok (l_results ctx)) + length (filter (\<lambda>c. \<not> c_ok c) (l_results ctx)) = length (l_results ctx)"
    by (rule sum_length_filter_compl)
  with counts ComputeStats_copies [OF r] stopped_accounts [OF l] show ?thesis
    by (simp add: full_report_def RunLoad_result_def flip: of_nat_add)
qed

lemma run_phases_reports:
  "run_phases ops env cfg ports algos d = (Inr rs, d') \<Longrightarrow>
   list_all2 (\<lambda>algo r. full_report cfg algo ports r) algos rs"
proof (induction algos arbitrary: d rs)
  case Nil
  then show ?case by simp
next
  case (Cons algo algos)
  then obtain r d1 rs1 where "RunPhase ops env cfg algo ports d = (Inr r, d1)"
    "run_phases ops env cfg ports algos d1 = (Inr rs1, d')" "rs = r # rs1"
    by (auto simp: run_bind_eq_Inr_iff)
  with Cons RunPhase_report show ?case by auto
qed

section \<open>What the driver prints\<close>

definition phase_text ::
    "'d double_ops \<Rightarrow> 'd bench_env \<Rightarrow> BenchConfig \<Rightarrow> uint16 list \<Rightarrow> string \<Rightarrow> 'd AlgoResult \<Rightarrow> string" where
  "phase_text ops env cfg ports algo r =
     phase_header cfg algo ports @ started_line (be_fork env algo) ports @ PrintResult ops r"

lemma files_run_prints: "files_run m d = (r, d') \<Longrightarrow> dr_out d' = dr_out d \<and> dr_err d' = dr_err d"
  by (auto simp: files_run_def split: sum.splits prod.splits)

lemma print_result_prints: "print_result ops r d = (Inr u, d') \<Longrightarrow> d' = d\<lparr>dr_out := dr_out d @ PrintResult ops r\<rparr>"
  by (simp add: print_result_def split: if_splits)

lemma print_summary_prints:
  "print_summary ops rs d = (Inr u, d') \<Longrightarrow> d' = d\<lparr>dr_out := dr_out d @ summary_text ops rs\<rparr>"
  by (simp add: print_summary_def split: if_splits)

lemma StopLb_prints: "StopLb ends pid d = (r, d') \<Longrightarrow> dr_out d' = dr_out d \<and> dr_err d' = dr_err d"
  by (auto simp: StopLb_def split: if_splits)

lemma RunPhase_prints:
  assumes "RunPhase ops env cfg algo ports d = (Inr r, d')"
  shows "dr_out d' = dr_out d @ phase_text ops env cfg ports algo r \<and> dr_err d' = dr_err d"
  using assms
  by (auto simp: RunPhase_def measured_phase_def run_bind_eq_Inr_iff StartLb_eq_Inr_iff Let_def phase_text_def
      dest!: files_run_prints StopLb_prints print_result_prints split: option.splits)

lemma run_phases_prints:
  "run_phases ops env cfg ports algos d = (Inr rs, d') \<Longrightarrow>
   dr_out d' = dr_out d @ concat (map2 (phase_text ops env cfg ports) algos rs) \<and> dr_err d' = dr_err d"
proof (induction algos arbitrary: d rs)
  case Nil
  then show ?case by simp
next
  case (Cons algo algos)
  then obtain r d1 rs1 where "RunPhase ops env cfg algo ports d = (Inr r, d1)"
    "run_phases ops env cfg ports algos d1 = (Inr rs1, d')" "rs = r # rs1"
    by (auto simp: run_bind_eq_Inr_iff)
  with Cons.IH RunPhase_prints show ?case by fastforce
qed

text \<open>What saving and comparing print, and the file that is saved.\<close>

definition saved_text :: "BenchConfig \<Rightarrow> string" where
  "saved_text cfg = (if b_baseline cfg then Success (''Baseline saved '' @ arrow @ '' '' @ b_baselineFile cfg) else [])"

definition comparison :: "'d::linorder double_ops \<Rightarrow> BenchConfig \<Rightarrow> 'd AlgoResult list \<Rightarrow> string files \<Rightarrow> message list" where
  "comparison ops cfg rs files =
     (if b_compare cfg then
        let ms = CompareBaseline_messages ops files cfg rs
        in ms @ (if err_text ms = [] then [ToOut (Success ''All benchmarks within threshold'')] else [])
      else [])"

lemma bench_save_prints:
  assumes "bench_save ops env cfg rs d = (Inr u, d')"
  shows "dr_out d' = dr_out d @ saved_text cfg \<and> dr_err d' = dr_err d \<and>
    (b_baseline cfg \<longrightarrow> dr_files d' (b_baselineFile cfg) =
       Some (stored (be_os env) (b_baselineFile cfg) (baseline_text ops (be_timestamp env) cfg rs)))"
  using assms
  by (auto simp: bench_save_def saved_text_def run_bind_eq_Inr_iff bench_bind_def SaveBaseline_def Die_def files_run_eq_Inr_iff
      dest!: files_run_prints split: if_splits sum.splits)

lemma bench_compare_prints:
  assumes "bench_compare ops cfg rs d = (Inr status, d')"
  shows "dr_out d' = dr_out d @ out_text (comparison ops cfg rs (dr_files d'))"
    and "dr_err d' = dr_err d @ err_text (comparison ops cfg rs (dr_files d'))"
    and "status = (if err_text (comparison ops cfg rs (dr_files d')) = [] then 0 else 1)"
    and "dr_files d' = dr_files d"
  using assms CompareBaseline_verdict_printed [of ops "dr_files d" cfg rs]
  by (auto simp: bench_compare_def comparison_def run_bind_eq_Inr_iff Let_def split: if_splits)

text \<open>Without a baseline file nothing is compared, and the success line is printed all the same.\<close>

lemma missing_baseline_reported_as_pass:
  assumes "b_compare cfg" and "dr_files d (b_baselineFile cfg) = None"
  shows "\<exists>warning. bench_compare ops cfg rs d =
    (Inr 0, d\<lparr>dr_out := dr_out d @ warning @ Success ''All benchmarks within threshold''\<rparr>)"
  using assms
  by (simp add: bench_compare_def CompareBaseline_def CompareBaseline_messages_def run_bind_def run_of_def say_def run_return_def)
     (rule exI, rule refl)

text \<open>The ports of the mock services.\<close>

lemma spawn_ports_all:
  assumes "\<And>p. local_port p = Some p"
  shows "spawn_ports local_port n i = Inr (map (\<lambda>k. word_of_int (k_serviceBasePort + k)) [i..n - 1])"
proof (induction "nat (n - i)" arbitrary: i)
  case 0
  then show ?case by (simp add: spawn_ports.simps)
next
  case (Suc m)
  then have "i < n" "m = nat (n - (i + 1))" by simp_all
  moreover from this have "[i..n - 1] = i # [i + 1..n - 1]" by (simp add: upto_rec1)
  ultimately show ?case using Suc.hyps(1) [of "i + 1"] assms
    by (simp add: spawn_ports.simps [of local_port n i])
qed

lemma WaitPort_returns: "WaitPort port connects n i = Inr () \<longleftrightarrow> (\<exists>k. i \<le> k \<and> k < n \<and> connects k)"
proof (induction port connects n i rule: WaitPort.induct)
  case (1 port connects n i)
  have step: "WaitPort port connects n i = (if i < n then if connects i then Inr () else WaitPort port connects n (i + 1) else Die (''port '' @ to_decimal (unat port) @ '' never opened''))"
    by (rule WaitPort.simps)
  consider "\<not> i < n" | "i < n" "connects i" | "i < n" "\<not> connects i" by blast
  then show ?case
  proof cases
    case 3
    moreover have "(\<exists>k\<ge>i. k < n \<and> connects k) \<longleftrightarrow> (\<exists>k\<ge>i + 1. k < n \<and> connects k)"
    proof
      assume "\<exists>k\<ge>i. k < n \<and> connects k"
      then obtain k where k: "i \<le> k" "k < n" "connects k" by blast
      with 3(2) have "k \<noteq> i" by blast
      with k show "\<exists>k\<ge>i + 1. k < n \<and> connects k" by (intro exI [of _ k]) simp
    next
      assume "\<exists>k\<ge>i + 1. k < n \<and> connects k"
      then show "\<exists>k\<ge>i. k < n \<and> connects k" by (meson add_leD1)
    qed
    moreover have "WaitPort port connects n i = WaitPort port connects n (i + 1)" using 3 step by simp
    ultimately show ?thesis using 1 [OF 3] by simp
  qed (use step in \<open>auto simp: Die_def\<close>)
qed

section \<open>Properties\<close>

text \<open>
  C32: the balancer accepts what the driver writes for it. For either algorithm and any non-empty list
  of mock services, a process started on the temporary file (with the ring free of collisions, and
  the loopback address and port usable) reaches its event loop with exactly these services, the
  algorithm of the phase, the timeouts of the file and no health checker. Of yaml-cpp it is
  presumed that it reads documents in block style, by the general rules of \<open>Block_Yaml\<close>; that the text
  the driver prints is one of them is proved.
\<close>

theorem benchmark_config_starts_balancer:
  assumes "WriteTempConfig os algo k_lbPort ports files = Inr (path, files')"
    and "\<And>f content. stored os f content = content"
    and "pf_files pf = files'" and "reads_block_style (pf_yaml pf)" and "ports \<noteq> []"
    and "algo = ''p2c'' \<or> algo = ''consistent-hash'' \<and> distinct (map fst (ring_points (ServicePool_new (bench_services 0 ports))))"
    and "pf_make_address pf ''127.0.0.1'' = Some a" and "pf_bind pf a k_lbPort"
  shows "\<exists>lb. main_start pf [program, path] = Running lb \<and>
    map m_node (m_services (lb_pool lb)) = bench_services 0 ports \<and> lb_checker lb = None \<and>
    p_connectTimeoutMs (lb_proxy lb) = 2000 \<and> p_idleTimeoutMs (lb_proxy lb) = 5000 \<and>
    (algo = ''p2c'' \<and> lb_strategy lb = UseP2C (pf_dist pf, P2CStrategy_new (pf_random_device pf)) \<or>
     algo = ''consistent-hash'' \<and>
       (\<exists>ring. ConsistentHashStrategy_new (lb_pool lb) = Inr ring \<and> lb_strategy lb = UseConsistentHash ring))"
proof -
  let ?config = "bench_config algo k_lbPort ports"
  have "algo = ''p2c'' \<or> algo = ''consistent-hash''" using assms(6) by blast
  then have load: "Load (pf_yaml pf) (pf_files pf) LoadBalancerConfig_default path = (?config, Inr ())"
    using Load_WriteTempConfig [OF assms(1,2,4) _ assms(5)] assms(3) by simp
  have fields: "m_nodes ?config = bench_services 0 ports" "m_routingAlgorithm ?config = algo"
    "m_listenAddress ?config = ''127.0.0.1''" "m_listenPort ?config = k_lbPort"
    "m_enabled (m_healthCheck ?config) = False"
    "Config.m_connectTimeoutMs (m_connection ?config) = 2000" "Config.m_idleTimeoutMs (m_connection ?config) = 5000"
    by (simp_all add: bench_config_def ConnectionConfig_new_def)
  have "bench_services 0 ports \<noteq> []" using assms(5) by (cases ports) simp_all
  then have "\<exists>lb. main_start pf [program, path] = Running lb"
    unfolding main_start_Running_iff using load fields assms(6-8) by auto
  then obtain lb where lb: "main_start pf [program, path] = Running lb" by blast
  with load have "main_configured pf ?config = Running lb" by (simp add: main_start_def)
  then have "runs_with pf ?config lb" by (rule main_configured_runs_with)
  with lb show ?thesis by (intro exI [of _ lb]) (simp add: runs_with_def fields)
qed

definition bench_platform :: "string files \<Rightarrow> (string, yaml, string) platform" where
  "bench_platform files =
     \<lparr>pf_yaml = block_lib, pf_files = files, pf_make_address = Some, pf_bind = (\<lambda>_ _. True),
      pf_dist = updown_dist, pf_random_device = 1\<rparr>"

theorem benchmark_config_starts_balancer_witness:
  "\<exists>files' lb. WriteTempConfig demo_os ''p2c'' k_lbPort [19100, 19101] Map.empty =
       Inr (''/tmp/bb-cppbench-p2c.yaml'', files') \<and>
     main_start (bench_platform files') [''bit_bridge_lb'', ''/tmp/bb-cppbench-p2c.yaml''] = Running lb \<and>
     length (m_services (lb_pool lb)) = 2 \<and> p_idleTimeoutMs (lb_proxy lb) = 5000"
proof -
  obtain files' where w: "WriteTempConfig demo_os ''p2c'' k_lbPort [19100, 19101] Map.empty =
      Inr (''/tmp/bb-cppbench-p2c.yaml'', files')"
    by (simp add: WriteTempConfig_def temp_config_path_def demo_os_def Let_def)
  have s: "stored demo_os f content = content" for f content by (simp add: demo_os_def)
  have reads: "reads_block_style (pf_yaml (bench_platform files'))"
    using block_lib_reads by (simp add: bench_platform_def)
  have pf: "pf_files (bench_platform files') = files'"
    "pf_make_address (bench_platform files') ''127.0.0.1'' = Some ''127.0.0.1''"
    "pf_bind (bench_platform files') ''127.0.0.1'' k_lbPort" by (simp_all add: bench_platform_def)
  obtain lb where lb: "main_start (bench_platform files') [''bit_bridge_lb'', ''/tmp/bb-cppbench-p2c.yaml''] = Running lb"
    "map m_node (m_services (lb_pool lb)) = bench_services 0 [19100, 19101]" "p_idleTimeoutMs (lb_proxy lb) = 5000"
    using benchmark_config_starts_balancer [OF w s pf(1) reads _ _ pf(2,3), of "''bit_bridge_lb''"] by auto
  have "length (m_services (lb_pool lb)) = 2" using arg_cong [OF lb(2), of length] by simp
  with w lb(1,3) show ?thesis by blast
qed

text \<open>
  C36: what a run of the driver delivers. If it comes to an end without dying, the options were
  accepted, at least one mock service was started, each algorithm has a report that accounts for
  every request and names the peak, and what was printed is exactly, on the standard output, the
  banner, the text of each phase with its report, the summary of the same reports, the line about the
  saved baseline with \<open>--baseline\<close> and the verdicts with \<open>--compare\<close>; and on the standard error the
  regressions with \<open>--compare\<close>. The baseline file then holds these reports. The exit status is 1 when a
  regression was printed and 0 otherwise.
\<close>

theorem bench_main_reports:
  assumes "bench_main ops env args d = (Inr status, d')"
  shows "\<exists>cfg ports rs. ParseArgs (be_exists env) args = Inr cfg \<and>
    SpawnEchoServices (be_local_port env) (b_services cfg) = Inr ports \<and> ports \<noteq> [] \<and>
    list_all2 (\<lambda>algo r. full_report cfg algo ports r) (bench_algos cfg) rs \<and>
    dr_out d' = dr_out d @ bench_banner cfg @ services_line ports @
      concat (map2 (phase_text ops env cfg ports) (bench_algos cfg) rs) @ summary_text ops rs @ saved_text cfg @
      out_text (comparison ops cfg rs (dr_files d')) \<and>
    dr_err d' = dr_err d @ err_text (comparison ops cfg rs (dr_files d')) \<and>
    (b_baseline cfg \<longrightarrow> dr_files d' (b_baselineFile cfg) =
       Some (stored (be_os env) (b_baselineFile cfg) (baseline_text ops (be_timestamp env) cfg rs))) \<and>
    status = (if dr_err d' = dr_err d then 0 else 1)"
proof -
  obtain cfg where cfg: "ParseArgs (be_exists env) args = Inr cfg"
    using assms(1) by (auto simp: bench_main_def run_bind_eq_Inr_iff)
  with assms(1) obtain ports where ports: "SpawnEchoServices (be_local_port env) (b_services cfg) = Inr ports" "ports \<noteq> []"
    by (auto simp: bench_main_def run_bind_eq_Inr_iff split: if_splits)
  let ?d = "d\<lparr>dr_out := dr_out d @ bench_banner cfg @ services_line ports\<rparr>"
  from cfg ports assms(1) obtain rs d1 d2 where rs: "run_phases ops env cfg ports (bench_algos cfg) ?d = (Inr rs, d1)"
    "bench_save ops env cfg rs (d1\<lparr>dr_out := dr_out d1 @ summary_text ops rs\<rparr>) = (Inr (), d2)"
    "bench_compare ops cfg rs d2 = (Inr status, d')"
    by (auto simp: bench_main_def run_bind_eq_Inr_iff dest!: print_summary_prints)
  have out: "dr_out d2 = dr_out d @ bench_banner cfg @ services_line ports @
      concat (map2 (phase_text ops env cfg ports) (bench_algos cfg) rs) @ summary_text ops rs @ saved_text cfg"
    and err: "dr_err d2 = dr_err d"
    using bench_save_prints [OF rs(2)] run_phases_prints [OF rs(1)] by simp_all
  have saved: "b_baseline cfg \<longrightarrow> dr_files d' (b_baselineFile cfg) =
      Some (stored (be_os env) (b_baselineFile cfg) (baseline_text ops (be_timestamp env) cfg rs))"
    using bench_save_prints [OF rs(2)] bench_compare_prints(4) [OF rs(3)] by simp
  show ?thesis
    using cfg ports run_phases_reports [OF rs(1)] saved bench_compare_prints(1-3) [OF rs(3)] out err
    by (intro exI [of _ cfg] exI [of _ ports] exI [of _ rs]) simp
qed

definition nat_ops :: "nat double_ops" where
  "nat_ops = \<lparr>d_of_int = nat, d_add = (+), d_sub = (-), d_mul = (*), d_div = (div), d_trunc = int,
     d_fixed = (\<lambda>_. to_decimal)\<rparr>"

definition demo_env :: "nat bench_env" where
  "demo_env =
     \<lparr>be_os = demo_os, be_exists = (\<lambda>f. f = ''lb''), be_fork = (\<lambda>_. 4711), be_devnull = True,
      be_execs = (\<lambda>_. True), be_terminates = (\<lambda>_. True), be_connects = (\<lambda>_ i. i = 7),
      be_events = (\<lambda>_. demo_load), be_wallMs = (\<lambda>_. 10), be_local_port = Some, be_timestamp = ''now''\<rparr>"

definition demo_args :: "string list" where
  "demo_args = [''--requests'', ''3'', ''--concurrency'', ''2'', ''--algo'', ''p2c'', ''--services'', ''1'', ''lb'']"

definition demo_driver :: driver where
  "demo_driver = \<lparr>dr_files = Map.empty, dr_children = [], dr_out = [], dr_err = []\<rparr>"

lemma demo_numbers: "stoi ''3'' = Inr 3" "stoi ''2'' = Inr 2" "stoi ''1'' = Inr 1" "stoi ''0'' = Inr 0"
  by code_simp+

lemma demo_port: "WaitPort port (\<lambda>i. i = 7) 100 0 = Inr ()"
  by (simp add: WaitPort_returns)

theorem bench_main_reports_witness:
  "\<exists>d' (r :: nat AlgoResult). bench_main nat_ops demo_env demo_args demo_driver = (Inr 0, d') \<and>
     full_report (BenchConfig_default\<lparr>b_requests := 3, b_concurrency := 2, b_algo := ''p2c'', b_services := 1,
       b_lbBinary := ''lb''\<rparr>) ''p2c'' [19100] r"
proof -
  let ?cfg = "BenchConfig_default\<lparr>b_requests := 3, b_concurrency := 2, b_algo := ''p2c'', b_services := 1, b_lbBinary := ''lb''\<rparr>"
  have cfg: "ParseArgs (be_exists demo_env) demo_args = Inr ?cfg"
    by (simp add: ParseArgs_def demo_args_def demo_env_def demo_numbers BenchConfig_default_def arg_handlers_def
        starts_with_dash_def)
  have ports: "SpawnEchoServices (be_local_port demo_env) (b_services ?cfg) = Inr [19100]"
    by (simp add: SpawnEchoServices_def demo_env_def spawn_ports_all k_serviceBasePort_def)
  have ends: "ioc_run (LaunchWave (LoadContext_start 3 2)) demo_load = Some demo_load_end"
    by (rule ioc_run_execute [OF demo_load_run(2)]) (simp add: demo_load_end_def)
  have "RunLoad 3 2 = (Inr (LaunchWave (LoadContext_start 3 2)) :: nat LoadContext throws)" by (simp add: RunLoad_def)
  moreover obtain r where "ComputeStats nat_ops ''p2c'' (RunLoad_result demo_load_end) 10 1 = Inr r" "error_pct_defined r"
    using ComputeStats_fields [of nat_ops "''p2c''" "RunLoad_result demo_load_end" 10 1]
    by (auto simp: error_pct_defined_def RunLoad_result_def demo_load_end_def)
  moreover obtain d0 where d0: "d0 = demo_driver\<lparr>dr_out := bench_banner ?cfg @ services_line [19100]\<rparr>" by blast
  then have "dr_children d0 = []" "dr_files d0 = Map.empty" by (simp_all add: demo_driver_def)
  ultimately obtain rs d1 where rs: "run_phases nat_ops demo_env ?cfg [19100] [''p2c''] d0 = (Inr rs, d1)"
    "\<forall>r\<in>set rs. error_pct_defined r"
    using ends by (simp add: print_result_def RunPhase_def measured_phase_def run_bind_def say_def run_of_def run_return_def files_run_def WriteTempConfig_def StartLb_def
        StopLb_def child_side_def child_ends_def demo_env_def demo_os_def demo_driver_def demo_port Let_def)
  have algos: "bench_algos ?cfg = [''p2c'']" by (simp add: bench_algos_def)
  have "dr_out demo_driver = []" by (simp add: demo_driver_def)
  moreover have off: "\<not> b_baseline ?cfg" "\<not> b_compare ?cfg" by (simp_all add: BenchConfig_default_def)
  moreover obtain cfg where c: "cfg = ?cfg" by blast
  ultimately obtain d' where main: "bench_main nat_ops demo_env demo_args demo_driver = (Inr 0, d')"
    using cfg ports rs algos unfolding d0 c [symmetric]
    by (simp add: bench_main_def run_bind_def say_def run_of_def run_return_def bench_save_def bench_compare_def print_summary_def)
  obtain r :: "nat AlgoResult" where "full_report ?cfg ''p2c'' [19100] r"
    using bench_main_reports [OF main] cfg ports algos by (auto simp: list_all2_Cons1)
  with main show ?thesis by blast
qed

section \<open>The balancers the driver starts\<close>

text \<open>
  A balancer that is left behind, and why: the driver died because the port never opened, threw because
  the number of requests is negative, or hangs: in the event loop of the load generator, which nothing
  stops, or waiting for a balancer that does not end.
\<close>

definition left_behind :: "'d bench_env \<Rightarrow> BenchConfig \<Rightarrow> string \<Rightarrow> bench_end \<Rightarrow> child \<Rightarrow> bool" where
  "left_behind env cfg algo e c \<longleftrightarrow>
     c = child_side (be_devnull env) (be_execs env algo) (b_lbBinary cfg) (temp_config_path algo) (be_fork env algo) \<and>
     (e = ExitStatus 1 (error_line (''port '' @ to_decimal (unat k_lbPort) @ '' never opened'')) \<and> (\<forall>i<100. \<not> be_connects env algo i) \<or>
      e = Uncaught LengthError \<and> b_requests cfg < 0 \<or>
      e = Hangs \<and> (\<exists>ctx. RunLoad (b_requests cfg) (b_concurrency cfg) = Inr ctx \<and> ioc_run ctx (be_events env algo) = None) \<or>
      e = Hangs \<and> be_execs env algo \<and> \<not> be_terminates env algo)"

lemma WaitPort_Inl: "WaitPort port connects n 0 = Inl e \<Longrightarrow> e = ExitStatus 1 (error_line (''port '' @ to_decimal (unat port) @ '' never opened'')) \<and> (\<forall>i<n. \<not> connects i)"
proof -
  assume w: "WaitPort port connects n 0 = Inl e"
  have "WaitPort port connects n i = Inl e \<Longrightarrow> e = ExitStatus 1 (error_line (''port '' @ to_decimal (unat port) @ '' never opened''))" for i
  proof (induction port connects n i rule: WaitPort.induct)
    case (1 port connects n i)
    then show ?case by (simp add: WaitPort.simps [of port connects n i] Die_def split: if_splits)
  qed
  with w show ?thesis using WaitPort_returns [of port connects n 0] by auto
qed

lemma measured_phase_children:
  assumes "measured_phase ops env cfg algo ports pid d = (res, d')" and "dr_children d = [c]"
    and "c = child_side (be_devnull env) (be_execs env algo) (b_lbBinary cfg) (temp_config_path algo) (be_fork env algo)"
    and "pid = be_fork env algo" and "0 < pid"
  shows "dr_children d' = [] \<or> (\<exists>e. res = Inl e \<and> dr_children d' = [c] \<and> left_behind env cfg algo e c)"
proof -
  let ?d = "d\<lparr>dr_out := dr_out d @ started_line pid ports\<rparr>"
  have stop: "StopLb (be_terminates env algo) pid ?d =
      (if child_ends (be_terminates env algo) c then (Inr (), ?d\<lparr>dr_children := []\<rparr>) else (Inl Hangs, ?d))"
    by (rule StopLb_own [OF assms(5)]) (simp_all add: assms(2-4) child_side_def)
  show ?thesis
  proof (cases "WaitPort k_lbPort (be_connects env algo) 100 0")
    case wait: (Inl e)
    with assms(1) have "res = Inl e \<and> d' = d" by (simp add: measured_phase_def run_bind_def say_def run_of_def)
    with WaitPort_Inl [OF wait] assms(2,3) show ?thesis by (simp add: left_behind_def)
  next
    case wait: (Inr u)
    show ?thesis
    proof (cases "RunLoad (b_requests cfg) (b_concurrency cfg) :: 'a LoadContext throws")
      case load: (Inl e)
      then have "e = LengthError" "b_requests cfg < 0" by (auto simp: RunLoad_def split: if_splits)
      moreover from assms(1) wait load have "res = Inl (Uncaught e) \<and> dr_children d' = dr_children d"
        by (auto simp: measured_phase_def run_bind_def say_def run_of_def)
      ultimately show ?thesis using assms(2,3) by (simp add: left_behind_def)
    next
      case load: (Inr ctx)
      show ?thesis
      proof (cases "ioc_run ctx (be_events env algo)")
        case None
        with assms(1) wait load have "res = Inl Hangs \<and> d' = ?d"
          by (auto simp: measured_phase_def run_bind_def say_def run_of_def)
        with assms(2,3) load None show ?thesis by (simp add: left_behind_def)
      next
        case (Some ctx')
        with assms(1) wait load stop have "dr_children d' = [] \<or> \<not> child_ends (be_terminates env algo) c \<and> res = Inl Hangs \<and> d' = ?d"
          by (cases "child_ends (be_terminates env algo) c")
             (auto simp: measured_phase_def print_result_def run_bind_def say_def run_of_def run_return_def Let_def
               split: sum.splits if_splits)
        with assms(2,3) show ?thesis by (auto simp: left_behind_def child_ends_def child_side_def split: if_splits)
      qed
    qed
  qed
qed

text \<open>With nothing to launch the loop has nothing to wait for and the phase never ends.\<close>

lemma idle_phase_hangs:
  assumes "measured_phase ops env cfg algo ports pid d = (res, d')" and "\<exists>i<100. be_connects env algo i"
    and "0 \<le> b_requests cfg" and "b_requests cfg = 0 \<or> b_concurrency cfg \<le> 0"
  shows "res = Inl Hangs \<and> dr_children d' = dr_children d"
proof -
  have wait: "WaitPort k_lbPort (be_connects env algo) 100 0 = Inr ()" using assms(2) by (auto simp: WaitPort_returns)
  define ctx where "ctx = (LaunchWave (LoadContext_start (b_requests cfg) (b_concurrency cfg)) :: 'a LoadContext)"
  have load: "RunLoad (b_requests cfg) (b_concurrency cfg) = Inr ctx" using assms(3) by (simp add: RunLoad_def ctx_def)
  have "\<not> l_stopped ctx \<and> l_pending ctx = []"
    using load_progress [OF LaunchWave_start_inv, of "b_requests cfg" "b_concurrency cfg", where 'a = 'a] assms(4)
    unfolding ctx_def by auto
  then have "ioc_run ctx (be_events env algo) = None" using ioc_run_idle by blast
  with assms(1) wait load show ?thesis by (auto simp: measured_phase_def run_bind_def say_def run_of_def)
qed

lemma RunPhase_children:
  assumes "RunPhase ops env cfg algo ports d = (res, d')" and "dr_children d = []" and "be_fork env algo \<noteq> 0"
  shows "dr_children d' = [] \<or> (\<exists>e c. res = Inl e \<and> dr_children d' = [c] \<and> left_behind env cfg algo e c)"
proof -
  let ?c = "child_side (be_devnull env) (be_execs env algo) (b_lbBinary cfg) (temp_config_path algo) (be_fork env algo)"
  obtain written d1 where w: "files_run (WriteTempConfig (be_os env) algo k_lbPort ports) (d\<lparr>dr_out := dr_out d @ phase_header cfg algo ports\<rparr>) = (written, d1)"
    by fastforce
  have d1: "dr_children d1 = dr_children d" using keeps_childrenD [OF keeps_children_files_run w] by simp
  show ?thesis
  proof (cases "\<exists>e. written = Inl e \<or> be_fork env algo < 0")
    case True
    with assms w d1 show ?thesis
      by (cases written) (auto simp: RunPhase_def run_bind_def say_def StartLb_def run_of_def Die_def)
  next
    case False
    then obtain path where path: "written = Inr path" by (cases written) auto
    with w have "path = temp_config_path algo"
      by (auto simp: files_run_eq_Inr_iff WriteTempConfig_def Die_def Let_def split: if_splits)
    with assms False path w d1
    have "measured_phase ops env cfg algo ports (be_fork env algo) (d1\<lparr>dr_children := [?c]\<rparr>) = (res, d')"
      by (simp add: RunPhase_def run_bind_def say_def StartLb_def)
    from measured_phase_children [OF this] False assms(3) show ?thesis by auto
  qed
qed

lemma run_phases_children:
  assumes "run_phases ops env cfg ports algos d = (res, d')" and "dr_children d = []"
    and "\<forall>algo. be_fork env algo \<noteq> 0"
  shows "dr_children d' = [] \<or>
    (\<exists>e c algo. res = Inl e \<and> algo \<in> set algos \<and> dr_children d' = [c] \<and> left_behind env cfg algo e c)"
  using assms
proof (induction algos arbitrary: d res d')
  case Nil
  then show ?case by (auto simp: run_return_def)
next
  case (Cons algo algos)
  obtain res1 d1 where one: "RunPhase ops env cfg algo ports d = (res1, d1)" by fastforce
  from RunPhase_children [OF one Cons.prems(2)] Cons.prems(3)
  have first: "dr_children d1 = [] \<or> (\<exists>e c. res1 = Inl e \<and> dr_children d1 = [c] \<and> left_behind env cfg algo e c)"
    by simp
  show ?case
  proof (cases res1)
    case (Inl e)
    with Cons.prems(1) one have "res = Inl e" "d' = d1" by (simp_all add: run_bind_def say_def)
    with first Inl show ?thesis by auto
  next
    case (Inr r)
    with first have "dr_children d1 = []" by simp
    obtain res2 d2 where two: "run_phases ops env cfg ports algos d1 = (res2, d2)" by fastforce
    with Cons.prems(1) one Inr have "d' = d2" "\<forall>e. res2 = Inl e \<longrightarrow> res = Inl e"
      by (cases res2; simp add: run_bind_def say_def run_return_def)+
    with Cons.IH [OF two \<open>dr_children d1 = []\<close> Cons.prems(3)] show ?thesis by auto
  qed
qed

lemma keeps_children_print_summary [simp]: "keeps_children (print_summary ops rs)"
  by (simp add: print_summary_def)

lemma bench_end_children [simp]:
  "keeps_children (bench_save ops env cfg results)" "keeps_children (bench_compare ops cfg results)"
proof -
  show "keeps_children (bench_save ops env cfg results)"
    unfolding bench_save_def by (cases "b_baseline cfg") (auto intro!: keeps_children_bind)
  have "keeps_children (run_bind (print_messages ms) (\<lambda>_. run_bind (run_of m) (\<lambda>passed.
      if passed then run_bind (say t) (\<lambda>_. run_return 0) else run_return 1)))" for ms m t
    by (intro keeps_children_bind) (auto intro!: keeps_children_bind)
  then show "keeps_children (bench_compare ops cfg results)"
    unfolding keeps_children_def bench_compare_def by (cases "b_compare cfg") (simp_all, blast)
qed

text \<open>
  C37: the driver leaves no balancer behind when it comes to its end, and at most one otherwise: the one
  of the phase it was in, because its port never opened, because a negative number of requests made the
  load generator throw, because the event loop of the load generator never returned, or because the
  balancer did not end. (By \<open>idle_phase_hangs\<close> the loop never returns with no request, or with a
  concurrency that is not positive.)
\<close>

theorem driver_stops_its_balancers:
  assumes "bench_main ops env args d = (res, d')" and "dr_children d = []" and "\<forall>algo. be_fork env algo \<noteq> 0"
  shows "dr_children d' = [] \<or>
    (\<exists>e cfg algo c. res = Inl e \<and> ParseArgs (be_exists env) args = Inr cfg \<and> algo \<in> set (bench_algos cfg) \<and>
       dr_children d' = [c] \<and> left_behind env cfg algo e c)"
proof -
  show ?thesis
  proof (cases "\<exists>cfg ports. ParseArgs (be_exists env) args = Inr cfg \<and>
      SpawnEchoServices (be_local_port env) (b_services cfg) = Inr ports \<and> ports \<noteq> []")
    case False
    have "dr_children d' = dr_children d"
    proof (cases "ParseArgs (be_exists env) args")
      case (Inl e)
      with assms(1) show ?thesis by (simp add: bench_main_def run_bind_def say_def run_of_def)
    next
      case (Inr cfg)
      with False assms(1) show ?thesis
        by (cases "SpawnEchoServices (be_local_port env) (b_services cfg)")
           (auto simp: bench_main_def run_bind_def say_def run_of_def)
    qed
    with assms(2) show ?thesis by simp
  next
    case True
    then obtain cfg ports where ok: "ParseArgs (be_exists env) args = Inr cfg"
      "SpawnEchoServices (be_local_port env) (b_services cfg) = Inr ports" "ports \<noteq> []" by blast
    let ?d = "d\<lparr>dr_out := dr_out d @ bench_banner cfg @ services_line ports\<rparr>"
    let ?rest = "\<lambda>rs. run_bind (print_summary ops rs) (\<lambda>_.
        run_bind (bench_save ops env cfg rs) (\<lambda>_. bench_compare ops cfg rs))"
    obtain res1 d1 where phases: "run_phases ops env cfg ports (bench_algos cfg) ?d = (res1, d1)" by fastforce
    with assms(1) ok have main: "run_bind (\<lambda>_. (res1, d1)) ?rest ?d = (res, d')"
      by (simp add: bench_main_def run_bind_def run_of_def say_def)
    have "keeps_children (?rest rs)" for rs by (intro keeps_children_bind) simp_all
    from keeps_childrenD [OF this] main have "dr_children d' = dr_children d1 \<and> (\<forall>e. res1 = Inl e \<longrightarrow> res = Inl e)"
      by (cases res1) (auto simp: run_bind_def)
    moreover have "dr_children ?d = []" using assms(2) by simp
    note run_phases_children [OF phases this assms(3)]
    ultimately show ?thesis using ok(1) by auto
  qed
qed

theorem driver_stops_its_balancers_witness:
  "\<exists>d' c. bench_main nat_ops demo_env [''--requests'', ''0'', ''--algo'', ''p2c'', ''lb''] demo_driver = (Inl Hangs, d') \<and>
     dr_children d' = [c] \<and> ch_image c = Executes ''lb'' ''/tmp/bb-cppbench-p2c.yaml''"
proof -
  let ?cfg = "BenchConfig_default\<lparr>b_requests := 0, b_algo := ''p2c'', b_lbBinary := ''lb''\<rparr>"
  have cfg: "ParseArgs (be_exists demo_env) [''--requests'', ''0'', ''--algo'', ''p2c'', ''lb''] = Inr ?cfg"
    by (simp add: ParseArgs_def demo_env_def demo_numbers BenchConfig_default_def arg_handlers_def starts_with_dash_def)
  have ports: "SpawnEchoServices (be_local_port demo_env) (b_services ?cfg) = Inr [19100, 19101, 19102, 19103, 19104]"
    by (simp add: SpawnEchoServices_def demo_env_def spawn_ports_all k_serviceBasePort_def BenchConfig_default_def upto_rec1)
  have "RunLoad 0 50 = (Inr (LoadContext_start 0 50) :: nat LoadContext throws)"
    by (simp add: RunLoad_def LaunchWave_def LoadContext_start_def)
  moreover have "ioc_run (LoadContext_start 0 50 :: nat LoadContext) demo_load = None"
    by (rule ioc_run_idle) (simp_all add: LoadContext_start_def)
  moreover obtain d0 where d0: "d0 = demo_driver\<lparr>dr_out := bench_banner ?cfg @ services_line [19100, 19101, 19102, 19103, 19104]\<rparr>"
    by blast
  then have "dr_children d0 = []" "dr_files d0 = Map.empty" by (simp_all add: demo_driver_def)
  ultimately obtain d' where phase: "run_phases nat_ops demo_env ?cfg [19100, 19101, 19102, 19103, 19104] [''p2c''] d0 =
      (Inl Hangs, d')" "dr_children d' \<noteq> []"
    by (simp add: RunPhase_def measured_phase_def run_bind_def say_def run_of_def files_run_def WriteTempConfig_def StartLb_def
        demo_env_def demo_os_def demo_driver_def demo_port BenchConfig_default_def Let_def)
  have algos: "bench_algos ?cfg = [''p2c'']" by (simp add: bench_algos_def BenchConfig_default_def)
  moreover have "dr_out demo_driver = []" by (simp add: demo_driver_def)
  moreover obtain cfg where c: "cfg = ?cfg" by blast
  ultimately have main: "bench_main nat_ops demo_env [''--requests'', ''0'', ''--algo'', ''p2c'', ''lb''] demo_driver =
      (Inl Hangs, d')"
    using cfg ports phase(1) unfolding d0 c [symmetric] by (simp add: bench_main_def run_bind_def say_def run_of_def)
  have "dr_children demo_driver = []" "\<forall>algo. be_fork demo_env algo \<noteq> 0" by (simp_all add: demo_driver_def demo_env_def)
  from driver_stops_its_balancers [OF main this] phase(2) cfg algos
  obtain c where "dr_children d' = [c]" "left_behind demo_env ?cfg ''p2c'' Hangs c" by auto
  then have "ch_image c = Executes ''lb'' ''/tmp/bb-cppbench-p2c.yaml''"
    by (simp add: left_behind_def child_side_def demo_env_def temp_config_path_def)
  with main \<open>dr_children d' = [c]\<close> show ?thesis by blast
qed

end
