(* ===== verification/Conformance.thy ===== *)
theory Conformance
  imports Load_Balancer
begin

text \<open>
  The repository's own unit tests (\<open>tests/\<close>), carried over to the model: each lemma is the \<open>TEST\<close> of
  the same name, with the objects the test builds and the expectations it states. Where a test waits for
  the I/O service, the lemma is about what its handlers are called with. They tie the definitions to
  behaviour that is known of the code.
\<close>

section \<open>Value classes\<close>

lemma ServiceNodeTest_DefaultConstructorCreatesInvalidNode:
  "\<not> IsValid ServiceNode_default \<and> ServiceNode_GetName ServiceNode_default = [] \<and>
   ServiceNode_GetPort ServiceNode_default = 0 \<and> ServiceNode_GetWeight ServiceNode_default = 1"
  by code_simp

lemma ServiceNodeTest_ValidIpAddresses:
  "\<forall>ip\<in>set [''0.0.0.0'', ''255.255.255.255'', ''10.0.0.1'', ''192.168.1.100'']. IsValid (ServiceNode_new ''n'' ip 1 1)"
  by code_simp

lemma ServiceNodeTest_InvalidIpFormats:
  "\<forall>ip\<in>set [''256.0.0.1'', ''1.2.3'', ''1.2.3.4.5'', ''abc.def.ghi.jkl'', ''192.168.1.'', ''.168.1.1'', ''192.168.01.1'',
     ''192.168.1.999'', '''', ''just-text'', ''192.168.1.1.1'']. \<not> IsValid (ServiceNode_new ''n'' ip 1 1)"
  by code_simp

lemma ServiceNodeTest_EmptyNameAndZeroPortAreInvalid:
  "\<not> IsValid (ServiceNode_new '''' ''192.168.1.10'' 80 1) \<and> \<not> IsValid (ServiceNode_new ''web-1'' ''192.168.1.10'' 0 1) \<and>
   IsValid (ServiceNode_new ''web-1'' ''10.0.0.1'' 65535 1)"
  by code_simp

lemma LoadBalancerConfigTest_DefaultConstructorSetsDefaults:
  "let config = LoadBalancerConfig_default; hc = GetHealthCheck config; conn = GetConnection config
   in GetName config = ''my-bit-bridge-lb'' \<and> GetListenAddress config = ''0.0.0.0'' \<and> GetListenPort config = 8080 \<and>
      GetRoutingAlgorithm config = ''p2c'' \<and> GetServiceCount config = 0 \<and>
      GetEnabled hc \<and> GetIntervalMs hc = 5000 \<and> GetTimeoutMs hc = 2000 \<and> GetUnhealthyThreshold hc = 3 \<and>
      GetMaxPerService conn = 1024 \<and> GetIdleTimeoutMs conn = 30000 \<and> GetConnectTimeoutMs conn = 5000"
  by (simp add: LoadBalancerConfig_default_def HealthCheckConfig_default_def ConnectionConfig_default_def accessors)

lemma LoadBalancerConfigTest_RemoveService:
  "let web = (\<lambda>n. ServiceNode_new n ''10.0.0.1'' 80 1);
       config = AddService (web ''web-2'') (AddService (web ''web-1'') LoadBalancerConfig_default)
   in GetServiceCount config = 2 \<and> map ServiceNode_GetName (GetServices (RemoveService 0 config)) = [''web-2''] \<and>
      RemoveService 5 config = config \<and> RemoveService 0 LoadBalancerConfig_default = LoadBalancerConfig_default"
  by (simp add: LoadBalancerConfig_default_def RemoveService_def accessors)

section \<open>State\<close>

lemma ServiceStateTest_IncrementDecrementConnections:
  "let state = IncrementConnections (IncrementConnections (IncrementConnections
         (ServiceState_new (ServiceNode_new ''s'' ''1.2.3.4'' 80 1))))
   in GetActiveConnections state = 3 \<and> GetActiveConnections (DecrementConnections state) = 2"
  by code_simp

lemma ServiceStateTest_FailureCountingAndReset:
  "let state = IncrementFailures (IncrementFailures (IncrementFailures
         (ServiceState_new (ServiceNode_new ''s'' ''1.2.3.4'' 80 1))))
   in GetConsecutiveFailures state = 3 \<and> GetConsecutiveFailures (ResetFailures state) = 0"
  by code_simp

lemma ServiceStateTest_CopyConstructorCopiesAtomics:
  "let original = IncrementFailures (SetHealthy False (IncrementConnections (IncrementConnections
         (ServiceState_new (ServiceNode_new ''s'' ''1.2.3.4'' 80 1)))));
       copied = ServiceState_copy original
   in GetActiveConnections copied = 2 \<and> \<not> IsHealthy copied \<and> GetConsecutiveFailures copied = 1 \<and>
      ServiceNode_GetName (GetNode copied) = ''s''"
  by code_simp

text \<open>The fixture of the routing tests: \<open>n\<close> nodes with names and addresses of their own.\<close>

definition MakeNodes :: "nat \<Rightarrow> ServiceNode list" where
  "MakeNodes n =
     map (\<lambda>i. ServiceNode_new (''svc-'' @ to_decimal i) (''10.0.0.'' @ to_decimal (i + 1)) (of_nat (8080 + i)) 1) [0..<n]"

lemma length_MakeNodes [simp]: "length (MakeNodes n) = n"
  by (simp add: MakeNodes_def)

lemma MakeNodes_empty [simp]: "MakeNodes n = [] \<longleftrightarrow> n = 0"
  by (simp add: MakeNodes_def)

lemma MakeNodes_healthy: "healthy_at (ServicePool_new (MakeNodes n)) i \<longleftrightarrow> i < n"
  by (auto simp: healthy_at_def ServicePool_new_def MakeNodes_def ServiceState_new_def accessors GetSize_def)

lemma ServicePoolTest_AllServicesStartHealthy:
  "GetHealthyCount (ServicePool_new (MakeNodes 3)) = 3 \<and> GetSize (ServicePool_new []) = 0 \<and>
   GetService (ServicePool_new []) 0 = Inl OutOfRange"
  by (simp add: GetHealthyCount_eq ServicePool_new_def MakeNodes_def ServiceState_new_def accessors GetSize_def
      GetService_def upt_conv_Cons)

section \<open>Routing\<close>

text \<open>A pool of which some services have been marked down.\<close>

definition with_health :: "(nat \<Rightarrow> bool) \<Rightarrow> ServicePool \<Rightarrow> ServicePool" where
  "with_health up pool =
     pool\<lparr>m_services := map (\<lambda>i. SetHealthy (up i) (m_services pool ! i)) [0..<GetSize pool]\<rparr>"

lemma with_health_size [simp]: "GetSize (with_health up pool) = GetSize pool"
  by (simp add: with_health_def GetSize_def)

lemma with_health_healthy [simp]: "healthy_at (with_health up pool) i \<longleftrightarrow> i < GetSize pool \<and> up i"
  by (auto simp: healthy_at_def with_health_def accessors GetSize_def)

lemma P2CStrategyTest_ReturnsErrorOnEmptyPool:
  "P2C_SelectService dist (P2CStrategy_new 42) (ServicePool_new []) key = Some (Inr (Inl PoolEmpty), P2CStrategy_new 42)"
  by (simp add: P2C_SelectService_def GetSize_def ServicePool_new_def)

lemma P2CStrategyTest_ReturnsErrorWhenAllUnhealthy:
  "P2C_SelectService dist (P2CStrategy_new 42) (with_health (\<lambda>_. False) (ServicePool_new (MakeNodes 2))) key =
     Some (Inr (Inl NoHealthyServices), P2CStrategy_new 42)"
  by (simp add: P2C_SelectService_def healthy_list_def)

lemma P2CStrategyTest_ReturnsSingleHealthyService:
  "P2C_SelectService dist (P2CStrategy_new 42) (with_health (\<lambda>i. i = 1) (ServicePool_new (MakeNodes 3))) key =
     Some (Inr (Inr 1), P2CStrategy_new 42)"
  by (simp add: P2C_SelectService_def healthy_list_def upt_conv_Cons vector_at_def)

lemma P2CStrategyTest_NeverSelectsUnhealthyService:
  assumes "dist_ok dist"
    and "P2C_SelectService dist (P2CStrategy_new 42) (with_health (\<lambda>i. i \<noteq> 1) (ServicePool_new (MakeNodes 3))) key =
      Some (Inr (Inr i), st')"
  shows "i \<noteq> 1"
proof -
  have "p2c_object_ready (dist, P2CStrategy_new 42) (with_health (\<lambda>i. i \<noteq> 1) (ServicePool_new (MakeNodes 3)))"
    using assms(1) by (simp add: p2c_object_ready_def P2CStrategy_new_nonzero)
  moreover have "p2c_object_select (dist, P2CStrategy_new 42) (with_health (\<lambda>i. i \<noteq> 1) (ServicePool_new (MakeNodes 3))) key =
      Some (Inr (Inr i), (dist, st'))"
    using assms(2) by (simp add: p2c_object_select_def)
  ultimately have "healthy_at (with_health (\<lambda>i. i \<noteq> 1) (ServicePool_new (MakeNodes 3))) i"
    by (rule p2c.select_healthy)
  then show ?thesis by simp
qed

lemma ConsistentHashStrategyTest_ReturnsErrorOnEmptyPool:
  "\<exists>st. ConsistentHashStrategy_new (ServicePool_new []) = Inr st \<and>
     CH_SelectService st (ServicePool_new []) ''10.0.0.1'' = Some (Inr (Inl PoolEmpty), st)"
  by (simp add: new_ring_Inr_iff ring_points_def GetSize_def ServicePool_new_def CH_SelectService_def)

text \<open>The ring is built before services fail; its constructor does not see their health.\<close>

lemma ConsistentHashStrategyTest_GhostNodesPreserveMapping:
  assumes "ConsistentHashStrategy_new (ServicePool_new (MakeNodes 3)) = Inr st"
    and "CH_SelectService st (ServicePool_new (MakeNodes 3)) ''client-1'' = Some (Inr (Inr before), st)"
  shows "CH_SelectService st (with_health (\<lambda>i. i \<noteq> (before + 1) mod 3) (ServicePool_new (MakeNodes 3))) ''client-1'' =
    Some (Inr (Inr before), st)"
proof -
  let ?pool = "ServicePool_new (MakeNodes 3)" and ?down = "with_health (\<lambda>i. i \<noteq> (before + 1) mod 3) (ServicePool_new (MakeNodes 3))"
  note ready = new_ring_ready [OF assms(1)]
  have down: "ring_ready st ?down" by (rule ch.ready_resize [OF ready]) simp
  have near: "nearest_healthy st ?pool ''client-1'' before" by (rule CH_select_nearest [OF ready assms(2)])
  then have "before < 3" using ch.select_healthy [OF ready assms(2)] by (simp add: MakeNodes_healthy)
  then have "before \<noteq> (before + 1) mod 3" by presburger
  with \<open>before < 3\<close> have "nearest_healthy st ?down ''client-1'' before"
    by (intro nearest_healthy_shrink [OF near]) (simp_all add: MakeNodes_healthy)
  with nearest_healthy_iff [OF down] show ?thesis by blast
qed

lemma ConsistentHashStrategyTest_SkipsUnhealthyAndFindsNext:
  assumes "ConsistentHashStrategy_new (ServicePool_new (MakeNodes 3)) = Inr st" and "original < 3"
  shows "\<exists>i. CH_SelectService st (with_health (\<lambda>i. i \<noteq> original) (ServicePool_new (MakeNodes 3))) ''test-key'' =
      Some (Inr (Inr i), st) \<and> i \<noteq> original"
proof -
  let ?down = "with_health (\<lambda>i. i \<noteq> original) (ServicePool_new (MakeNodes 3))"
  have down: "ring_ready st ?down" by (rule ch.ready_resize [OF new_ring_ready [OF assms(1)]]) simp
  obtain r where r: "CH_SelectService st ?down ''test-key'' = Some (Inr r, st)"
    using CH_select_cases [OF down] by blast
  have "healthy_at ?down ((original + 1) mod 3)" using assms(2) by simp presburger
  then have "0 < GetHealthyCount ?down" using GetHealthyCount_0_iff [of ?down] by auto
  then obtain i where "r = Inr i" using ch.select_service_iff [OF down r] by blast
  with r ch.select_healthy [OF down, of "''test-key''" i st] show ?thesis by auto
qed

section \<open>Health checks\<close>

lemma HealthCheckerTest_MarksBackendUnhealthyWhenUnreachable:
  "let config = HealthCheckConfig_new True 50 50 2;
       svc = run_probes config [io_error 111, io_error 111] (ServiceState_new (ServiceNode_new ''unreachable'' ''127.0.0.1'' 19998 1))
   in \<not> IsHealthy svc \<and> GetConsecutiveFailures svc = 2"
  by (simp add: run_probes_def probe_result_def Let_def accessors HealthCheckConfig_new_def ServiceState_new_def)

lemma HealthCheckerTest_RecoverBackendAfterComingBackUp:
  "let config = HealthCheckConfig_new True 50 50 2;
       svc = run_probes config [io_error 111, io_error 111, success] (ServiceState_new (ServiceNode_new ''recovering'' ''127.0.0.1'' 19997 1))
   in IsHealthy svc \<and> GetConsecutiveFailures svc = 0"
  by (simp add: run_probes_def probe_result_def Let_def accessors HealthCheckConfig_new_def ServiceState_new_def)

lemma HealthCheckerTest_StopPreventsfurtherProbes:
  assumes "\<forall>i n a port. ProbeConnect i n a port \<notin> set (m_pending checker)"
    and "hc_complete make_address h ec pool (HealthChecker_Stop checker) = Inr (pool', checker')"
    and "h \<in> set (m_pending checker)"
  shows "pool' = pool \<and> (\<forall>i n a port. ProbeConnect i n a port \<notin> set (m_pending checker'))"
  using assms stopped_complete [OF _ assms(2)] set_remove1_subset [of h "m_pending checker"]
  by (cases h) (auto simp: handlers Let_def split: if_splits)

section \<open>Sessions and the proxy\<close>

lemma SessionTest_ConnectionCounterDecrementedOnDestruction:
  "let pool = ServicePool_new [ServiceNode_new ''test-backend'' ''127.0.0.1'' 8080 1]
   in \<exists>busy. ServicePool_update pool 0 IncrementConnections = Inr busy \<and>
        map GetActiveConnections (m_services busy) = [1] \<and>
        (\<exists>idle. Session_destroy (Session_new 0 1 1) busy = Inr idle \<and> map GetActiveConnections (m_services idle) = [0])"
  by (simp add: Let_def Session_destroy_def Session_new_def ServicePool_update_eq GetSize_def ServicePool_new_def
      ServiceState_new_def IncrementConnections_def DecrementConnections_def accessors)

text \<open>A refused connection and the cancelled timer leave nothing that holds the session.\<close>

lemma SessionTest_ConnectFailureDecrementsCounter:
  "let s = session_complete (Connect ''127.0.0.1'' 19999, True) (io_error 111) []
         ((Session_new 0 200 5000)\<lparr>s_backendOpen := True,
            s_pending := [(ConnectTimer, True), (Connect ''127.0.0.1'' 19999, True)]\<rparr>);
       t = session_complete (ConnectTimer, False) operation_aborted [] s
   in m_shuttingDown s \<and> s_pending t = []"
  by (simp add: handlers Session_new_def Let_def)

lemma TcpProxyTest_DropsConnectionWhenNoHealthyBackend:
  assumes "dist_ok dist"
  shows "OnAccept p2c_object_select make_address (Some ''127.0.0.1'') success
      (with_health (\<lambda>_. False) (ServicePool_new (MakeNodes 1))) (dist, P2CStrategy_new 1) p =
    Some (Inr (with_health (\<lambda>_. False) (ServicePool_new (MakeNodes 1)), (dist, P2CStrategy_new 1), AcceptNext p, None))"
  by (simp add: OnAccept_def p2c_object_select_def P2C_SelectService_def healthy_list_def)

text \<open>After \<open>Stop\<close> an accept can only fail.\<close>

lemma TcpProxyTest_StopClosesAcceptor:
  "p_accepts (AcceptNext (TcpProxy_Stop p)) = p_accepts p @ [False]"
  by (simp add: handlers)

section \<open>The serializer\<close>

lemma YamlConfigSerializerTest_LoadFromNonexistentFileReturnsFalse:
  "\<exists>e. Load tree_lib Map.empty LoadBalancerConfig_default ''nonexistent/path/config.yaml'' =
     (LoadBalancerConfig_default, Inl e)"
  by (simp add: Load_def LoadFile_def)

lemma YamlConfigSerializerTest_LoadFromMalformedYamlReturnsFalse:
  assumes "parse lib content = Inl e"
  shows "\<exists>msg. Load lib [file \<mapsto> content] LoadBalancerConfig_default file = (LoadBalancerConfig_default, Inl msg)"
  using assms by (simp add: Load_def LoadFile_def)

lemma YamlConfigSerializerTest_LoadPartialYamlUsesDefaults:
  "Load tree_lib [''test.yaml'' \<mapsto> tokens_of (YMap [(''name'', YText ''partial-config''), (''listenPort'', YNum 3000)])]
     LoadBalancerConfig_default ''test.yaml'' =
   (LoadBalancerConfig_default\<lparr>m_lbName := ''partial-config'', m_listenPort := 3000\<rparr>, Inr ())"
  by (simp add: Load_def LoadFile_def tree_lib_def load_root_def load_scalars_def load_sections_def
      load_service_list_def followed_by_def set_if_def accessors LoadBalancerConfig_default_def)

end
