(* ===== verification/Spec2Isabelle.thy ===== *)
theory Spec2Isabelle
  imports Balancer_Spec Session_Spec Session_Timers Graceful_Shutdown Process_Console Editor_Layout Bench_Main Bench_Report Conformance
begin

text \<open>
  Bit Bridge, a TCP load balancer with a configuration editor.

  The program. \<open>core/main.cpp\<close> loads a YAML configuration (\<open>lib/serialization\<close>, \<open>lib/model\<close>),
  builds a pool of backends (\<open>core/state\<close>) and a routing strategy (\<open>core/routing\<close>), and runs one
  event loop on one thread. In it the proxy (\<open>core/proxy/TcpProxy\<close>) accepts clients, asks the
  strategy for a backend and creates a session (\<open>core/proxy/Session\<close>) that relays bytes both ways
  and counts itself on the backend; the health checker (\<open>core/health\<close>) probes the backends and
  sets the flags the strategies read. The editor (\<open>ui\<close>) is a separate program that edits and saves
  the configuration.

  The theories, in the order they build on each other:

    \<^item> \<open>Prelude\<close>: machine integers, exceptions as the left of a sum (\<open>'a throws\<close>), decimal printing
      and reading, reachability (\<open>reach\<close>) and the locales \<open>inductive_invariant\<close> and \<open>refinement\<close>.
    \<^item> \<open>Service_Node\<close>, \<open>Config\<close>: the value classes of \<open>lib/model\<close>; the address check accepts exactly
      the canonical dotted quads.
    \<^item> \<open>Service_State\<close>, \<open>Service_Pool\<close>: counters and health flags. The compare-and-swap loop is also
      a step relation with other threads interleaved. \<open>service_store\<close> is the pool's contract.
    \<^item> \<open>Fnv_Hash\<close>, \<open>Xoshiro\<close>: the hash of the ring and the generator of P2C.
    \<^item> \<open>Routing\<close>: the interface \<open>IRoutingStrategy\<close> as the locale \<open>routing_strategy\<close>; \<open>P2C_Strategy\<close> and
      \<open>Consistent_Hash\<close> provide it, and so does the object \<open>main\<close> creates (in \<open>Load_Balancer\<close>).
    \<^item> \<open>Async_Io\<close>: error codes and address parsing, the vocabulary of the handlers.
    \<^item> \<open>Health_Checker\<close>, \<open>Session\<close>, \<open>Tcp_Proxy\<close>: one function per method and per lambda. The
      operations the I/O service still has to complete are part of the state; which completes next,
      and how, is free.
    \<^item> \<open>Yaml_Serializer\<close>: \<open>Save\<close> as the tokens it streams, \<open>Load\<close> as its assignments one after the
      other, so that a failure midway leaves the object as the code leaves it. \<open>Block_Yaml\<close>: YAML documents in
      block style with their text and meaning, and a reader proved to read them all back.
    \<^item> \<open>Load_Balancer\<close>: \<open>main\<close>, and the process as a step relation over all components.
    \<^item> \<open>Process_Console\<close>: what the process prints, at its start and from its handlers.
    \<^item> \<open>Balancer_Spec\<close>: what the process promises, as a state machine of backends that are up or down and
      have a load, and the proof that the process refines it.
    \<^item> \<open>App_Settings\<close>, \<open>Main_Frame\<close>, \<open>Editor_Window\<close>, \<open>Editor_Layout\<close>: the editor's settings, its handlers,
      the window with its file as a state machine driven by clicks, keys and resizing, and the widgets
      with their sizers and tab order.
    \<^item> \<open>Session_Spec\<close>: a session as a relay with one bounded first-in first-out pipe per direction;
      \<open>Session_Timers\<close>: which waits on its two timers are live, before and after a shutdown.
    \<^item> \<open>Graceful_Shutdown\<close>: what a signal does to the process, and why the event loop then runs dry.
    \<^item> \<open>Bench_Args\<close>, \<open>Bench_Load\<close>, \<open>Bench_Stats\<close>, \<open>Bench_Baseline\<close>, \<open>Bench_Main\<close>: the benchmark driver
      \<open>bench/main.cpp\<close>: its command line, the load loop as a step relation, the statistics, the
      baseline file and the text scan that reads it, the mock services, the configuration it writes for
      the balancer and \<open>main\<close>.
    \<^item> \<open>Echo_Service\<close>, \<open>Bench_Process\<close>, \<open>Bench_Console\<close>, \<open>Bench_Report\<close>: the mock service; the balancer the
      driver forks, waits for and stops, with the driver's state passed along; the lines, the result
      table and the summary it prints.
    \<^item> \<open>Conformance\<close>: the unit tests of \<open>tests\<close> replayed on the definitions, one lemma per test case.
    \<^item> \<open>Spec2Isabelle\<close>: the properties that span the editor, the serializer and the process.

  What the lemmas show. Per component: invariants of every step (\<open>session_step_inv\<close>,
  \<open>lb_step_inv\<close>), the outcome of every operation on every branch, equality of loops with closed
  forms, termination of loops and of the work left after a shutdown, and round trips. For the whole:
  each backend's counter equals its live sessions in every reachable state, clients reach healthy
  backends only, what can and what cannot end the process, and that a saved configuration is what
  the process runs with, as is the one the benchmark driver writes. The process refines the state
  machine of \<open>Balancer_Spec\<close>, and a session the relay of \<open>Session_Spec\<close>: it forwards the bytes of each
  side in order, holding back at most one buffer. After a signal outside the one race, no new client
  is taken and the process has only its sessions left to drain. For the editor: in every reachable window every service is valid or was found when the
  editor opened, the list shows the configuration unless the start-up load failed, a window without the
  unsaved mark is as it opened or shows what its file holds, and a process started on the file of an editor
  that found none is never ended by an address. For the event loop: every completion is handled to its end. For the driver: the
  load loop accounts for every request and ends, the statistics are order statistics, the
  comparison reads exactly what was saved, what a run prints is exactly known, and a run that
  returns has stopped every balancer it started, while one that hangs or dies may leave the last. Several properties state behaviour that is not what one
  would wish for (a reset client that ends the process, a shutdown race that never ends, an idle
  timer that only one direction re-arms, a session that outlives its shutdown, a failed load in the
  editor that truncates the file, a benchmark that hangs on zero connections).

  Outside the sources. Boost.Asio, yaml-cpp, toml++, wxWidgets, the file system, \<open>make_address\<close> and
  \<open>uniform_int_distribution\<close> are arguments of the definitions. What is used of them is stated where it
  is needed: \<open>completion_ok\<close> (reads and writes move what they report, operations on closed sockets
  fail, a wait on a timer ends without an error unless it was cancelled), \<open>hc_completion_ok\<close> (the same
  for the checker's timers), \<open>accept_completion_ok\<close> (only closing the acceptor aborts an accept),
  \<open>dist_ok\<close> (draws in range that do not repeat for ever, on generator states other than zero, which
  seeded generators never reach), \<open>reads_back\<close> (yaml-cpp reads the printable documents it emits).
  \<open>parses_dotted_quads\<close> (\<open>make_address\<close> parses four numbers up to 255 with dots between them).
  \<open>reads_block_style\<close> is the same for block-style text, by the general rules of \<open>Block_Yaml\<close>; that the
  text of the benchmark driver is of this kind is proved. Arithmetic on \<open>double\<close> is a
  record of functions too. Each has an instance with which the witnesses are evaluated.

  Bounds. Integers have the width of the source; where the source has an \<open>int\<close> the model has \<open>int\<close>, with the
  range checked where the value can leave it (\<open>stoi\<close>, the error percentage) and an invariant where it
  cannot: the counters of the load generator stay between 0 and the number of requests. The number of sessions is below the number of
  descriptors a process may open, which is assumed to be below \<open>2 ^ 64\<close>; then no connection counter
  wraps. Probe results are counted in runs shorter than \<open>2 ^ 64\<close>. No fuel is used in the model (the reader of
  \<open>Block_Yaml\<close> has twice as many steps as lines): loops are functions with a measure, and the rejection loop, which may diverge, is a partial function.

  Not modelled: the messages about sockets that fail to close, fonts and colours of the editor, and
  the tests that only wait on real sockets and clocks.
\<close>

section \<open>Properties\<close>

text \<open>
  C17: from the editor to the running process. A configuration with at least one service, one of the two
  algorithms (with the ring free of collisions for consistent hashing) and a listen address that parses
  and binds, saved by the serializer, is what a process started on that file runs with: it reaches its
  event loop with the saved services in order, the strategy of the saved algorithm, the saved timeouts, and
  a health checker with the saved settings exactly when they enable it.
\<close>

theorem saved_configuration_runs:
  assumes "reads_back (pf_yaml pf)" and "printable_config config"
    and "has_parent_path path \<longrightarrow> mkdirs_ok os (parent_path path)" and "open_ok os path"
    and "\<forall>text. stored os path text = text"
    and "Save (pf_yaml pf) os config path files = Inr (Inr (), files')" and "pf_files pf = files'"
    and "m_nodes config \<noteq> []"
    and "m_routingAlgorithm config = ''p2c'' \<or> m_routingAlgorithm config = ''consistent-hash'' \<and>
      distinct (map fst (ring_points (ServicePool_new (m_nodes config))))"
    and "pf_make_address pf (m_listenAddress config) = Some a" and "pf_bind pf a (m_listenPort config)"
  shows "\<exists>lb. main_start pf [program, path] = Running lb \<and>
    map m_node (m_services (lb_pool lb)) = m_nodes config \<and>
    p_connectTimeoutMs (lb_proxy lb) = Config.m_connectTimeoutMs (m_connection config) \<and>
    p_idleTimeoutMs (lb_proxy lb) = Config.m_idleTimeoutMs (m_connection config) \<and>
    map_option m_config (lb_checker lb) =
      (if m_enabled (m_healthCheck config) then Some (m_healthCheck config) else None) \<and>
    (m_routingAlgorithm config = ''p2c'' \<and>
       lb_strategy lb = UseP2C (pf_dist pf, P2CStrategy_new (pf_random_device pf)) \<or>
     m_routingAlgorithm config = ''consistent-hash'' \<and>
       (\<exists>ring. ConsistentHashStrategy_new (lb_pool lb) = Inr ring \<and> lb_strategy lb = UseConsistentHash ring))"
proof -
  have load: "Load (pf_yaml pf) (pf_files pf) LoadBalancerConfig_default path = (config, Inr ())"
    using Load_Save [OF assms(1-5), of files LoadBalancerConfig_default] assms(6,7) by auto
  then have start: "main_start pf [program, path] = main_configured pf config"
    by (simp add: main_start_def)
  obtain lb where lb: "main_start pf [program, path] = Running lb"
    using main_start_Running_iff [of pf "[program, path]"] load assms(8-11) by auto
  with start have "main_configured pf config = Running lb" by simp
  then have "runs_with pf config lb" by (rule main_configured_runs_with)
  with lb show ?thesis unfolding runs_with_def by blast
qed

theorem saved_configuration_runs_witness:
  "\<exists>lb. main_start demo_platform [''bit_bridge_lb'', ''lb.yaml''] = Running lb \<and>
     map m_node (m_services (lb_pool lb)) = [ServiceNode_new ''web-1'' ''10.0.0.1'' 8080 1] \<and>
     map_option m_config (lb_checker lb) = Some HealthCheckConfig_default"
proof -
  let ?disk = "\<lparr>mkdirs_ok = (\<lambda>_. True), open_ok = (\<lambda>_. True), stored = (\<lambda>_ text. text)\<rparr> :: yaml_token list os"
  have r: "reads_back (pf_yaml demo_platform)" by (simp add: demo_platform_def tree_lib_reads_back)
  have p: "printable_config demo_config" by (simp add: printable_config_def demo_config_def accessors)
  have save: "Save (pf_yaml demo_platform) ?disk demo_config ''lb.yaml'' Map.empty =
      Inr (Inr (), pf_files demo_platform)"
    by (simp add: Save_def demo_platform_def tree_lib_def has_parent_path_def parent_path_def)
  have disk: "has_parent_path ''lb.yaml'' \<longrightarrow> mkdirs_ok ?disk (parent_path ''lb.yaml'')" "open_ok ?disk ''lb.yaml''"
    "\<forall>text. stored ?disk ''lb.yaml'' text = text" by simp_all
  have config: "m_nodes demo_config \<noteq> []" "m_routingAlgorithm demo_config = ''p2c''"
    "pf_make_address demo_platform (m_listenAddress demo_config) = Some ''0.0.0.0''"
    "pf_bind demo_platform ''0.0.0.0'' (m_listenPort demo_config)" "m_enabled HealthCheckConfig_default"
    "m_nodes demo_config = [ServiceNode_new ''web-1'' ''10.0.0.1'' 8080 1]" "m_healthCheck demo_config = HealthCheckConfig_default"
    by (simp_all add: demo_platform_def demo_config_def accessors HealthCheckConfig_default_def)
  show ?thesis
    using saved_configuration_runs [OF r p disk save refl config(1) disjI1 [OF config(2)] config(3,4), of "''bit_bridge_lb''"]
    unfolding config(6,7) by (auto simp: config(5))
qed

text \<open>What is presumed of \<open>make_address\<close>; an address that passes the editor's check is such a quad.\<close>

definition parses_dotted_quads :: "'a address_parser \<Rightarrow> bool" where
  "parses_dotted_quads make_address \<longleftrightarrow>
     (\<forall>a b c d. a \<le> 255 \<and> b \<le> 255 \<and> c \<le> 255 \<and> d \<le> 255 \<longrightarrow> make_address (dotted_quad a b c d) \<noteq> None)"

lemma valid_service_parses:
  assumes "parses_dotted_quads make_address" and "IsValid s"
  shows "make_address (m_ip s) \<noteq> None"
proof -
  have "\<exists>a b c d. a \<le> 255 \<and> b \<le> 255 \<and> c \<le> 255 \<and> d \<le> 255 \<and> m_ip s = dotted_quad a b c d"
    using assms(2) IsValidIpv4_iff_octets [of "m_ip s"] four_octets_iff [of "m_ip s"] by (simp add: IsValid_def)
  with assms(1) show ?thesis by (auto simp: parses_dotted_quads_def)
qed

text \<open>Nothing leads from a process that has ended.\<close>

lemma reach_from_running:
  assumes "reach (\<lambda>p. p = p0) (lb_step make_address max_files) q"
  shows "(\<exists>lb0. p0 = Running lb0) \<or> q = p0"
  using assms by induction (auto elim: lb_step.cases)

text \<open>What an editor that opened without a file leaves in it.\<close>

lemma edited_file_services_ok:
  assumes "reads_back lib" and "f0 = MainFrame_new lib (\<lambda>path. files0 path \<noteq> None) files0 geometry settings"
    and "files0 (m_configFilePath settings) = None" and "printable_config (f_config f0)"
    and "reach (\<lambda>s. s = (f0, files0)) (window_step lib ulong) (f, files)"
    and "file_config lib settings files = (config, Inr ())"
  shows "services_ok config"
proof -
  have none: "file_config lib settings files0 = (LoadBalancerConfig_default, Inl (''YAML error: '' @ bad_file lib (m_configFilePath settings)))"
    by (simp add: file_config_def Load_def LoadFile_def assms(3))
  have "m_nodes (f_config f0) = []"
    using assms(3) by (simp add: assms(2) MainFrame_new_def LoadExistingConfig_def accessors Let_def
        m_nodes_ApplyDefaultConfig MainFrame_widgets_def LoadBalancerConfig_default_def ApplyDefaultConfig_def)
  moreover have settings: "f_settings f0 = settings" by (simp add: assms(2) MainFrame_new_fields)
  ultimately have "found lib f0 files0 = {}" by (simp add: found_def none LoadBalancerConfig_default_def)
  moreover have "window_inv lib f0 files0 (f, files)"
    by (rule reachable_window_inv [OF assms(1,2,4) _ assms(5)]) (simp add: none)
  ultimately show ?thesis
    using assms(6) by (simp add: window_inv_def kept_def settings services_from_empty)
qed

text \<open>
  C8: what the editor's checks are worth to the process. Whatever the user does in an editor that opened
  without a configuration file, a process started on the file it leaves is never ended by an
  address that does not parse: once it runs, the only thing that can end it with an error is a client
  that has gone before its accept is handled. Of \<open>make_address\<close> it is presumed that it parses the
  dotted quads with numbers up to 255; that the editor lets no other address through, and that no
  exception but the named one leaves a handler, is proved.
\<close>

theorem edited_configuration_never_crashes:
  assumes "reads_back (pf_yaml pf)" and "parses_dotted_quads (pf_make_address pf)"
    and "dist_ok (pf_dist pf)" and "max_files < 2 ^ 64"
    and "f0 = MainFrame_new (pf_yaml pf) (\<lambda>path. files0 path \<noteq> None) files0 geometry settings"
    and "files0 (m_configFilePath settings) = None" and "printable_config (f_config f0)"
    and "reach (\<lambda>s. s = (f0, files0)) (window_step (pf_yaml pf) ulong) (f, pf_files pf)"
    and "reach (\<lambda>p. p = main_start pf [program, m_configFilePath settings])
      (lb_step (pf_make_address pf) max_files) (Running lb)"
    and "lb_step (pf_make_address pf) max_files (Running lb) e (Exited n)"
  shows "n = 0 \<and> no_work lb \<or> n = 1 \<and> (\<exists>opened. e = AcceptDone opened success None)"
proof -
  let ?start = "main_start pf [program, m_configFilePath settings]"
  have "\<exists>lb0. ?start = Running lb0"
    using reach_from_running [OF assms(9)] by (metis (no_types))
  then obtain config where config: "file_config (pf_yaml pf) settings (pf_files pf) = (config, Inr ())"
    and start: "?start = main_configured pf config"
    by (auto simp: main_start_def file_config_def split: prod.splits sum.splits)
  have "(\<lambda>p. p = ?start) = started pf config" by (simp add: fun_eq_iff started_def start)
  with assms(9) have running: "reach (started pf config) (lb_step (pf_make_address pf) max_files) (Running lb)" by simp
  have "services_ok config" by (rule edited_file_services_ok [OF assms(1,5-8) config])
  then have "pf_make_address pf (m_ip node) \<noteq> None" if "node \<in> set (m_nodes config)" for node
    using that valid_service_parses [OF assms(2)] by (simp add: services_ok_def)
  with exit_causes [OF running assms(3,4,10)] show ?thesis by blast
qed

text \<open>
  An editor opened without a file adds one service and saves; the process that runs on the file meets
  the one cause that is left, a client gone before its accept is handled. The parser accepts exactly
  what the editor does.
\<close>

definition strict_parser :: "string address_parser" where
  "strict_parser s = (if IsValidIpv4 s then Some s else None)"

lemma strict_parser_ok: "parses_dotted_quads strict_parser"
  unfolding parses_dotted_quads_def strict_parser_def IsValidIpv4_iff_octets four_octets_iff by auto

definition edited_platform :: "yaml_token list files \<Rightarrow> (string, yaml, yaml_token list) platform" where
  "edited_platform files =
     \<lparr>pf_yaml = tree_lib, pf_files = files, pf_make_address = strict_parser, pf_bind = (\<lambda>_ _. True),
      pf_dist = updown_dist, pf_random_device = 42\<rparr>"

definition demo_editor :: MainFrame where
  "demo_editor = MainFrame_new tree_lib (\<lambda>_. False) Map.empty demo_geometry AppSettings_new"

definition demo_typed :: MainFrame where
  "demo_typed =
     type_text PortInput ''8080'' (type_text IpInput ''10.0.0.1'' (type_text NameInput ''web-1'' demo_editor))"

definition demo_edited :: MainFrame where
  "demo_edited = OnAddService (\<lambda>s. Some (of_decimal s)) demo_typed"

lemma demo_editor_config:
  "m_nodes (f_config demo_editor) = []" "printable_config (f_config demo_editor)"
  by (simp_all add: printable_config_def demo_editor_def MainFrame_new_def LoadExistingConfig_def
      MainFrame_widgets_def ApplyDefaultConfig_def AppSettings_new_def LoadBalancerConfig_default_def
      accessors printable_def)

lemma demo_edited_config:
  "m_nodes (f_config demo_edited) = [ServiceNode_new ''web-1'' ''10.0.0.1'' 8080 1]"
  "m_routingAlgorithm (f_config demo_edited) = ''p2c''" "m_listenAddress (f_config demo_edited) = ''0.0.0.0''"
  "f_settings demo_edited = AppSettings_new" "m_configFilePath AppSettings_new = ''bitbridge-config.yaml''"
  "printable_config (f_config demo_edited)"
proof -
  have valid: "IsValidIpv4 ''10.0.0.1''" "of_decimal ''8080'' = 8080" "of_decimal ''1'' = 1" by code_simp+
  show "m_nodes (f_config demo_edited) = [ServiceNode_new ''web-1'' ''10.0.0.1'' 8080 1]"
    "m_routingAlgorithm (f_config demo_edited) = ''p2c''" "m_listenAddress (f_config demo_edited) = ''0.0.0.0''"
    "f_settings demo_edited = AppSettings_new" "m_configFilePath AppSettings_new = ''bitbridge-config.yaml''"
    "printable_config (f_config demo_edited)"
    by (simp_all add: OnAddService_def ValidateInput_def ulong_into_def Let_def MarkUnsaved_def SetStatusText_def
        RefreshServiceList_def valid IsValid_def demo_geometry_def demo_edited_def demo_typed_def demo_editor_def
        MainFrame_new_def LoadExistingConfig_def MainFrame_widgets_def ApplyDefaultConfig_def AppSettings_new_def
        LoadBalancerConfig_default_def accessors printable_config_def printable_def)
qed

text \<open>The service is typed, added and saved.\<close>

lemma demo_session:
  "\<exists>f files. reach (\<lambda>s. s = (demo_editor, Map.empty)) (window_step tree_lib (\<lambda>s. Some (of_decimal s))) (f, files) \<and>
     f_config f = f_config demo_edited \<and>
     Load tree_lib files LoadBalancerConfig_default ''bitbridge-config.yaml'' = (f_config demo_edited, Inr ())"
proof -
  let ?disk = "\<lparr>mkdirs_ok = (\<lambda>_. True), open_ok = (\<lambda>_. True), stored = (\<lambda>_ text. text)\<rparr> :: yaml_token list os"
  let ?reach = "reach (\<lambda>s. s = (demo_editor, Map.empty)) (window_step tree_lib (\<lambda>s. Some (of_decimal s)))"
  let ?path = "''bitbridge-config.yaml''"
  obtain f files where save: "OnSaveConfig tree_lib ?disk Map.empty demo_edited = Inr (f, files)"
    "Save tree_lib ?disk (f_config demo_edited) ?path Map.empty = Inr (Inr (), files)" "f_config f = f_config demo_edited"
    by (simp add: OnSaveConfig_def Save_def accessors demo_edited_config has_parent_path_def parent_path_def
        MarkSaved_def SetStatusText_def Let_def)
  have typing: "?reach (type_text c typed f, files)" if "?reach (f, files)" "printable typed" for c typed f files
    using that(1) step_type [OF that(2)] by (rule reach_step)
  have "?reach (demo_editor, Map.empty)" by (rule reach_init) (rule refl)
  then have "?reach (demo_typed, Map.empty)" unfolding demo_typed_def
    by (intro typing) (simp_all add: printable_def)
  then have "?reach (demo_edited, Map.empty)" unfolding demo_edited_def
    by (rule reach_step) (rule step_click [of AddButton AddHandler], simp, rule run_add)
  then have "?reach (f, files)"
    by (rule reach_step) (rule step_click [of SaveButton SaveHandler], simp, rule run_save [OF _ save(1)], simp)
  moreover have "Load tree_lib files LoadBalancerConfig_default ?path = (f_config demo_edited, Inr ())"
    using Load_Save [OF tree_lib_reads_back demo_edited_config(6), of ?path ?disk Map.empty LoadBalancerConfig_default] save(2)
    by (auto simp: has_parent_path_def)
  ultimately show ?thesis using save(3) by blast
qed

theorem edited_configuration_never_crashes_witness:
  "\<exists>f files lb e. reach (\<lambda>s. s = (demo_editor, Map.empty)) (window_step tree_lib (\<lambda>s. Some (of_decimal s))) (f, files) \<and>
     m_nodes (f_config f) = [ServiceNode_new ''web-1'' ''10.0.0.1'' 8080 1] \<and>
     main_start (edited_platform files) [''bit_bridge_lb'', ''bitbridge-config.yaml''] = Running lb \<and>
     lb_step strict_parser 1024 (Running lb) e (Exited 1) \<and> (\<exists>opened. e = AcceptDone opened success None)"
proof -
  obtain f files where steps: "reach (\<lambda>s. s = (demo_editor, Map.empty)) (window_step tree_lib (\<lambda>s. Some (of_decimal s))) (f, files)"
    and f: "f_config f = f_config demo_edited"
    and load: "Load tree_lib files LoadBalancerConfig_default ''bitbridge-config.yaml'' = (f_config demo_edited, Inr ())"
    using demo_session by blast
  let ?pf = "edited_platform files" and ?argv = "[''bit_bridge_lb'', ''bitbridge-config.yaml'']"
  have pf: "pf_yaml ?pf = tree_lib" "pf_files ?pf = files" "pf_make_address ?pf = strict_parser" "pf_dist ?pf = updown_dist"
    by (simp_all add: edited_platform_def)
  have "strict_parser ''0.0.0.0'' = Some ''0.0.0.0''" by code_simp
  then obtain lb where lb: "main_start ?pf ?argv = Running lb"
    using main_start_Running_iff [of ?pf ?argv] load by (auto simp: edited_platform_def demo_edited_config)
  then have "main_configured ?pf (f_config demo_edited) = Running lb" using load by (simp add: main_start_def pf)
  from main_initial_state [OF this] have crash: "lb_step strict_parser 1024 (Running lb) (AcceptDone True success None) (Exited 1)"
    by (intro early_reset_ends_process) simp_all
  have running: "reach (\<lambda>p. p = main_start ?pf [''bit_bridge_lb'', m_configFilePath AppSettings_new])
      (lb_step strict_parser 1024) (Running lb)"
    by (rule reach_init) (simp add: lb demo_edited_config)
  let ?e = "AcceptDone True success None"
  have "\<exists>opened. ?e = AcceptDone opened success None"
    using edited_configuration_never_crashes [of ?pf 1024 demo_editor Map.empty demo_geometry AppSettings_new, unfolded pf,
        OF tree_lib_reads_back strict_parser_ok updown_dist_ok _ _ _ demo_editor_config(2) steps running crash]
    by (simp add: demo_editor_def)
  with steps lb crash f show ?thesis
    by (intro exI [of _ f] exI [of _ files] exI [of _ lb] exI [of _ ?e]) (simp add: demo_edited_config)
qed

end
